(* ===== verification/Prelude.thy ===== *)
theory Prelude
  imports Main "HOL-Library.Word" "HOL-Library.Sublist"
begin

text \<open>
  What every component of the development shares: the result type for Go's
  \<^verbatim>\<open>(value, error)\<close> returns, Go's \<^verbatim>\<open>int64\<close> arithmetic and its
  saturating \<^verbatim>\<open>time.Time.Sub\<close>, the times and durations the sidecar
  measures with, generic lemmas on lists, and the locale through which every
  step relation of the development gets its invariants.
\<close>

unbundle bit_operations_syntax

section \<open>Collections\<close>

named_theorems go_defs \<open>definitions of the modelled operations, unfolded by name\<close>
named_theorems keeps \<open>what an operation leaves unchanged\<close>
named_theorems preserves \<open>operations keep the invariant of their component\<close>

section \<open>Errors and results\<close>

text \<open>
  A Go function returning \<^verbatim>\<open>(T, error)\<close> is modelled in the type
  \<open>'e + 'a\<close>: \<open>Inl\<close> carries the error, \<open>Inr\<close> the value. A function
  returning only \<^verbatim>\<open>error\<close> is modelled in \<open>'e option\<close>, \<open>None\<close> being
  \<^verbatim>\<open>nil\<close>. An operating-system error is an \<open>errno\<close>: the sources look
  only at two of them.
\<close>

datatype errno = ENOENT | EEXIST | Errno nat

text \<open>\<^verbatim>\<open>errors.Join\<close>: nil when every error is nil, else the errors that are not.\<close>

definition errors_join :: "'e option list \<Rightarrow> 'e list" where
  "errors_join es = List.map_filter (\<lambda>e. e) es"

lemma errors_join_simps [simp]:
  "errors_join [] = []"
  "errors_join (None # es) = errors_join es"
  "errors_join (Some e # es) = e # errors_join es"
  by (simp_all add: errors_join_def List.map_filter_def)

lemma errors_join_append [simp]: "errors_join (xs @ ys) = errors_join xs @ errors_join ys"
  by (induction xs) (auto simp: errors_join_def List.map_filter_def)

lemma errors_join_Nil_iff: "errors_join es = [] \<longleftrightarrow> (\<forall>e \<in> set es. e = None)"
  by (auto simp: errors_join_def List.map_filter_def filter_empty_conv)

section \<open>Go integers\<close>

text \<open>
  \<open>i64\<close> is the value an \<^verbatim>\<open>int64\<close> expression has when its exact result is
  \<open>x\<close>: two's complement wrap-around at 64 bits.
\<close>

definition i64 :: "int \<Rightarrow> int" where
  "i64 x = (x + 2 ^ 63) mod 2 ^ 64 - 2 ^ 63"

abbreviation max_i64 :: int where "max_i64 \<equiv> 2 ^ 63 - 1"
abbreviation min_i64 :: int where "min_i64 \<equiv> - (2 ^ 63)"

lemma i64_id: "min_i64 \<le> x \<Longrightarrow> x \<le> max_i64 \<Longrightarrow> i64 x = x"
  by (simp add: i64_def)

lemma i64_range: "min_i64 \<le> i64 x \<and> i64 x \<le> max_i64"
proof -
  have "0 \<le> (x + 2 ^ 63) mod 2 ^ 64" and "(x + 2 ^ 63) mod 2 ^ 64 < (2 ^ 64 :: int)"
    by (rule pos_mod_sign, simp, rule pos_mod_bound, simp)
  then show ?thesis by (simp add: i64_def)
qed

lemma i64_wraps: "i64 (max_i64 + 1) = min_i64"
  by (simp add: i64_def)

section \<open>Times and durations\<close>

text \<open>
  A \<^verbatim>\<open>time.Time\<close> is a number of nanoseconds since Go's zero time (1 January
  of year 1, UTC), so \<^verbatim>\<open>IsZero\<close> is being \<open>0\<close>; a \<^verbatim>\<open>time.Duration\<close> is an
  \<^verbatim>\<open>int64\<close> number of nanoseconds. \<^verbatim>\<open>Unix\<close> counts whole seconds since 1970.
\<close>

type_synonym time = int
type_synonym duration = int

definition ns_second :: int where "ns_second = 1000000000"

definition unix_epoch_seconds :: int where "unix_epoch_seconds = 62135596800"

definition time_is_zero :: "time \<Rightarrow> bool" where
  "time_is_zero t \<longleftrightarrow> t = 0"

definition time_unix :: "time \<Rightarrow> int" where
  "time_unix t = t div ns_second - unix_epoch_seconds"

text \<open>\<^verbatim>\<open>t.Sub(u)\<close> saturates at the ends of \<^verbatim>\<open>int64\<close> instead of wrapping.\<close>

definition time_sub :: "time \<Rightarrow> time \<Rightarrow> duration" where
  "time_sub t u = max min_i64 (min max_i64 (t - u))"

lemma time_sub_less_iff: "min_i64 \<le> d \<Longrightarrow> d < max_i64 \<Longrightarrow> d < time_sub t u \<longleftrightarrow> d < t - u"
  unfolding time_sub_def by linarith

section \<open>Lists\<close>

lemma takeWhile_all_iff: "takeWhile P xs = xs \<longleftrightarrow> (\<forall>x \<in> set xs. P x)"
  by (induction xs) auto

lemma takeWhile_stop: "x \<notin> set ys \<Longrightarrow> takeWhile (\<lambda>c. c \<noteq> x) (ys @ x # zs) = ys"
  by (induction ys) auto

lemma sum_list_take_le: "sum_list (take n xs) \<le> sum_list (xs :: nat list)"
  by (metis append_take_drop_id le_add1 sum_list_append)

lemma sum_list_take_drop: "sum_list (take n xs) + sum_list (drop n xs) = sum_list (xs :: nat list)"
  by (metis append_take_drop_id sum_list_append)

lemma map_filter_append [simp]: "List.map_filter f (xs @ ys) = List.map_filter f xs @ List.map_filter f ys"
  by (simp add: List.map_filter_def)

lemma map_filter_map_Some [simp]: "(\<And>x. f (g x) = Some (h x)) \<Longrightarrow> List.map_filter f (map g xs) = map h xs"
  by (induction xs) auto

lemma map_filter_map_None [simp]: "(\<And>x. f (g x) = None) \<Longrightarrow> List.map_filter f (map g xs) = []"
  by (induction xs) auto

lemma in_map_filter: "y \<in> set (List.map_filter f xs) \<longleftrightarrow> (\<exists>x \<in> set xs. f x = Some y)"
  by (induction xs) (auto split: option.splits)

section \<open>Labelled step relations and their invariants\<close>

text \<open>
  Every component with interleaved operations is a relation \<open>step s e s'\<close> ("from
  \<open>s\<close>, the event \<open>e\<close> may lead to \<open>s'\<close>"). \<open>reach\<close> are the states a run from
  an initial state can be in; \<open>run\<close> relates the two ends of a run with its events.
\<close>

inductive reach :: "('s \<Rightarrow> bool) \<Rightarrow> ('s \<Rightarrow> 'e \<Rightarrow> 's \<Rightarrow> bool) \<Rightarrow> 's \<Rightarrow> bool"
  for init step where
  reach_init: "init s \<Longrightarrow> reach init step s"
| reach_step: "reach init step s \<Longrightarrow> step s e t \<Longrightarrow> reach init step t"

inductive run :: "('s \<Rightarrow> 'e \<Rightarrow> 's \<Rightarrow> bool) \<Rightarrow> 's \<Rightarrow> 'e list \<Rightarrow> 's \<Rightarrow> bool" for step where
  run_Nil [simp, intro]: "run step s [] s"
| run_Cons: "step s e t \<Longrightarrow> run step t es u \<Longrightarrow> run step s (e # es) u"

inductive_cases run_NilE [elim!]: "run step s [] t"
inductive_cases run_ConsE [elim!]: "run step s (e # es) t"

lemma run_append: "run step s es t \<Longrightarrow> run step t fs u \<Longrightarrow> run step s (es @ fs) u"
  by (induction rule: run.induct) (auto intro: run_Cons)

lemma run_snoc: "run step s es t \<Longrightarrow> step t e u \<Longrightarrow> run step s (es @ [e]) u"
  by (rule run_append) (auto intro: run_Cons)

lemma reach_run: "reach init step s \<Longrightarrow> run step s es t \<Longrightarrow> reach init step t"
  by (rotate_tac, induction rule: run.induct) (auto intro: reach_step)

lemma run_reach: "init s \<Longrightarrow> run step s es t \<Longrightarrow> reach init step t"
  by (blast intro: reach_run reach_init)

text \<open>
  The interface of a component to its safety proofs: a set of initial states, a
  step relation and a predicate both respect. The facts below are what a component
  gets for one preservation proof.
\<close>

locale invariant_system =
  fixes init :: "'s \<Rightarrow> bool"
    and step :: "'s \<Rightarrow> 'e \<Rightarrow> 's \<Rightarrow> bool"
    and inv :: "'s \<Rightarrow> bool"
  assumes inv_init: "init s \<Longrightarrow> inv s"
    and inv_step: "step s e t \<Longrightarrow> inv s \<Longrightarrow> inv t"
begin

lemma inv_run: "run step s es t \<Longrightarrow> inv s \<Longrightarrow> inv t"
  by (induction rule: run.induct) (auto intro: inv_step)

lemma inv_reach: "reach init step s \<Longrightarrow> inv s"
  by (induction rule: reach.induct) (auto intro: inv_init inv_step)

lemma inv_from_init: "init s \<Longrightarrow> run step s es t \<Longrightarrow> inv t"
  by (blast intro: inv_run inv_init)

end

text \<open>
  A specification and its implementation: every step of the implementation is, seen
  through the abstraction function, a step of the specification with the same label.
\<close>

locale simulation =
  fixes cstep :: "'c \<Rightarrow> 'e \<Rightarrow> 'c \<Rightarrow> bool"
    and astep :: "'a \<Rightarrow> 'e \<Rightarrow> 'a \<Rightarrow> bool"
    and abs :: "'c \<Rightarrow> 'a"
  assumes simulates: "cstep s e t \<Longrightarrow> astep (abs s) e (abs t)"
begin

lemma run_simulates: "run cstep s es t \<Longrightarrow> run astep (abs s) es (abs t)"
  by (induction rule: run.induct) (auto intro: run_Cons simulates)

end

end
