(* ===== verification/Go_Strings.thy ===== *)
theory Go_Strings
  imports Prelude
begin

text \<open>
  The parts of Go's \<^verbatim>\<open>strings\<close>, \<^verbatim>\<open>strconv\<close>, \<^verbatim>\<open>encoding/hex\<close>, \<^verbatim>\<open>unicode/utf8\<close>
  and \<^verbatim>\<open>bufio.Scanner\<close> the sidecar calls, on byte strings. A Go string is a
  sequence of bytes, which is what HOL's \<open>string\<close> (a list of 8-bit characters) is;
  \<open>length\<close> counts bytes as Go's \<^verbatim>\<open>len\<close> does.
\<close>

abbreviation byte :: "char \<Rightarrow> nat" where "byte c \<equiv> of_char c"

abbreviation newline :: char where "newline \<equiv> CHR 0x0A"
abbreviation carriage_return :: char where "carriage_return \<equiv> CHR 0x0D"

section \<open>Runes and white space\<close>

definition cont_byte :: "nat \<Rightarrow> bool" where
  "cont_byte b \<longleftrightarrow> 0x80 \<le> b \<and> b \<le> 0xBF"

text \<open>
  \<^verbatim>\<open>utf8.DecodeRuneInString\<close>: the code point at the head of a string and its width
  in bytes; an encoding that is invalid or not the shortest one gives U+FFFD of width 1.
\<close>

definition rune_error :: nat where "rune_error = 0xFFFD"

definition decode2 :: "nat \<Rightarrow> nat list \<Rightarrow> nat \<times> nat" where
  "decode2 b0 bs = (case bs of b1 # _ \<Rightarrow>
     if cont_byte b1 then ((b0 - 0xC0) * 64 + (b1 - 0x80), 2) else (rune_error, 1)
   | _ \<Rightarrow> (rune_error, 1))"

definition decode3 :: "nat \<Rightarrow> nat list \<Rightarrow> nat \<times> nat" where
  "decode3 b0 bs = (case bs of b1 # b2 # _ \<Rightarrow>
     if (if b0 = 0xE0 then 0xA0 else 0x80) \<le> b1 \<and> b1 \<le> (if b0 = 0xED then 0x9F else 0xBF) \<and> cont_byte b2
     then ((b0 - 0xE0) * 4096 + (b1 - 0x80) * 64 + (b2 - 0x80), 3) else (rune_error, 1)
   | _ \<Rightarrow> (rune_error, 1))"

definition decode4 :: "nat \<Rightarrow> nat list \<Rightarrow> nat \<times> nat" where
  "decode4 b0 bs = (case bs of b1 # b2 # b3 # _ \<Rightarrow>
     if (if b0 = 0xF0 then 0x90 else 0x80) \<le> b1 \<and> b1 \<le> (if b0 = 0xF4 then 0x8F else 0xBF)
        \<and> cont_byte b2 \<and> cont_byte b3
     then ((b0 - 0xF0) * 262144 + (b1 - 0x80) * 4096 + (b2 - 0x80) * 64 + (b3 - 0x80), 4)
     else (rune_error, 1)
   | _ \<Rightarrow> (rune_error, 1))"

definition decode_rune :: "char \<Rightarrow> string \<Rightarrow> nat \<times> nat" where
  "decode_rune c cs =
     (let b0 = byte c; bs = map byte (take 3 cs) in
      if b0 < 0x80 then (b0, 1)
      else if 0xC2 \<le> b0 \<and> b0 \<le> 0xDF then decode2 b0 bs
      else if 0xE0 \<le> b0 \<and> b0 \<le> 0xEF then decode3 b0 bs
      else if 0xF0 \<le> b0 \<and> b0 \<le> 0xF4 then decode4 b0 bs
      else (rune_error, 1))"

text \<open>\<^verbatim>\<open>unicode.IsSpace\<close>.\<close>

definition is_space :: "nat \<Rightarrow> bool" where
  "is_space r \<longleftrightarrow> (9 \<le> r \<and> r \<le> 13) \<or> r = 0x20 \<or> r = 0x85 \<or> r = 0xA0 \<or> r = 0x1680
     \<or> (0x2000 \<le> r \<and> r \<le> 0x200A) \<or> r = 0x2028 \<or> r = 0x2029 \<or> r = 0x202F \<or> r = 0x205F \<or> r = 0x3000"

text \<open>A string as its runes, each with the bytes it was decoded from.\<close>

fun runes :: "string \<Rightarrow> (nat \<times> string) list" where
  "runes [] = []"
| "runes (c # cs) = (let (r, n) = decode_rune c cs in (r, c # take (n - 1) cs) # runes (drop (n - 1) cs))"

lemma concat_runes: "concat (map snd (runes s)) = s"
  by (induction s rule: runes.induct) (auto simp: Let_def split: prod.splits)

text \<open>
  \<^verbatim>\<open>strings.Fields\<close>: the maximal runs of runes that are not white space. \<open>cur\<close> is
  the field being read.
\<close>

fun fields_from :: "string \<Rightarrow> (nat \<times> string) list \<Rightarrow> string list" where
  "fields_from cur [] = (if cur = [] then [] else [cur])"
| "fields_from cur ((r, bs) # rs) =
     (if is_space r then (if cur = [] then fields_from [] rs else cur # fields_from [] rs)
      else fields_from (cur @ bs) rs)"

definition Fields :: "string \<Rightarrow> string list" where
  "Fields s = fields_from [] (runes s)"

text \<open>ASCII strings: every rune is one byte, which is the fast path of the library.\<close>

definition ascii :: "string \<Rightarrow> bool" where
  "ascii s \<longleftrightarrow> (\<forall>c \<in> set s. byte c < 0x80)"

lemma ascii_simps [simp]: "ascii []" "ascii (c # s) \<longleftrightarrow> byte c < 0x80 \<and> ascii s"
  "ascii (s @ t) \<longleftrightarrow> ascii s \<and> ascii t"
  by (auto simp: ascii_def)

lemma runes_ascii: "ascii s \<Longrightarrow> runes s = map (\<lambda>c. (byte c, [c])) s"
  by (induction s) (auto simp: decode_rune_def Let_def)

definition no_space :: "string \<Rightarrow> bool" where
  "no_space s \<longleftrightarrow> (\<forall>c \<in> set s. byte c < 0x80 \<and> \<not> is_space (byte c))"

lemma no_space_ascii: "no_space s \<Longrightarrow> ascii s"
  by (auto simp: no_space_def ascii_def)

lemma no_space_simps [simp]: "no_space []"
  "no_space (c # s) \<longleftrightarrow> byte c < 0x80 \<and> \<not> is_space (byte c) \<and> no_space s"
  "no_space (s @ t) \<longleftrightarrow> no_space s \<and> no_space t"
  by (auto simp: no_space_def)

lemma no_space_take: "no_space s \<Longrightarrow> no_space (take n s)"
  by (auto simp: no_space_def dest: in_set_takeD)

lemma fields_from_word:
  "no_space w \<Longrightarrow> fields_from cur (map (\<lambda>c. (byte c, [c])) w @ rs) = fields_from (cur @ w) rs"
  by (induction w arbitrary: cur) auto

lemma space_is_space: "is_space 32"
  by (simp add: is_space_def)

text \<open>Words separated by single spaces: \<^verbatim>\<open>Fields\<close> gives the words back.\<close>

definition unwords3 :: "string \<Rightarrow> string \<Rightarrow> string \<Rightarrow> string" where
  "unwords3 a b c = a @ '' '' @ b @ '' '' @ c"

lemma fields_unwords3:
  assumes "no_space a" "no_space b" "no_space c" "a \<noteq> []" "b \<noteq> []" "c \<noteq> []"
  shows "Fields (unwords3 a b c) = [a, b, c]"
proof -
  have "ascii (unwords3 a b c)"
    using assms by (simp add: unwords3_def no_space_ascii)
  then show ?thesis
    using assms by (simp add: Fields_def runes_ascii unwords3_def fields_from_word space_is_space
        fields_from_word [where rs = "[]", simplified])
qed

lemma fields_unwords2:
  assumes "no_space a" "no_space b" "a \<noteq> []"
  shows "Fields (a @ CHR '' '' # b) = (if b = [] then [a] else [a, b])"
proof -
  have "ascii (a @ CHR '' '' # b)"
    using assms by (simp add: no_space_ascii)
  then show ?thesis
    using assms by (simp add: Fields_def runes_ascii fields_from_word space_is_space
        fields_from_word [where rs = "[]", simplified])
qed

lemma fields_word: "no_space a \<Longrightarrow> Fields a = (if a = [] then [] else [a])"
  by (simp add: Fields_def runes_ascii no_space_ascii fields_from_word [where rs = "[]", simplified])

lemma fields_unwords2_blank:
  assumes "no_space a" "no_space b" "a \<noteq> []" "b \<noteq> []"
  shows "Fields (a @ CHR '' '' # b @ '' '') = [a, b]"
proof -
  have "ascii (a @ CHR '' '' # b @ '' '')"
    using assms by (simp add: no_space_ascii)
  then show ?thesis
    using assms by (simp add: Fields_def runes_ascii fields_from_word space_is_space)
qed

section \<open>Hexadecimal\<close>

definition hex_digit :: "char \<Rightarrow> nat option" where
  "hex_digit c =
     (let b = byte c in
      if 48 \<le> b \<and> b \<le> 57 then Some (b - 48)
      else if 97 \<le> b \<and> b \<le> 102 then Some (b - 87)
      else if 65 \<le> b \<and> b \<le> 70 then Some (b - 55)
      else None)"

text \<open>\<^verbatim>\<open>hex.DecodeString\<close>: an odd length or any other character is an error.\<close>

fun hex_decode :: "string \<Rightarrow> nat list option" where
  "hex_decode [] = Some []"
| "hex_decode [c] = None"
| "hex_decode (c # d # cs) =
     (case hex_digit c of None \<Rightarrow> None | Some x \<Rightarrow>
      (case hex_digit d of None \<Rightarrow> None | Some y \<Rightarrow>
       map_option (\<lambda>bs. (16 * x + y) # bs) (hex_decode cs)))"

definition is_hex :: "string \<Rightarrow> bool" where
  "is_hex s \<longleftrightarrow> (\<forall>c \<in> set s. hex_digit c \<noteq> None)"

lemma is_hex_simps [simp]: "is_hex []" "is_hex (c # s) \<longleftrightarrow> hex_digit c \<noteq> None \<and> is_hex s"
  "is_hex (s @ t) \<longleftrightarrow> is_hex s \<and> is_hex t"
  by (auto simp: is_hex_def)

lemma hex_decode_Some_iff: "(\<exists>bs. hex_decode s = Some bs) \<longleftrightarrow> is_hex s \<and> even (length s)"
  by (induction s rule: hex_decode.induct) (auto split: option.splits)

lemma hex_decode_length: "hex_decode s = Some bs \<Longrightarrow> length s = 2 * length bs"
  by (induction s arbitrary: bs rule: hex_decode.induct) (auto split: option.splits)

lemma hex_decode_bytes: "hex_decode s = Some bs \<Longrightarrow> \<forall>b \<in> set bs. b < 256"
  by (induction s arbitrary: bs rule: hex_decode.induct)
    (auto split: option.splits if_splits simp: hex_digit_def Let_def)

lemma is_hex_no_space: "is_hex s \<Longrightarrow> no_space s"
  by (auto simp: is_hex_def no_space_def hex_digit_def is_space_def Let_def split: if_splits)

lemma is_hex_take: "is_hex s \<Longrightarrow> is_hex (take n s)"
  by (auto simp: is_hex_def dest: in_set_takeD)

section \<open>Decimal numbers\<close>

definition digit_char :: "nat \<Rightarrow> char" where
  "digit_char d = char_of (48 + d)"

fun utoa :: "nat \<Rightarrow> string" where
  "utoa n = (if n < 10 then [digit_char n] else utoa (n div 10) @ [digit_char (n mod 10)])"

declare utoa.simps [simp del]

text \<open>\<^verbatim>\<open>strconv.Itoa\<close> and \<^verbatim>\<open>strconv.FormatInt(_, 10)\<close>.\<close>

definition itoa :: "int \<Rightarrow> string" where
  "itoa n = (if n < 0 then ''-'' @ utoa (nat (- n)) else utoa (nat n))"

definition is_digit :: "char \<Rightarrow> bool" where
  "is_digit c \<longleftrightarrow> 48 \<le> byte c \<and> byte c \<le> 57"

definition all_digits :: "string \<Rightarrow> bool" where
  "all_digits s \<longleftrightarrow> s \<noteq> [] \<and> (\<forall>c \<in> set s. is_digit c)"

lemma byte_digit_char: "d < 10 \<Longrightarrow> byte (digit_char d) = 48 + d"
  by (simp add: digit_char_def of_char_of)

lemma is_digit_digit_char: "d < 10 \<Longrightarrow> is_digit (digit_char d)"
  by (simp add: is_digit_def byte_digit_char)

lemma all_digits_utoa: "all_digits (utoa n)"
proof (induction n rule: utoa.induct)
  case (1 n)
  then show ?case
    by (subst utoa.simps) (auto simp: all_digits_def is_digit_digit_char)
qed

lemma all_digits_itoa: "0 \<le> n \<Longrightarrow> all_digits (itoa n)"
  by (simp add: itoa_def all_digits_utoa)

fun digits_value :: "nat \<Rightarrow> string \<Rightarrow> nat" where
  "digits_value acc [] = acc"
| "digits_value acc (c # cs) = digits_value (10 * acc + (byte c - 48)) cs"

lemma digits_value_append: "digits_value acc (s @ t) = digits_value (digits_value acc s) t"
  by (induction s arbitrary: acc) auto

lemma digits_value_utoa: "digits_value 0 (utoa n) = n"
proof (induction n rule: utoa.induct)
  case (1 n)
  then show ?case
    by (subst utoa.simps) (auto simp: digits_value_append byte_digit_char)
qed

lemma utoa_inject [simp]: "utoa m = utoa n \<longleftrightarrow> m = n"
  by (metis digits_value_utoa)

section \<open>Prefixes, suffixes, joining\<close>

text \<open>\<^verbatim>\<open>strings.TrimSuffix\<close>, \<^verbatim>\<open>strings.TrimPrefix\<close>, \<^verbatim>\<open>strings.Join\<close>.\<close>

definition trim_suffix :: "string \<Rightarrow> string \<Rightarrow> string" where
  "trim_suffix s suf = (if suffix suf s then take (length s - length suf) s else s)"

definition trim_prefix :: "string \<Rightarrow> string \<Rightarrow> string" where
  "trim_prefix s pre = (if prefix pre s then drop (length pre) s else s)"

fun join :: "string list \<Rightarrow> string \<Rightarrow> string" where
  "join [] sep = []"
| "join [x] sep = x"
| "join (x # y # zs) sep = x @ sep @ join (y # zs) sep"

lemma join_Cons: "xs \<noteq> [] \<Longrightarrow> join (x # xs) sep = x @ sep @ join xs sep"
  by (cases xs) auto

lemma length_join_nl:
  "ls \<noteq> [] \<Longrightarrow> length (join ls [c] @ [c]) = sum_list (map (\<lambda>l. length l + 1) ls)"
  by (induction ls rule: induct_list012) auto

lemma trim_suffix_append [simp]: "trim_suffix (s @ t) t = s"
  by (simp add: trim_suffix_def suffix_def)

lemma trim_prefix_append [simp]: "trim_prefix (p @ t) p = t"
  by (simp add: trim_prefix_def)

section \<open>Reading lines\<close>

text \<open>
  \<^verbatim>\<open>bufio.Scanner\<close> with its default \<^verbatim>\<open>ScanLines\<close>, run to the end of the data: the
  lines without their terminating newline and without one carriage return before it, the
  last line also when no newline ends it. A line that does not fit, newline included, in
  the \<open>mx\<close> bytes the buffer may grow to (65536 by default) ends the scan with
  \<^verbatim>\<open>ErrTooLong\<close>, the second component.
\<close>

definition max_scan_token_size :: nat where "max_scan_token_size = 65536"

definition drop_cr :: "string \<Rightarrow> string" where
  "drop_cr s = (if s \<noteq> [] \<and> last s = carriage_return then butlast s else s)"

function scan_lines :: "nat \<Rightarrow> string \<Rightarrow> string list \<times> bool" where
  "scan_lines mx s =
     (if s = [] then ([], False)
      else let line = takeWhile (\<lambda>c. c \<noteq> newline) s; rest = dropWhile (\<lambda>c. c \<noteq> newline) s in
        if mx \<le> length line then ([], True)
        else if rest = [] then ([drop_cr line], False)
        else let (ls, e) = scan_lines mx (tl rest) in (drop_cr line # ls, e))"
  by pat_completeness auto
termination
proof (relation "measure (\<lambda>(mx, s). length s)", goal_cases)
  case (2 mx s line rest)
  then have "length rest \<le> length s" "rest \<noteq> []"
    by (simp_all add: length_dropWhile_le)
  then show ?case by (cases rest) auto
qed simp

declare scan_lines.simps [simp del]

lemma scan_lines_Nil [simp]: "scan_lines mx [] = ([], False)"
  by (simp add: scan_lines.simps)

lemma scan_lines_line:
  assumes "newline \<notin> set l" "length l < mx"
  shows "scan_lines mx (l @ newline # s) = (let (ls, e) = scan_lines mx s in (drop_cr l # ls, e))"
proof -
  have "takeWhile (\<lambda>c. c \<noteq> newline) (l @ newline # s) = l"
    "dropWhile (\<lambda>c. c \<noteq> newline) (l @ newline # s) = newline # s"
    using assms(1) by (induction l) auto
  with assms(2) show ?thesis
    by (subst scan_lines.simps) simp
qed

lemma scan_lines_last:
  assumes "newline \<notin> set l" "length l < mx" "l \<noteq> []"
  shows "scan_lines mx l = ([drop_cr l], False)"
proof -
  have *: "takeWhile (\<lambda>c. c \<noteq> newline) l = l" "dropWhile (\<lambda>c. c \<noteq> newline) l = []"
    using assms(1) by (induction l) auto
  show ?thesis
    unfolding scan_lines.simps [of mx l] * using assms(2,3) by (simp add: Let_def)
qed

lemma set_drop_cr: "set (drop_cr s) \<subseteq> set s"
  by (auto simp: drop_cr_def dest: in_set_butlastD)

lemma length_drop_cr: "length (drop_cr s) \<le> length s"
  by (simp add: drop_cr_def)

lemma scan_lines_no_newline: "l \<in> set (fst (scan_lines mx s)) \<Longrightarrow> newline \<notin> set l"
proof (induction mx s rule: scan_lines.induct)
  case (1 mx s)
  have tw: "newline \<notin> set (drop_cr (takeWhile (\<lambda>c. c \<noteq> newline) s))"
    using set_drop_cr set_takeWhileD by fastforce
  show ?case
    using 1 tw by (subst (asm) (2) scan_lines.simps)
      (auto simp: Let_def split: if_splits prod.splits)
qed

lemma scan_lines_length: "l \<in> set (fst (scan_lines mx s)) \<Longrightarrow> length l < mx"
proof (induction mx s rule: scan_lines.induct)
  case (1 mx s)
  have tw: "length (drop_cr t) < mx" if "\<not> mx \<le> length t" for t
    using that length_drop_cr [of t] by simp
  show ?case
    using 1 tw by (subst (asm) (2) scan_lines.simps)
      (auto simp: Let_def split: if_splits prod.splits)
qed

text \<open>Lines sent with a newline each are read back as they were sent.\<close>

definition unlines :: "string list \<Rightarrow> string" where
  "unlines ls = concat (map (\<lambda>l. l @ [newline]) ls)"

lemma unlines_simps [simp]: "unlines [] = []" "unlines (l # ls) = l @ newline # unlines ls"
  "unlines (ls @ ms) = unlines ls @ unlines ms"
  by (simp_all add: unlines_def)

lemma scan_lines_unlines:
  assumes "\<forall>l \<in> set ls. newline \<notin> set l \<and> carriage_return \<notin> set l \<and> length l < mx"
  shows "scan_lines mx (unlines ls) = (ls, False)"
  using assms
proof (induction ls)
  case (Cons l ls)
  then have "drop_cr l = l"
    by (auto simp: drop_cr_def dest: last_in_set)
  with Cons show ?case
    by (simp add: scan_lines_line)
qed simp

lemma unlines_join: "ls \<noteq> [] \<Longrightarrow> unlines ls = join ls [newline] @ [newline]"
  by (induction ls rule: induct_list012) auto

end
