(* ===== verification/Nss.thy ===== *)
theory Nss
  imports Go_Strings
begin

text \<open>
  \<^verbatim>\<open>internal/keylog/label.go\<close> and \<^verbatim>\<open>internal/keylog/nss.go\<close>: the labels of an NSS
  keylog line and the check every line from the socket passes before it is kept.
\<close>

section \<open>Labels\<close>

datatype label =
    LabelClientRandom
  | LabelClientHandshakeTrafficSecret
  | LabelServerHandshakeTrafficSecret
  | LabelClientTrafficSecret0
  | LabelServerTrafficSecret0
  | LabelExporterSecret

text \<open>The value \<^verbatim>\<open>iota\<close> gives each label, and the order it induces.\<close>

primrec label_iota :: "label \<Rightarrow> nat" where
  "label_iota LabelClientRandom = 0"
| "label_iota LabelClientHandshakeTrafficSecret = 1"
| "label_iota LabelServerHandshakeTrafficSecret = 2"
| "label_iota LabelClientTrafficSecret0 = 3"
| "label_iota LabelServerTrafficSecret0 = 4"
| "label_iota LabelExporterSecret = 5"

lemma label_iota_inject: "label_iota l = label_iota m \<longleftrightarrow> l = m"
  by (cases l; cases m) simp_all

instantiation label :: linorder
begin

definition less_eq_label :: "label \<Rightarrow> label \<Rightarrow> bool" where
  "less_eq_label l m \<longleftrightarrow> label_iota l \<le> label_iota m"

definition less_label :: "label \<Rightarrow> label \<Rightarrow> bool" where
  "less_label l m \<longleftrightarrow> label_iota l < label_iota m"

instance
  by standard (auto simp: less_eq_label_def less_label_def label_iota_inject)

end

primrec labelName :: "label \<Rightarrow> string" where
  "labelName LabelClientRandom = ''CLIENT_RANDOM''"
| "labelName LabelClientHandshakeTrafficSecret = ''CLIENT_HANDSHAKE_TRAFFIC_SECRET''"
| "labelName LabelServerHandshakeTrafficSecret = ''SERVER_HANDSHAKE_TRAFFIC_SECRET''"
| "labelName LabelClientTrafficSecret0 = ''CLIENT_TRAFFIC_SECRET_0''"
| "labelName LabelServerTrafficSecret0 = ''SERVER_TRAFFIC_SECRET_0''"
| "labelName LabelExporterSecret = ''EXPORTER_SECRET''"

definition all_labels :: "label list" where
  "all_labels = [LabelClientRandom, LabelClientHandshakeTrafficSecret, LabelServerHandshakeTrafficSecret,
     LabelClientTrafficSecret0, LabelServerTrafficSecret0, LabelExporterSecret]"

definition labelByName :: "string \<rightharpoonup> label" where
  "labelByName = map_of (map (\<lambda>l. (labelName l, l)) all_labels)"

lemma labelByName_labelName [simp]: "labelByName (labelName l) = Some l"
  by (cases l) (simp_all add: labelByName_def all_labels_def)

lemma labelByName_Some: "labelByName n = Some l \<longleftrightarrow> n = labelName l"
proof
  assume "labelByName n = Some l"
  then show "n = labelName l"
    by (auto simp: labelByName_def dest!: map_of_SomeD)
qed simp

lemma labelName_inject: "labelName l = labelName m \<longleftrightarrow> l = m"
  by (metis labelByName_labelName option.inject)

lemma no_space_labelName: "no_space (labelName l)"
  by (cases l) (simp_all add: is_space_def)

lemma labelName_not_Nil: "labelName l \<noteq> []"
  by (cases l) simp_all

section \<open>Validation\<close>

definition validSecretLen :: "label \<Rightarrow> nat \<Rightarrow> bool" where
  "validSecretLen label n =
     (if label = LabelClientRandom then n = 48 else n = 32 \<or> n = 48)"

text \<open>Each of these wraps \<^verbatim>\<open>ErrMalformedLine\<close>.\<close>

datatype malformed =
    ExpectedFields nat
  | UnknownLabel string
  | InvalidClientRandom
  | InvalidSecretLength string

definition ValidateLine :: "string \<Rightarrow> malformed option" where
  "ValidateLine line =
     (let fs = Fields line in
      if length fs \<noteq> 3 then Some (ExpectedFields (length fs))
      else case labelByName (fs ! 0) of
        None \<Rightarrow> Some (UnknownLabel (fs ! 0))
      | Some label \<Rightarrow>
          if (case hex_decode (fs ! 1) of None \<Rightarrow> True | Some cr \<Rightarrow> length cr \<noteq> 32)
          then Some InvalidClientRandom
          else if (case hex_decode (fs ! 2) of None \<Rightarrow> True | Some secret \<Rightarrow> \<not> validSecretLen label (length secret))
          then Some (InvalidSecretLength (fs ! 0))
          else None)"

text \<open>The well-formed lines: a label, 64 and 64 or 96 hexadecimal digits.\<close>

definition secret_digits :: "label \<Rightarrow> nat \<Rightarrow> bool" where
  "secret_digits l n \<longleftrightarrow> n = 96 \<or> (n = 64 \<and> l \<noteq> LabelClientRandom)"

definition line_parts :: "label \<Rightarrow> string \<Rightarrow> string \<Rightarrow> bool" where
  "line_parts l cr sec \<longleftrightarrow> is_hex cr \<and> length cr = 64 \<and> is_hex sec \<and> secret_digits l (length sec)"

lemma hex_decode_len_iff:
  "(case hex_decode s of None \<Rightarrow> False | Some bs \<Rightarrow> P (length bs)) \<longleftrightarrow>
   is_hex s \<and> even (length s) \<and> P (length s div 2)"
  using hex_decode_Some_iff [of s] hex_decode_length [of s]
  by (cases "hex_decode s") auto

lemma validSecretLen_digits:
  "even n \<and> validSecretLen l (n div 2) \<longleftrightarrow> secret_digits l n"
  by (auto simp: validSecretLen_def secret_digits_def)

lemma length_3_conv: "length fs = 3 \<longleftrightarrow> (\<exists>a b c. fs = [a, b, c])"
  by (auto simp: numeral_3_eq_3 length_Suc_conv)

text \<open>Acceptance characterised on the fields, whatever separates them.\<close>

lemma ValidateLine_fields:
  "ValidateLine line = None \<longleftrightarrow>
     (\<exists>l cr sec. Fields line = [labelName l, cr, sec] \<and> line_parts l cr sec)"
proof (cases "length (Fields line) = 3")
  case False
  then show ?thesis by (auto simp: ValidateLine_def Let_def)
next
  case True
  then obtain n cr sec where f: "Fields line = [n, cr, sec]"
    by (auto simp: length_3_conv)
  have cr: "(case hex_decode cr of None \<Rightarrow> True | Some bs \<Rightarrow> length bs \<noteq> 32) \<longleftrightarrow> \<not> (is_hex cr \<and> length cr = 64)"
    using hex_decode_len_iff [where s = cr and P = "\<lambda>n. n = 32"] by (auto split: option.splits)
  have sec: "(case hex_decode sec of None \<Rightarrow> True | Some bs \<Rightarrow> \<not> validSecretLen l (length bs))
      \<longleftrightarrow> \<not> (is_hex sec \<and> secret_digits l (length sec))" for l
    using hex_decode_len_iff [where s = sec and P = "validSecretLen l"] validSecretLen_digits [of "length sec" l]
    by (auto split: option.splits)
  show ?thesis
  proof (cases "labelByName n")
    case None
    then show ?thesis using f by (auto simp: ValidateLine_def Let_def)
  next
    case (Some l)
    then have "n = labelName l" by (simp add: labelByName_Some)
    then show ?thesis
      using f cr sec by (auto simp: ValidateLine_def Let_def line_parts_def labelName_inject)
  qed
qed

lemma ValidateLine_unknown:
  "Fields line = [name, cr, sec] \<Longrightarrow> name \<notin> range labelName \<Longrightarrow> ValidateLine line = Some (UnknownLabel name)"
  by (cases "labelByName name") (auto simp: ValidateLine_def Let_def labelByName_Some)

text \<open>A line of a known label as OpenSSL's callback hands it to the interposer: single spaces,
  nothing else.\<close>

definition nss_line :: "label \<Rightarrow> string \<Rightarrow> string \<Rightarrow> string" where
  "nss_line l cr sec = unwords3 (labelName l) cr sec"

lemma line_parts_words: "line_parts l cr sec \<Longrightarrow> no_space cr \<and> no_space sec \<and> cr \<noteq> [] \<and> sec \<noteq> []"
  by (auto simp: line_parts_def secret_digits_def is_hex_no_space)

lemma fields_nss_line: "line_parts l cr sec \<Longrightarrow> Fields (nss_line l cr sec) = [labelName l, cr, sec]"
  using line_parts_words [of l cr sec]
  by (simp add: nss_line_def fields_unwords3 no_space_labelName labelName_not_Nil)

lemma ValidateLine_nss_line: "line_parts l cr sec \<Longrightarrow> ValidateLine (nss_line l cr sec) = None"
  using fields_nss_line ValidateLine_fields by blast

text \<open>
  A line cut short. What a connection that breaks mid-line leaves is a proper prefix of
  the line; where the cut falls decides how many fields are left.
\<close>

lemma is_hex_labelName: "\<not> is_hex (labelName l)"
  by (cases l) (simp_all add: hex_digit_def)

lemma fields_take_word: "no_space w \<Longrightarrow> length (Fields (take n w)) \<le> Suc 0"
  by (simp add: fields_word no_space_take)

lemma fields_cut_client_random:
  assumes "no_space cr" "no_space lab" "lab \<noteq> []"
  shows "length (Fields (lab @ CHR '' '' # take n cr)) \<le> 2"
  using assms by (simp add: fields_unwords2 no_space_take)

lemma fields_cut_secret:
  assumes "no_space lab" "no_space cr" "no_space sec" "lab \<noteq> []" "cr \<noteq> []"
  shows "Fields (unwords3 lab cr (take n sec)) =
    (if take n sec = [] then [lab, cr] else [lab, cr, take n sec])"
proof (cases "take n sec = []")
  case False
  then show ?thesis using assms by (simp add: fields_unwords3 no_space_take)
next
  case True
  then show ?thesis using assms fields_unwords2_blank [of lab cr] unfolding unwords3_def True by simp
qed

text \<open>The three places a cut can fall.\<close>

lemma take_Cons_less: "m < n \<Longrightarrow> take (n - m) (x # xs) = x # take (n - Suc m) xs"
  by (simp add: Suc_diff_Suc [symmetric])

lemma take_unwords3:
  "take n (unwords3 a b c) =
     (if n \<le> length a then take n a
      else if n \<le> Suc (length a + length b) then a @ CHR '' '' # take (n - Suc (length a)) b
      else unwords3 a b (take (n - (length a + length b + 2)) c))"
  using take_Cons_less [of "length a" n "CHR '' ''"] take_Cons_less [of "Suc (length a + length b)" n "CHR '' ''"]
  by (auto simp: unwords3_def)

lemma cut_line_accepted_iff:
  assumes "line_parts l cr sec" "n < length (nss_line l cr sec)"
  shows "ValidateLine (take n (nss_line l cr sec)) = None \<longleftrightarrow>
    l \<noteq> LabelClientRandom \<and> length sec = 96 \<and> n + 32 = length (nss_line l cr sec)"
proof -
  let ?a = "labelName l" and ?k = "n - (length (labelName l) + length cr + 2)"
  note ns = line_parts_words [OF assms(1)]
  have len: "length (nss_line l cr sec) = length ?a + length cr + length sec + 2"
    by (simp add: nss_line_def unwords3_def)
  have sec: "length sec = 96 \<or> (length sec = 64 \<and> l \<noteq> LabelClientRandom)" and crl: "length cr = 64"
    using assms(1) by (auto simp: line_parts_def secret_digits_def)
  consider (label) "n \<le> length ?a" | (client_random) "length ?a < n" "n \<le> Suc (length ?a + length cr)"
    | (secret) "Suc (length ?a + length cr) < n" by linarith
  then show ?thesis
  proof cases
    case label
    then have "length (Fields (take n (nss_line l cr sec))) \<le> 1"
      by (simp add: nss_line_def take_unwords3 fields_take_word no_space_labelName)
    then show ?thesis
      using label len crl sec by (auto simp: ValidateLine_def Let_def)
  next
    case client_random
    then have "length (Fields (take n (nss_line l cr sec))) \<le> 2"
      using fields_cut_client_random [of cr ?a] ns
      by (simp add: nss_line_def take_unwords3 no_space_labelName labelName_not_Nil)
    then show ?thesis
      using client_random len crl sec by (auto simp: ValidateLine_def Let_def)
  next
    case secret
    have f: "Fields (take n (nss_line l cr sec)) =
        (if take ?k sec = [] then [?a, cr] else [?a, cr, take ?k sec])"
      using secret fields_cut_secret [of ?a cr sec ?k] ns
      by (simp add: nss_line_def take_unwords3 no_space_labelName labelName_not_Nil)
    have k: "length (take ?k sec) = ?k" "?k < length sec"
      using assms(2) len secret by auto
    have "ValidateLine (take n (nss_line l cr sec)) = None \<longleftrightarrow>
        take ?k sec \<noteq> [] \<and> secret_digits l ?k"
      using f k(1) assms(1)
      by (auto simp: ValidateLine_fields line_parts_def labelName_inject is_hex_take)
    then show ?thesis
      using k sec secret len crl by (auto simp: secret_digits_def)
  qed
qed

section \<open>The lines of OpenSSL\<close>

text \<open>
  Every line OpenSSL logs is a label and two hexadecimal words, separated by single spaces. The
  labels need not be known here: it also has \<^verbatim>\<open>RSA\<close>, \<^verbatim>\<open>CLIENT_EARLY_TRAFFIC_SECRET\<close> and
  \<^verbatim>\<open>EARLY_EXPORTER_SECRET\<close>; a line of a known one is well formed.
\<close>

definition openssl_line :: "string \<Rightarrow> bool" where
  "openssl_line line \<longleftrightarrow>
     (\<exists>name par sec. line = unwords3 name par sec \<and> no_space name \<and> name \<noteq> []
        \<and> is_hex par \<and> par \<noteq> [] \<and> is_hex sec \<and> sec \<noteq> [] \<and> length line < max_scan_token_size
        \<and> (\<forall>l. name = labelName l \<longrightarrow> line_parts l par sec))"

lemma no_space_no_newline: "no_space w \<Longrightarrow> newline \<notin> set w \<and> carriage_return \<notin> set w"
  by (auto simp: no_space_def is_space_def)

lemma openssl_line_plain:
  assumes "openssl_line line"
  shows "newline \<notin> set line" "carriage_return \<notin> set line" "length line < max_scan_token_size"
proof -
  obtain name par sec where line: "line = unwords3 name par sec" "no_space name" "is_hex par" "is_hex sec"
      "length line < max_scan_token_size"
    using assms by (auto simp: openssl_line_def)
  then show "newline \<notin> set line" "carriage_return \<notin> set line" "length line < max_scan_token_size"
    using no_space_no_newline [of name] no_space_no_newline [of par] no_space_no_newline [of sec]
    by (auto simp: unwords3_def is_hex_no_space)
qed

lemma nss_line_openssl:
  assumes "line_parts l cr sec"
  shows "openssl_line (nss_line l cr sec)"
proof -
  have "length (labelName l) \<le> 31" by (cases l) simp_all
  moreover have "length cr = 64" "length sec \<le> 96" using assms by (auto simp: line_parts_def secret_digits_def)
  ultimately have "length (nss_line l cr sec) < max_scan_token_size"
    by (simp add: nss_line_def unwords3_def max_scan_token_size_def)
  then show ?thesis
    using assms line_parts_words [OF assms] no_space_labelName [of l] labelName_not_Nil [of l] unfolding openssl_line_def
    by (intro exI [of _ "labelName l"] exI [of _ cr] exI [of _ sec]) (auto simp: nss_line_def labelName_inject line_parts_def)
qed

text \<open>What is left of a line with an unknown label is refused like the line.\<close>

lemma cut_unknown_refused:
  assumes "no_space name" "name \<noteq> []" "is_hex par" "par \<noteq> []" "is_hex sec" "name \<notin> range labelName"
  shows "ValidateLine (take n (unwords3 name par sec)) \<noteq> None"
proof -
  have ns: "no_space par" "no_space sec" using assms(3,5) by (simp_all add: is_hex_no_space)
  let ?q = "take n (unwords3 name par sec)"
  consider "n \<le> length name" | "length name < n" "n \<le> Suc (length name + length par)" | "Suc (length name + length par) < n"
    by linarith
  then have "length (Fields ?q) \<le> 2 \<or> (\<exists>rest. Fields ?q = name # rest)"
  proof cases
    case 1
    then show ?thesis using fields_take_word [OF assms(1), of n] by (simp add: take_unwords3)
  next
    case 2
    then show ?thesis using fields_cut_client_random [OF ns(1) assms(1,2)] by (simp add: take_unwords3)
  next
    case 3
    then show ?thesis using fields_cut_secret [OF assms(1) ns assms(2,4)] by (simp add: take_unwords3)
  qed
  then show ?thesis using assms(6) by (auto simp: ValidateLine_fields)
qed

section \<open>Properties\<close>

text \<open>
  C32: the language of accepted keylog lines. A line is accepted exactly when its
  whitespace-separated fields are one of the six known labels, 64 hexadecimal digits and a secret of
  96 hexadecimal digits, or of 64 for the TLS 1.3 labels. A line with another label is refused
  as such, whatever its other two fields: among them the RSA and early-data lines OpenSSL has too.
\<close>

theorem validate_line_language:
  "(ValidateLine line = None \<longleftrightarrow>
     (\<exists>l cr sec. Fields line = [labelName l, cr, sec] \<and> is_hex cr \<and> length cr = 64 \<and> is_hex sec
        \<and> (length sec = 96 \<or> length sec = 64 \<and> l \<noteq> LabelClientRandom)))
   \<and> (Fields line = [name, cr, sec] \<and> name \<notin> range labelName \<longrightarrow> ValidateLine line = Some (UnknownLabel name))"
  using ValidateLine_fields [of line] ValidateLine_unknown [of line name cr sec]
  by (simp add: line_parts_def secret_digits_def)

lemma sample_parts: "line_parts LabelClientTrafficSecret0 (replicate 64 CHR ''0'') (replicate 96 CHR ''a'')"
  by (simp add: line_parts_def secret_digits_def is_hex_def hex_digit_def)

lemma validate_line_language_witness:
  "ValidateLine (nss_line LabelClientTrafficSecret0 (replicate 64 CHR ''0'') (replicate 96 CHR ''a'')) = None
   \<and> ValidateLine (unwords3 ''RSA'' ''0123abcd'' ''00'') = Some (UnknownLabel ''RSA'')"
proof
  let ?line = "nss_line LabelClientTrafficSecret0 (replicate 64 CHR ''0'') (replicate 96 CHR ''a'')"
  show "ValidateLine ?line = None"
    by (rule iffD2 [OF conjunct1 [OF validate_line_language [of ?line]]], intro exI conjI, rule fields_nss_line [OF sample_parts])
      (use sample_parts in \<open>simp_all add: line_parts_def\<close>)
  have "Fields (unwords3 ''RSA'' ''0123abcd'' ''00'') = [''RSA'', ''0123abcd'', ''00'']"
    by (rule fields_unwords3) (simp_all add: is_space_def)
  moreover have "''RSA'' \<noteq> labelName l" for l by (cases l) simp_all
  then have "''RSA'' \<notin> range labelName" by blast
  ultimately show "ValidateLine (unwords3 ''RSA'' ''0123abcd'' ''00'') = Some (UnknownLabel ''RSA'')"
    by (intro mp [OF conjunct2 [OF validate_line_language]] conjI)
qed

text \<open>
  C33: truncated lines. A well-formed line cut short anywhere is rejected, with one exception:
  a TLS 1.3 line whose 96-digit secret is cut after exactly 64 digits is accepted, as a
  line with a different, wrong secret.
\<close>

theorem truncated_line_accepted_iff:
  assumes "line_parts l cr sec" "n < length (nss_line l cr sec)"
  shows "ValidateLine (take n (nss_line l cr sec)) = None \<longleftrightarrow>
    l \<noteq> LabelClientRandom \<and> length sec = 96 \<and> n + 32 = length (nss_line l cr sec)"
  by (rule cut_line_accepted_iff [OF assms])

lemma truncated_line_accepted_iff_witness:
  "ValidateLine (take 153 (nss_line LabelClientTrafficSecret0 (replicate 64 CHR ''0'') (replicate 96 CHR ''a''))) = None"
  using truncated_line_accepted_iff [OF sample_parts, of 153] by (simp add: nss_line_def unwords3_def)

end
