(* ===== verification/Keylog_Writer.thy ===== *)
theory Keylog_Writer
  imports Nss
begin

text \<open>
  \<^verbatim>\<open>internal/keylog/writer.go\<close>: the keylog file. \<open>Append\<close> is the one operation that
  changes it; it runs under the writer's mutex, so the model's operations are atomic and
  concurrent callers are sequences of them. The sink the writer feeds (the capture) and
  the gate it asks (whether capture is active) are an interface, stated as a locale with
  what the keylog relies on.
\<close>

section \<open>State and operations\<close>

record klog =
  kfile :: string \<comment> \<open>the bytes of the file behind \<^verbatim>\<open>f\<close>\<close>
  seen :: "string set"
  has_sink :: bool
  has_gate :: bool

text \<open>What \<^verbatim>\<open>f.WriteString\<close> did: all of it, or an error after some bytes.\<close>

datatype write_result = WriteOk | WriteFail nat errno

datatype append_error = Malformed malformed | WriteError errno

datatype klog_action = FileWrite string | SinkCall string

definition WithSink :: "bool \<Rightarrow> klog \<Rightarrow> klog" where
  "WithSink sink w = w\<lparr>has_sink := sink\<rparr>"

definition WithGate :: "bool \<Rightarrow> klog \<Rightarrow> klog" where
  "WithGate gate w = w\<lparr>has_gate := gate\<rparr>"

text \<open>\<open>content\<close>: what the file at the path already holds; the file is opened for append.\<close>

definition NewKeylogWriter ::
  "errno option \<Rightarrow> errno option \<Rightarrow> string \<Rightarrow> (klog \<Rightarrow> klog) list \<Rightarrow> errno + klog" where
  "NewKeylogWriter mkdir_err open_err content opts =
     (case mkdir_err of Some e \<Rightarrow> Inl e
      | None \<Rightarrow> (case open_err of Some e \<Rightarrow> Inl e
        | None \<Rightarrow> Inr (fold (\<lambda>opt w. opt w) opts
            \<lparr>kfile = content, seen = {}, has_sink = False, has_gate = False\<rparr>)))"

definition dedup_key :: "string list \<Rightarrow> string" where
  "dedup_key fs = fs ! 0 @ ''|'' @ fs ! 1 @ ''|'' @ fs ! 2"

text \<open>\<open>gate\<close> is what the gate answers, if there is one.\<close>

definition Append :: "bool \<Rightarrow> write_result \<Rightarrow> klog \<Rightarrow> string \<Rightarrow> append_error option \<times> klog \<times> klog_action list" where
  "Append gate wr w line =
     (case ValidateLine line of
        Some m \<Rightarrow> (Some (Malformed m), w, [])
      | None \<Rightarrow>
          let key = dedup_key (Fields line) in
          if has_gate w \<and> \<not> gate then (None, w, [])
          else if key \<in> seen w then (None, w, [])
          else let out = line @ [newline] in
            (case wr of
               WriteFail n e \<Rightarrow> (Some (WriteError e), w\<lparr>kfile := kfile w @ take n out\<rparr>, [FileWrite out])
             | WriteOk \<Rightarrow>
                 (None, w\<lparr>kfile := kfile w @ out, seen := insert key (seen w)\<rparr>,
                  FileWrite out # (if has_sink w then [SinkCall line] else []))))"

section \<open>The file holds lines\<close>

definition line_key :: "string \<Rightarrow> string" where
  "line_key line = dedup_key (Fields line)"

text \<open>
  The file is what it held when opened followed by \<open>ls\<close>, one line each; every one is
  well formed and holds no newline of its own, no two carry the same triple, and
  \<open>seen\<close> is exactly the triples written.
\<close>

definition holds_lines :: "string \<Rightarrow> string list \<Rightarrow> klog \<Rightarrow> bool" where
  "holds_lines old ls w \<longleftrightarrow>
     kfile w = old @ unlines ls \<and> seen w = line_key ` set ls \<and> distinct (map line_key ls)
     \<and> (\<forall>l \<in> set ls. ValidateLine l = None \<and> newline \<notin> set l)"

lemma holds_lines_new:
  "NewKeylogWriter None None old [WithSink s, WithGate g] = Inr w \<Longrightarrow> holds_lines old [] w"
  by (auto simp: NewKeylogWriter_def holds_lines_def WithSink_def WithGate_def)

lemma Append_unchanged:
  "ValidateLine line \<noteq> None \<or> (has_gate w \<and> \<not> gate) \<or> line_key line \<in> seen w \<Longrightarrow>
   snd (Append gate wr w line) = (w, [])"
  by (auto simp: Append_def line_key_def Let_def split: option.splits)

lemma Append_written:
  assumes "ValidateLine line = None" "has_gate w \<longrightarrow> gate" "line_key line \<notin> seen w"
  shows "Append gate WriteOk w line =
    (None, w\<lparr>kfile := kfile w @ line @ [newline], seen := insert (line_key line) (seen w)\<rparr>,
     FileWrite (line @ [newline]) # (if has_sink w then [SinkCall line] else []))"
  using assms by (auto simp: Append_def line_key_def Let_def)

text \<open>
  A write that fails part of the way leaves what it wrote, without a newline: the next line is
  appended to it, and the file then holds neither line.
\<close>

lemma torn_write_joins_next_line:
  assumes "ValidateLine l = None" "ValidateLine l' = None" "line_key l \<notin> seen w" "line_key l' \<notin> seen w" "n \<le> length l"
  shows "kfile (fst (snd (Append True WriteOk (fst (snd (Append True (WriteFail n e) w l))) l'))) = kfile w @ take n l @ l' @ [newline]"
  using assms by (simp add: Append_def line_key_def Let_def)

lemma Append_config [keeps]:
  "has_sink (fst (snd (Append gate wr w line))) = has_sink w"
  "has_gate (fst (snd (Append gate wr w line))) = has_gate w"
  by (auto simp: Append_def Let_def split: option.splits write_result.splits)

lemma holds_lines_snoc:
  "holds_lines old ls w \<Longrightarrow> ValidateLine line = None \<Longrightarrow> newline \<notin> set line \<Longrightarrow> line_key line \<notin> seen w \<Longrightarrow>
   holds_lines old (ls @ [line]) (w\<lparr>kfile := kfile w @ line @ [newline], seen := insert (line_key line) (seen w)\<rparr>)"
  by (auto simp: holds_lines_def)

text \<open>One append either leaves the file alone or adds exactly its line.\<close>

lemma Append_cases:
  obtains (same) "snd (Append gate WriteOk w line) = (w, [])"
      "ValidateLine line \<noteq> None \<or> (has_gate w \<and> \<not> gate) \<or> line_key line \<in> seen w"
    | (added) "ValidateLine line = None" "has_gate w \<longrightarrow> gate" "line_key line \<notin> seen w"
      "Append gate WriteOk w line =
        (None, w\<lparr>kfile := kfile w @ line @ [newline], seen := insert (line_key line) (seen w)\<rparr>,
         FileWrite (line @ [newline]) # (if has_sink w then [SinkCall line] else []))"
proof (cases "ValidateLine line \<noteq> None \<or> (has_gate w \<and> \<not> gate) \<or> line_key line \<in> seen w")
  case True
  show thesis by (rule same [OF Append_unchanged [OF True] True])
next
  case False
  then have "ValidateLine line = None" "has_gate w \<longrightarrow> gate" "line_key line \<notin> seen w" by auto
  then show thesis using added Append_written by blast
qed

lemma Append_holds_lines [preserves]:
  assumes "holds_lines old ls w" "newline \<notin> set line"
  shows "\<exists>new. holds_lines old (ls @ new) (fst (snd (Append gate WriteOk w line)))
    \<and> set new \<subseteq> {line}"
proof (rule Append_cases [where gate = gate and w = w and line = line])
  assume "snd (Append gate WriteOk w line) = (w, [])"
  then show ?thesis using assms by (intro exI [of _ "[]"]) simp
next
  assume "ValidateLine line = None" "line_key line \<notin> seen w"
    and app: "Append gate WriteOk w line =
      (None, w\<lparr>kfile := kfile w @ line @ [newline], seen := insert (line_key line) (seen w)\<rparr>,
       FileWrite (line @ [newline]) # (if has_sink w then [SinkCall line] else []))"
  then show ?thesis using assms holds_lines_snoc [OF assms(1)] by (intro exI [of _ "[line]"]) simp
qed

lemma valid_not_Nil: "ValidateLine line = None \<Longrightarrow> line \<noteq> []"
  by (auto simp: ValidateLine_def Fields_def)

text \<open>A file of lines reads back as those lines.\<close>

lemma split_unlines:
  assumes "\<forall>l \<in> set ls. newline \<notin> set l" "\<forall>l \<in> set ms. newline \<notin> set l"
    "unlines ls = unlines ms"
  shows "ls = ms"
  using assms
proof (induction ls arbitrary: ms)
  case Nil
  then show ?case by (cases ms) auto
next
  case (Cons l ls)
  then obtain m ms' where ms: "ms = m # ms'" by (cases ms) auto
  have "takeWhile (\<lambda>c. c \<noteq> newline) (l @ newline # unlines ls) = l"
    "takeWhile (\<lambda>c. c \<noteq> newline) (m @ newline # unlines ms') = m"
    using Cons.prems(1,2) ms by (simp_all add: takeWhile_stop)
  with Cons.prems(3) ms have "l = m" by simp
  then show ?case using Cons.IH [of ms'] Cons.prems ms by simp
qed

section \<open>The keylog and what it feeds\<close>

text \<open>
  What the keylog relies on of its sink: while it is active it takes every line handed
  over, a line it does not take leaves it inactive, whatever else happens to it loses no
  line, and once inactive it stays so.
\<close>

locale key_sink =
  fixes active :: "'s \<Rightarrow> bool"
    and sink :: "string \<Rightarrow> 's \<Rightarrow> 's"
    and other :: "'s \<Rightarrow> 's \<Rightarrow> bool"
    and kept :: "'s \<Rightarrow> string list"
  assumes sink_taken: "line \<noteq> [] \<Longrightarrow> active (sink line s) \<Longrightarrow> active s \<and> kept (sink line s) = kept s @ [line]"
    and sink_refused: "line \<noteq> [] \<Longrightarrow> \<not> active (sink line s) \<Longrightarrow> kept (sink line s) = kept s"
    and other_kept: "other s t \<Longrightarrow> kept t = kept s"
    and other_active: "other s t \<Longrightarrow> active t \<Longrightarrow> active s"
begin

lemma others_kept: "other\<^sup>*\<^sup>* s t \<Longrightarrow> kept t = kept s"
  by (induction rule: rtranclp_induct) (auto dest: other_kept)

lemma others_active: "other\<^sup>*\<^sup>* s t \<Longrightarrow> active t \<Longrightarrow> active s"
  by (induction rule: rtranclp_induct) (auto dest: other_active)

end

text \<open>
  The keylog and its sink side by side. The gate is asked when \<open>Append\<close> starts; until it
  calls the sink, other operations of the sink (packets, retention, drains) may run.
\<close>

inductive key_step ::
  "('s \<Rightarrow> bool) \<Rightarrow> (string \<Rightarrow> 's \<Rightarrow> 's) \<Rightarrow> ('s \<Rightarrow> 's \<Rightarrow> bool) \<Rightarrow> klog \<times> 's \<Rightarrow> string option \<Rightarrow> klog \<times> 's \<Rightarrow> bool"
  for active sink other where
  line: "Append (active s) WriteOk w line = (err, w', acts) \<Longrightarrow> other\<^sup>*\<^sup>* s s1 \<Longrightarrow>
    s' = (if SinkCall line \<in> set acts then sink line s1 else s1) \<Longrightarrow>
    key_step active sink other (w, s) (Some line) (w', s')"
| environment: "other s t \<Longrightarrow> key_step active sink other (w, s) None (w, t)"

text \<open>
  The keylog holds what its sink holds, and at most one line more: the one during whose
  append the sink went inactive.
\<close>

definition keys_agree :: "('s \<Rightarrow> bool) \<Rightarrow> ('s \<Rightarrow> string list) \<Rightarrow> string \<Rightarrow> klog \<times> 's \<Rightarrow> bool" where
  "keys_agree active kept old ws \<longleftrightarrow>
     has_sink (fst ws) \<and> has_gate (fst ws) \<and>
     (\<exists>extra. holds_lines old (kept (snd ws) @ extra) (fst ws)
        \<and> (extra = [] \<or> (length extra = 1 \<and> \<not> active (snd ws))))"

lemma keys_agreeI:
  "has_sink w \<Longrightarrow> has_gate w \<Longrightarrow> holds_lines old (kept s @ extra) w \<Longrightarrow>
   extra = [] \<or> (length extra = 1 \<and> \<not> active s) \<Longrightarrow> keys_agree active kept old (w, s)"
  by (auto simp: keys_agree_def)

lemma keys_agreeE:
  assumes "keys_agree active kept old (w, s)"
  obtains extra where "has_sink w" "has_gate w" "holds_lines old (kept s @ extra) w"
    "extra = [] \<or> (length extra = 1 \<and> \<not> active s)"
  using assms by (auto simp: keys_agree_def)

context key_sink
begin

lemma key_step_line_agrees:
  assumes agree: "keys_agree active kept old (w, s)"
    and app: "Append (active s) WriteOk w line = (err, w', acts)"
    and oth: "other\<^sup>*\<^sup>* s s1" and nl: "newline \<notin> set line"
    and s': "s' = (if SinkCall line \<in> set acts then sink line s1 else s1)"
  shows "keys_agree active kept old (w', s')"
proof -
  obtain extra where cfg: "has_sink w" "has_gate w" and hl: "holds_lines old (kept s @ extra) w"
    and ex: "extra = [] \<or> (length extra = 1 \<and> \<not> active s)"
    by (rule keys_agreeE [OF agree])
  note kept1 = others_kept [OF oth] and act1 = others_active [OF oth]
  show ?thesis
  proof (cases rule: Append_cases [where gate = "active s" and w = w and line = line])
    case same
    then have "w' = w" "s' = s1" using app s' by auto
    then show ?thesis
      using cfg hl ex kept1 act1 by (auto intro!: keys_agreeI [where extra = extra])
  next
    case added
    have act: "active s" using added(2) cfg(2) by simp
    then have e: "extra = []" using ex by auto
    have w': "w' = w\<lparr>kfile := kfile w @ line @ [newline], seen := insert (line_key line) (seen w)\<rparr>"
      and st: "s' = sink line s1"
      using app added(4) cfg(1) s' by auto
    have hl': "holds_lines old (kept s @ [line]) w'"
      using holds_lines_snoc [OF hl added(1) nl added(3)] w' e by simp
    have ne: "line \<noteq> []" by (rule valid_not_Nil [OF added(1)])
    have cfg': "has_sink w'" "has_gate w'" using w' cfg by simp_all
    show ?thesis
    proof (cases "active (sink line s1)")
      case True
      with sink_taken [OF ne True] kept1 hl' cfg' st show ?thesis
        by (auto intro!: keys_agreeI [where extra = "[]"])
    next
      case False
      with sink_refused [OF ne False] kept1 hl' cfg' st show ?thesis
        by (auto intro!: keys_agreeI [where extra = "[line]"])
    qed
  qed
qed

lemma key_step_agrees:
  assumes "key_step active sink other ws ev ws'" "keys_agree active kept old ws"
    "\<forall>line. ev = Some line \<longrightarrow> newline \<notin> set line"
  shows "keys_agree active kept old ws'"
  using assms
proof (cases rule: key_step.cases)
  case (line s w line err w' acts s1 s')
  then have "keys_agree active kept old (w', s')"
    using assms(2,3) by (intro key_step_line_agrees [of old w s line err w' acts s1]) simp_all
  then show ?thesis using line by simp
next
  case (environment s t w)
  then have "keys_agree active kept old (w, s)"
    using assms(2) by simp
  then obtain extra where "has_sink w" "has_gate w" "holds_lines old (kept s @ extra) w"
    "extra = [] \<or> (length extra = 1 \<and> \<not> active s)"
    by (rule keys_agreeE)
  with environment other_kept [of s t] other_active [of s t] show ?thesis
    by (auto intro!: keys_agreeI [where extra = extra])
qed

lemma run_keys_agree:
  assumes "run (key_step active sink other) ws evs ws'" "keys_agree active kept old ws"
    "\<forall>line. Some line \<in> set evs \<longrightarrow> newline \<notin> set line"
  shows "keys_agree active kept old ws'"
  using assms
proof (induction rule: run.induct)
  case (run_Cons s e t es u)
  have "keys_agree active kept old t"
    using key_step_agrees [OF run_Cons.hyps(1) run_Cons.prems(1)] run_Cons.prems(2) by auto
  then show ?case using run_Cons.IH run_Cons.prems(2) by auto
qed simp

end

end
