(* ===== verification/Capture_Writer.thy ===== *)
theory Capture_Writer
  imports Keylog_Writer
begin

text \<open>
  \<^verbatim>\<open>internal/capture/pcapng.go\<close>: the capture writer. Packets wait in a hold queue so
  that TLS secrets that arrive after them are still written ahead of them; every packet
  and secret is counted against a room before it is accepted, and the first one that
  does not fit stops capture for good. Each method holds the writer's mutex, so it is one
  atomic operation here, and the periodic drain, the capture goroutine, the keylog and
  the shutdown are events of one step relation that may come in any order.

  The pcapng encoder and the file behind it are not part of the repository. What the
  writer does to them is the list of calls it makes; what they answer is an argument
  \<open>io\<close>, which may depend on every call made so far.
\<close>

unbundle bit_operations_syntax

section \<open>Block sizes\<close>

definition pad4 :: "nat \<Rightarrow> int" where
  "pad4 n = i64 (int n + 3) AND NOT 3"

definition epbSize :: "nat \<Rightarrow> int" where
  "epbSize n = i64 (32 + pad4 n)"

definition dsbSize :: "nat \<Rightarrow> int" where
  "dsbSize n = i64 (20 + pad4 n)"

text \<open>The exact sizes, and that the \<^verbatim>\<open>int64\<close> computations agree with them far below
  where they would wrap.\<close>

definition pad4_bytes :: "nat \<Rightarrow> nat" where
  "pad4_bytes n = 4 * ((n + 3) div 4)"

definition epb_bytes :: "nat \<Rightarrow> nat" where
  "epb_bytes n = 32 + pad4_bytes n"

definition dsb_bytes :: "nat \<Rightarrow> nat" where
  "dsb_bytes n = 20 + pad4_bytes n"

definition small :: "nat \<Rightarrow> bool" where
  "small n \<longleftrightarrow> n < 2 ^ 61"

lemma and_not_3: "(x :: int) AND NOT 3 = 4 * (x div 4)"
proof -
  have "x AND NOT (mask 2) = push_bit 2 (drop_bit 2 x)"
  proof (rule bit_eqI)
    show "bit (x AND NOT (mask 2)) n \<longleftrightarrow> bit (push_bit 2 (drop_bit 2 x)) n" for n
      by (cases "n < 2") (auto simp: bit_simps not_less dest: le_Suc_ex)
  qed
  moreover have "mask 2 = (3 :: int)" by (simp add: mask_eq_exp_minus_1)
  ultimately have "x AND NOT 3 = push_bit 2 (drop_bit 2 x)" by metis
  then show ?thesis
    by (simp add: push_bit_eq_mult drop_bit_eq_div)
qed

lemma pad4_small: "small n \<Longrightarrow> pad4 n = int (pad4_bytes n)"
  unfolding pad4_def and_not_3 by (simp add: i64_id small_def pad4_bytes_def zdiv_int)

lemma pad4_bytes_le: "n \<le> pad4_bytes n" "pad4_bytes n \<le> n + 3"
  by (simp_all add: pad4_bytes_def)

lemma small_pad4: "small n \<Longrightarrow> pad4_bytes n < 2 ^ 61 + 3"
  using pad4_bytes_le(2) [of n] by (simp add: small_def)

lemma epbSize_small: "small n \<Longrightarrow> epbSize n = int (epb_bytes n)"
  using small_pad4 [of n] by (simp add: epbSize_def pad4_small i64_id epb_bytes_def)

lemma dsbSize_small: "small n \<Longrightarrow> dsbSize n = int (dsb_bytes n)"
  using small_pad4 [of n] by (simp add: dsbSize_def pad4_small i64_id dsb_bytes_def)

lemma epb_bytes_bound: "small n \<Longrightarrow> epb_bytes n < 2 ^ 62"
  using small_pad4 [of n] by (simp add: epb_bytes_def)

lemma dsb_bytes_bound: "small n \<Longrightarrow> dsb_bytes n < 2 ^ 62"
  using small_pad4 [of n] by (simp add: dsb_bytes_def)

section \<open>Data\<close>

text \<open>\<^verbatim>\<open>gopacket.CaptureInfo\<close>, as far as the writer touches it.\<close>

record capture_info =
  Timestamp :: time
  CaptureLength :: int
  Length :: int
  InterfaceIndex :: int

record held_packet =
  hp_ci :: capture_info
  hp_data :: string
  hp_at :: time

text \<open>The payload of a Decryption Secrets Block: newline-terminated lines.\<close>

definition secretsPayload :: "string list \<Rightarrow> string" where
  "secretsPayload ls = join ls [newline] @ [newline]"

text \<open>The calls on the encoder and the file. \<open>NgDSB ls\<close> is
  \<^verbatim>\<open>WriteDecryptionSecretsBlock\<close> with the payload of the lines \<open>ls\<close>.\<close>

datatype ng_call =
    NgNewWriter nat \<comment> \<open>the link type\<close>
  | NgDSB "string list"
  | NgEPB capture_info string
  | NgFlush
  | FileClose

type_synonym ng_io = "ng_call list \<Rightarrow> nat option"

record stop_info =
  stop_path :: string
  stop_bytes :: int
  stop_room :: int

record cwriter =
  w_path :: string
  calls :: "ng_call list"
  held :: "held_packet list"
  heldBytes :: int
  pending :: "string list"
  limited :: bool
  room :: int
  admitted :: int
  onStop :: bool \<comment> \<open>whether a callback is set\<close>
  stopped :: bool
  closed :: bool
  closeErr :: "nat option"
  stop_signalled :: bool \<comment> \<open>the channel \<^verbatim>\<open>stop\<close> is closed\<close>
  drained :: bool \<comment> \<open>the periodic drain has exited\<close>

datatype capture_state = StateActive | StateStoppedMaxBytes | StateNotStartedMaxBytes

primrec state_string :: "capture_state \<Rightarrow> string" where
  "state_string StateActive = ''active''"
| "state_string StateStoppedMaxBytes = ''stopped_max_bytes''"
| "state_string StateNotStartedMaxBytes = ''not_started_max_bytes''"

text \<open>
  \<^verbatim>\<open>Options\<close>, less its clock: every operation that reads the clock takes its reading.
\<close>

record options =
  LinkType :: nat
  Room :: int
  OnStop :: bool

definition linkType :: "options \<Rightarrow> nat" where
  "linkType opts = (if LinkType opts = 0 then 1 else LinkType opts)" \<comment> \<open>\<^verbatim>\<open>LinkTypeEthernet\<close>\<close>

text \<open>\<open>hdr lt\<close>: the bytes the encoder writes for a new section of link type \<open>lt\<close>.\<close>

definition HeaderSize :: "(nat \<Rightarrow> nat) \<Rightarrow> options \<Rightarrow> int" where
  "HeaderSize hdr opts = int (hdr (linkType opts))"

text \<open>The writer \<^verbatim>\<open>NewWriter\<close> returns once the file is created and its header flushed.\<close>

definition new_writer :: "(nat \<Rightarrow> nat) \<Rightarrow> string \<Rightarrow> options \<Rightarrow> cwriter" where
  "new_writer hdr path opts =
     \<lparr>w_path = path, calls = [NgNewWriter (linkType opts), NgFlush], held = [], heldBytes = 0, pending = [],
      limited = (Room opts > 0), room = Room opts, admitted = HeaderSize hdr opts, onStop = OnStop opts,
      stopped = False, closed = False, closeErr = None, stop_signalled = False, drained = False\<rparr>"

definition flushInterval :: duration where "flushInterval = 200000000"
definition holdWindow :: duration where "holdWindow = 1000000000"
definition maxHeldBytes :: int where "maxHeldBytes = 32 * 2 ^ 20"
definition MaxCaptureLength :: nat where "MaxCaptureLength = 65536"

section \<open>Operations\<close>

definition State :: "cwriter \<Rightarrow> capture_state" where
  "State w = (if stopped w then StateStoppedMaxBytes else StateActive)"

definition SetRoom :: "int \<Rightarrow> cwriter \<Rightarrow> cwriter" where
  "SetRoom r w = (if limited w then w\<lparr>room := r\<rparr> else w)"

definition admit :: "int \<Rightarrow> cwriter \<Rightarrow> bool \<times> stop_info option \<times> cwriter" where
  "admit n w =
     (if stopped w then (False, None, w)
      else if limited w \<and> room w < i64 (admitted w + n) then
        (False, Some \<lparr>stop_path = w_path w, stop_bytes = admitted w, stop_room = room w\<rparr>, w\<lparr>stopped := True\<rparr>)
      else (True, None, w\<lparr>admitted := i64 (admitted w + n)\<rparr>))"

definition notifyStop :: "stop_info option \<Rightarrow> cwriter \<Rightarrow> stop_info list" where
  "notifyStop s w = (case s of Some x \<Rightarrow> if onStop w then [x] else [] | None \<Rightarrow> [])"

definition ng_do :: "ng_io \<Rightarrow> ng_call \<Rightarrow> cwriter \<Rightarrow> nat option \<times> cwriter" where
  "ng_do io c w = (io (calls w @ [c]), w\<lparr>calls := calls w @ [c]\<rparr>)"

fun write_packets :: "ng_io \<Rightarrow> held_packet list \<Rightarrow> cwriter \<Rightarrow> nat list \<times> cwriter" where
  "write_packets io [] w = ([], w)"
| "write_packets io (p # ps) w =
     (let (e, w1) = ng_do io (NgEPB (hp_ci p) (hp_data p)) w;
          (es, w2) = write_packets io ps (w1\<lparr>heldBytes := heldBytes w1 - int (length (hp_data p))\<rparr>)
      in (errors_join [e] @ es, w2))"

definition writeHeld :: "ng_io \<Rightarrow> nat \<Rightarrow> cwriter \<Rightarrow> nat list \<times> cwriter" where
  "writeHeld io n w =
     (let (e, w1) = (if pending w \<noteq> [] then
            (let (e, w') = ng_do io (NgDSB (pending w)) w in (e, w'\<lparr>pending := []\<rparr>))
          else (None, w));
          (es, w2) = write_packets io (take n (held w1)) w1
      in (errors_join [e] @ es, w2\<lparr>held := drop n (held w2)\<rparr>))"

text \<open>
  The loop that picks how many of the oldest packets to write when the queue holds more
  than \<open>maxHeldBytes\<close>; reading past the queue would panic, which is \<open>None\<close>.
\<close>

fun overflow :: "int \<Rightarrow> held_packet list \<Rightarrow> nat option" where
  "overflow h [] = (if h > maxHeldBytes then None else Some 0)"
| "overflow h (p # ps) =
     (if h > maxHeldBytes then map_option Suc (overflow (h - int (length (hp_data p))) ps) else Some 0)"

datatype write_error = ErrStopped | NgErrors "nat list" | IndexPanic

definition stamp :: "time \<Rightarrow> string \<Rightarrow> capture_info \<Rightarrow> capture_info" where
  "stamp now data ci = ci\<lparr>InterfaceIndex := 0,
     Timestamp := (if time_is_zero (Timestamp ci) then now else Timestamp ci),
     CaptureLength := (if CaptureLength ci = 0 then int (length data) else CaptureLength ci),
     Length := (if Length ci = 0 then int (length data) else Length ci)\<rparr>"

definition enqueue :: "time \<Rightarrow> capture_info \<Rightarrow> string \<Rightarrow> cwriter \<Rightarrow> cwriter" where
  "enqueue now ci data w =
     w\<lparr>held := held w @ [\<lparr>hp_ci = stamp now data ci, hp_data = data, hp_at = now\<rparr>],
       heldBytes := heldBytes w + int (length data)\<rparr>"

definition WritePacket ::
  "ng_io \<Rightarrow> time \<Rightarrow> capture_info \<Rightarrow> string \<Rightarrow> cwriter \<Rightarrow> write_error option \<times> cwriter \<times> stop_info list" where
  "WritePacket io now ci data w =
     (let (ok, stop, w1) = admit (epbSize (length data)) w in
      if \<not> ok then (Some ErrStopped, w1, notifyStop stop w1)
      else let w2 = enqueue now ci data w1 in
        (case overflow (heldBytes w2) (held w2) of
           None \<Rightarrow> (Some IndexPanic, w2, [])
         | Some n \<Rightarrow>
             if n = 0 then (None, w2, [])
             else let (es, w3) = writeHeld io n w2
                  in (if es = [] then None else Some (NgErrors es), w3, [])))"

definition AddSecret :: "string \<Rightarrow> cwriter \<Rightarrow> cwriter \<times> stop_info list" where
  "AddSecret line w =
     (if line = [] then (w, [])
      else let (ok, stop, w1) = admit (dsbSize (length line + 1)) w;
               w2 = (if ok then w1\<lparr>pending := pending w1 @ [line]\<rparr> else w1)
           in (w2, notifyStop stop w2))"

definition drain :: "ng_io \<Rightarrow> time \<Rightarrow> cwriter \<Rightarrow> nat list \<times> cwriter" where
  "drain io now w =
     (let cutoff = now - holdWindow;
          n = length (takeWhile (\<lambda>p. hp_at p \<le> cutoff) (held w));
          (es, w1) = writeHeld io n w;
          (e, w2) = ng_do io NgFlush w1
      in (es @ errors_join [e], w2))"

definition closeFile :: "ng_io \<Rightarrow> cwriter \<Rightarrow> nat option \<times> cwriter" where
  "closeFile io w =
     (let (e, w1) = ng_do io NgFlush w in
      case e of
        Some x \<Rightarrow> (Some x, snd (ng_do io FileClose w1))
      | None \<Rightarrow> ng_do io FileClose w1)"

text \<open>One turn of the periodic drain's loop on a tick.\<close>

definition drain_tick :: "ng_io \<Rightarrow> time \<Rightarrow> cwriter \<Rightarrow> cwriter" where
  "drain_tick io now w =
     (let w1 = snd (drain io now w);
          w2 = (if stopped w1 \<and> held w1 = [] \<and> pending w1 = [] then
                  (let (e, w') = closeFile io w1 in w'\<lparr>closeErr := e, closed := True\<rparr>)
                else w1)
      in if closed w2 then w2\<lparr>drained := True\<rparr> else w2)"

text \<open>\<open>Close\<close> after the drain has exited: the part under the lock.\<close>

definition Close :: "ng_io \<Rightarrow> cwriter \<Rightarrow> nat option \<times> cwriter" where
  "Close io w =
     (if closed w then (closeErr w, w)
      else let w1 = w\<lparr>closed := True\<rparr>;
               w2 = snd (writeHeld io (length (held w1)) w1)
           in closeFile io w2)"

section \<open>Runs\<close>

datatype wevent =
    EvPacket time capture_info string
  | EvSecret string
  | EvSetRoom int
  | EvTick time
  | EvStopSignal
  | EvDrainExit
  | EvClose

text \<open>
  A step is an event with the stop notifications it caused. Ticks happen while the drain
  runs; \<^verbatim>\<open>Close\<close> closes the stop channel, the drain exits, and only then does
  \<^verbatim>\<open>Close\<close> go on.
\<close>

inductive wstep :: "ng_io \<Rightarrow> cwriter \<Rightarrow> wevent \<times> stop_info list \<Rightarrow> cwriter \<Rightarrow> bool" for io where
  packet: "WritePacket io now ci data w = (err, w', stops) \<Longrightarrow> wstep io w (EvPacket now ci data, stops) w'"
| secret: "AddSecret line w = (w', stops) \<Longrightarrow> wstep io w (EvSecret line, stops) w'"
| set_room: "wstep io w (EvSetRoom r, []) (SetRoom r w)"
| tick: "\<not> drained w \<Longrightarrow> wstep io w (EvTick now, []) (drain_tick io now w)"
| stop_signal: "wstep io w (EvStopSignal, []) (w\<lparr>stop_signalled := True\<rparr>)"
| drain_exit: "stop_signalled w \<Longrightarrow> \<not> drained w \<Longrightarrow> wstep io w (EvDrainExit, []) (w\<lparr>drained := True\<rparr>)"
| close: "stop_signalled w \<Longrightarrow> drained w \<Longrightarrow> Close io w = (err, w') \<Longrightarrow> wstep io w (EvClose, []) w'"

inductive_cases wstep_PacketE [elim]: "wstep io w (EvPacket now ci data, stops) w'"
inductive_cases wstep_SecretE [elim]: "wstep io w (EvSecret line, stops) w'"
inductive_cases wstep_SetRoomE [elim]: "wstep io w (EvSetRoom r, stops) w'"
inductive_cases wstep_TickE [elim]: "wstep io w (EvTick now, stops) w'"
inductive_cases wstep_StopSignalE [elim]: "wstep io w (EvStopSignal, stops) w'"
inductive_cases wstep_DrainExitE [elim]: "wstep io w (EvDrainExit, stops) w'"
inductive_cases wstep_CloseE [elim]: "wstep io w (EvClose, stops) w'"

section \<open>Properties\<close>

text \<open>
  The sizes the writer counts are the sizes of the blocks. For any data a machine can
  hold, the 64-bit computations of a packet block and of a secrets block give exactly the
  block's fixed part plus the data rounded up to a multiple of four, without wrapping.
\<close>

lemma block_sizes_exact:
  assumes "n < 2 ^ 61"
  shows "epbSize n = 32 + 4 * ((int n + 3) div 4) \<and> dsbSize n = 20 + 4 * ((int n + 3) div 4)
    \<and> int n \<le> pad4 n \<and> pad4 n < int n + 4 \<and> pad4 n mod 4 = 0"
proof -
  have s: "small n" using assms by (simp add: small_def)
  have p: "pad4 n = 4 * ((int n + 3) div 4)" using pad4_small [OF s] by (simp add: pad4_bytes_def zdiv_int)
  have "int n \<le> 4 * ((int n + 3) div 4) \<and> 4 * ((int n + 3) div 4) < int n + 4" by presburger
  then show ?thesis
    using epbSize_small [OF s] dsbSize_small [OF s] p
    by (simp add: epb_bytes_def dsb_bytes_def pad4_bytes_def zdiv_int)
qed

lemma block_sizes_exact_witness: "epbSize 5 = 40 \<and> dsbSize 5 = 28"
  using block_sizes_exact [of 5] by simp

end
