(* ===== verification/Capture_Invariants.thy ===== *)
theory Capture_Invariants
  imports Capture_Writer
begin

text \<open>
  What the capture writer keeps true: the state every operation leads to in closed form,
  the specification the hold queue implements (an append-only log of packets and
  secrets), the memory and file-size bounds, the order of secrets and packets in the
  file, and the interface the keylog feeds.
\<close>

section \<open>Operations in closed form\<close>

abbreviation epb_call :: "held_packet \<Rightarrow> ng_call" where
  "epb_call p \<equiv> NgEPB (hp_ci p) (hp_data p)"

definition held_bytes :: "held_packet list \<Rightarrow> nat" where
  "held_bytes ps = sum_list (map (\<lambda>p. length (hp_data p)) ps)"

lemma held_bytes_simps [simp]: "held_bytes [] = 0"
  "held_bytes (p # ps) = length (hp_data p) + held_bytes ps"
  "held_bytes (ps @ qs) = held_bytes ps + held_bytes qs"
  by (simp_all add: held_bytes_def)

lemma held_bytes_take_drop: "held_bytes (take n ps) + held_bytes (drop n ps) = held_bytes ps"
  by (metis append_take_drop_id held_bytes_simps(3))

definition dsb_calls :: "string list \<Rightarrow> ng_call list" where
  "dsb_calls ls = (if ls = [] then [] else [NgDSB ls])"

lemma write_packets_state:
  "snd (write_packets io ps w) =
     w\<lparr>calls := calls w @ map epb_call ps, heldBytes := heldBytes w - int (held_bytes ps)\<rparr>"
  by (induction io ps w rule: write_packets.induct) (auto simp: ng_do_def split: prod.splits)

lemma writeHeld_state:
  "snd (writeHeld io n w) =
     w\<lparr>calls := calls w @ dsb_calls (pending w) @ map epb_call (take n (held w)),
       pending := [], held := drop n (held w), heldBytes := heldBytes w - int (held_bytes (take n (held w)))\<rparr>"
  by (simp add: writeHeld_def ng_do_def dsb_calls_def write_packets_state case_prod_beta Let_def)

definition due :: "time \<Rightarrow> cwriter \<Rightarrow> nat" where
  "due now w = length (takeWhile (\<lambda>p. hp_at p \<le> now - holdWindow) (held w))"

lemma take_due: "take (due now w) (held w) = takeWhile (\<lambda>p. hp_at p \<le> now - holdWindow) (held w)"
  by (simp add: due_def takeWhile_eq_take [symmetric])

lemma drain_state:
  "snd (drain io now w) =
     w\<lparr>calls := calls w @ dsb_calls (pending w) @ map epb_call (take (due now w) (held w)) @ [NgFlush],
       pending := [], held := drop (due now w) (held w),
       heldBytes := heldBytes w - int (held_bytes (take (due now w) (held w)))\<rparr>"
  by (simp add: drain_def due_def ng_do_def case_prod_beta Let_def writeHeld_state)

lemma closeFile_state: "snd (closeFile io w) = w\<lparr>calls := calls w @ [NgFlush, FileClose]\<rparr>"
  by (simp add: closeFile_def ng_do_def split: option.splits)

text \<open>A tick drains and then, once capture has stopped and nothing is left, closes the file.\<close>

lemma drain_tick_state:
  "drain_tick io now w =
     (let w1 = snd (drain io now w) in
      if stopped w1 \<and> held w1 = [] \<and> pending w1 = [] then
        w1\<lparr>calls := calls w1 @ [NgFlush, FileClose], closeErr := fst (closeFile io w1), closed := True, drained := True\<rparr>
      else if closed w1 then w1\<lparr>drained := True\<rparr> else w1)"
  by (simp add: drain_tick_def Let_def case_prod_beta closeFile_state)

lemma Close_state:
  "snd (Close io w) =
     (if closed w then w
      else w\<lparr>calls := calls w @ dsb_calls (pending w) @ map epb_call (held w) @ [NgFlush, FileClose],
             pending := [], held := [], heldBytes := heldBytes w - int (held_bytes (held w)), closed := True\<rparr>)"
  by (simp add: Close_def Let_def closeFile_state writeHeld_state)

lemma admit_cases:
  obtains (refused) "admit n w = (False, None, w)" "stopped w"
    | (stops) "admit n w = (False, Some \<lparr>stop_path = w_path w, stop_bytes = admitted w, stop_room = room w\<rparr>, w\<lparr>stopped := True\<rparr>)"
      "\<not> stopped w" "limited w" "room w < i64 (admitted w + n)"
    | (accepted) "admit n w = (True, None, w\<lparr>admitted := i64 (admitted w + n)\<rparr>)" "\<not> stopped w"
      "limited w \<longrightarrow> i64 (admitted w + n) \<le> room w"
proof -
  consider "stopped w" | "\<not> stopped w" "limited w" "room w < i64 (admitted w + n)"
    | "\<not> stopped w" "limited w \<longrightarrow> i64 (admitted w + n) \<le> room w"
    by linarith
  then show thesis
    by cases (auto intro: refused stops accepted simp: admit_def)
qed

text \<open>What an accepted packet leads to: it joins the queue, and the oldest packets over the
  memory cap are written.\<close>

lemma WritePacket_state:
  "WritePacket io now ci data w =
     (case admit (epbSize (length data)) w of
        (False, stop, w1) \<Rightarrow> (Some ErrStopped, w1, notifyStop stop w1)
      | (True, stop, w1) \<Rightarrow>
          let w2 = enqueue now ci data w1 in
          (case overflow (heldBytes w2) (held w2) of
             None \<Rightarrow> (Some IndexPanic, w2, [])
           | Some n \<Rightarrow> if n = 0 then (None, w2, [])
               else (if fst (writeHeld io n w2) = [] then None else Some (NgErrors (fst (writeHeld io n w2))),
                     snd (writeHeld io n w2), [])))"
  by (simp add: WritePacket_def Let_def case_prod_beta split: prod.splits bool.splits option.splits)

lemma AddSecret_state:
  "AddSecret line w =
     (if line = [] then (w, [])
      else case admit (dsbSize (length line + 1)) w of
        (False, stop, w1) \<Rightarrow> (w1, notifyStop stop w1)
      | (True, stop, w1) \<Rightarrow> (w1\<lparr>pending := pending w1 @ [line]\<rparr>, notifyStop stop w1))"
  by (simp add: AddSecret_def Let_def notifyStop_def split: prod.splits bool.splits option.splits)

section \<open>The specification: an append-only log\<close>

text \<open>
  Seen from outside, the writer accepts packets and secrets, in order, until one does
  not fit. The hold queue, the pending secrets and the encoder are how it does so.
\<close>

record capture_log =
  log_packets :: "(capture_info \<times> string) list"
  log_secrets :: "string list"
  log_limited :: bool
  log_room :: int
  log_admitted :: int
  log_stopped :: bool

definition packets_of :: "ng_call list \<Rightarrow> (capture_info \<times> string) list" where
  "packets_of cs = List.map_filter (\<lambda>c. case c of NgEPB ci d \<Rightarrow> Some (ci, d) | _ \<Rightarrow> None) cs"

definition secrets_of :: "ng_call list \<Rightarrow> string list" where
  "secrets_of cs = concat (List.map_filter (\<lambda>c. case c of NgDSB ls \<Rightarrow> Some ls | _ \<Rightarrow> None) cs)"

lemma packets_of_simps [simp]: "packets_of [] = []" "packets_of (cs @ ds) = packets_of cs @ packets_of ds"
  "packets_of (NgEPB ci d # cs) = (ci, d) # packets_of cs" "packets_of (NgDSB ls # cs) = packets_of cs"
  "packets_of (NgFlush # cs) = packets_of cs" "packets_of (FileClose # cs) = packets_of cs"
  "packets_of (NgNewWriter lt # cs) = packets_of cs"
  "packets_of (map epb_call ps) = map (\<lambda>p. (hp_ci p, hp_data p)) ps" "packets_of (dsb_calls ls) = []"
  by (simp_all add: packets_of_def dsb_calls_def)

lemma secrets_of_simps [simp]: "secrets_of [] = []" "secrets_of (cs @ ds) = secrets_of cs @ secrets_of ds"
  "secrets_of (NgEPB ci d # cs) = secrets_of cs" "secrets_of (NgDSB ls # cs) = ls @ secrets_of cs"
  "secrets_of (NgFlush # cs) = secrets_of cs" "secrets_of (FileClose # cs) = secrets_of cs"
  "secrets_of (NgNewWriter lt # cs) = secrets_of cs"
  "secrets_of (map epb_call ps) = []" "secrets_of (dsb_calls ls) = ls"
  by (simp_all add: secrets_of_def dsb_calls_def)

definition accepted_packets :: "cwriter \<Rightarrow> (capture_info \<times> string) list" where
  "accepted_packets w = packets_of (calls w) @ map (\<lambda>p. (hp_ci p, hp_data p)) (held w)"

definition accepted_secrets :: "cwriter \<Rightarrow> string list" where
  "accepted_secrets w = secrets_of (calls w) @ pending w"

definition log_of :: "cwriter \<Rightarrow> capture_log" where
  "log_of w = \<lparr>log_packets = accepted_packets w, log_secrets = accepted_secrets w,
     log_limited = limited w, log_room = room w, log_admitted = admitted w, log_stopped = stopped w\<rparr>"

definition log_fits :: "int \<Rightarrow> capture_log \<Rightarrow> bool" where
  "log_fits n l \<longleftrightarrow> \<not> (log_limited l \<and> log_room l < i64 (log_admitted l + n))"

definition log_admit :: "int \<Rightarrow> (capture_log \<Rightarrow> capture_log) \<Rightarrow> capture_log \<Rightarrow> capture_log" where
  "log_admit n f l =
     (if log_stopped l then l
      else if log_fits n l then f (l\<lparr>log_admitted := i64 (log_admitted l + n)\<rparr>)
      else l\<lparr>log_stopped := True\<rparr>)"

fun log_event :: "wevent \<Rightarrow> capture_log \<Rightarrow> capture_log" where
  "log_event (EvPacket now ci data) l =
     log_admit (epbSize (length data))
       (\<lambda>l. l\<lparr>log_packets := log_packets l @ [(stamp now data ci, data)]\<rparr>) l"
| "log_event (EvSecret line) l =
     (if line = [] then l
      else log_admit (dsbSize (length line + 1)) (\<lambda>l. l\<lparr>log_secrets := log_secrets l @ [line]\<rparr>) l)"
| "log_event (EvSetRoom r) l = (if log_limited l then l\<lparr>log_room := r\<rparr> else l)"
| "log_event (EvTick now) l = l"
| "log_event EvStopSignal l = l"
| "log_event EvDrainExit l = l"
| "log_event EvClose l = l"

text \<open>One stop, reported at most once: by the event that did not fit.\<close>

definition log_step :: "capture_log \<Rightarrow> wevent \<times> stop_info list \<Rightarrow> capture_log \<Rightarrow> bool" where
  "log_step l ev l' \<longleftrightarrow> l' = log_event (fst ev) l \<and>
     (snd ev = [] \<or> (length (snd ev) = 1 \<and> \<not> log_stopped l \<and> log_stopped l'))"

lemmas log_defs = log_of_def accepted_packets_def accepted_secrets_def

lemma log_of_writeHeld: "log_of (snd (writeHeld io n w)) = log_of w"
  by (simp add: log_defs writeHeld_state map_append [symmetric] del: map_append)

lemma log_of_drain_tick: "log_of (drain_tick io now w) = log_of w"
  by (simp add: drain_tick_state drain_state log_defs Let_def map_append [symmetric] del: map_append)

lemma log_of_Close: "log_of (snd (Close io w)) = log_of w"
  by (simp add: Close_state log_defs)

lemma WritePacket_log:
  assumes "WritePacket io now ci data w = (err, w', stops)"
  shows "log_step (log_of w) (EvPacket now ci data, stops) (log_of w')"
proof (cases rule: admit_cases [where n = "epbSize (length data)" and w = w])
  case refused
  then show ?thesis
    using assms by (auto simp: WritePacket_state log_step_def log_admit_def log_of_def notifyStop_def)
next
  case stops
  then show ?thesis
    using assms
    by (auto simp: WritePacket_state log_step_def log_admit_def log_fits_def log_of_def notifyStop_def
        accepted_packets_def accepted_secrets_def split: if_splits)
next
  case accepted
  let ?w2 = "enqueue now ci data (w\<lparr>admitted := i64 (admitted w + epbSize (length data))\<rparr>)"
  have "stops = [] \<and> log_of w' = log_of ?w2"
    using assms accepted(1)
    by (auto simp: WritePacket_state Let_def log_of_writeHeld split: option.splits if_splits)
  then show ?thesis
    using accepted by (auto simp: log_step_def log_admit_def log_fits_def log_defs enqueue_def)
qed

lemma AddSecret_log:
  assumes "AddSecret line w = (w', stops)"
  shows "log_step (log_of w) (EvSecret line, stops) (log_of w')"
proof (cases rule: admit_cases [where n = "dsbSize (length line + 1)" and w = w])
  case refused
  then show ?thesis
    using assms by (auto simp: AddSecret_state log_step_def log_admit_def log_of_def notifyStop_def split: if_splits)
next
  case stops
  then show ?thesis
    using assms
    by (auto simp: AddSecret_state log_step_def log_admit_def log_fits_def log_defs notifyStop_def split: if_splits)
next
  case accepted
  then show ?thesis
    using assms
    by (auto simp: AddSecret_state log_step_def log_admit_def log_fits_def log_defs notifyStop_def split: if_splits)
qed

lemma log_step_skip: "log_event ev l = l \<Longrightarrow> log_step l (ev, []) l"
  by (simp add: log_step_def)

lemma wstep_log: "wstep io w ev w' \<Longrightarrow> log_step (log_of w) ev (log_of w')"
proof (induction rule: wstep.induct)
  case (packet now ci data w err w' stops)
  then show ?case by (rule WritePacket_log)
next
  case (secret line w w' stops)
  then show ?case by (rule AddSecret_log)
next
  case (set_room w r)
  then show ?case by (auto simp: log_step_def SetRoom_def log_defs)
next
  case (close w err w')
  then show ?case using log_of_Close [of io w] by (simp add: log_step_skip)
next
  case (tick w now)
  then show ?case by (simp add: log_of_drain_tick log_step_skip)
qed (simp_all add: log_step_def log_defs)

interpretation capture: simulation "wstep io" log_step log_of for io
  by unfold_locales (rule wstep_log)

section \<open>Memory: the hold queue is bounded\<close>

definition queue_ok :: "cwriter \<Rightarrow> bool" where
  "queue_ok w \<longleftrightarrow> heldBytes w = int (held_bytes (held w)) \<and> heldBytes w \<le> maxHeldBytes"

text \<open>The loop picks a prefix of the queue, never runs past it, and leaves at most the cap.\<close>

lemma overflow_Some:
  "\<exists>n. overflow (int (held_bytes ps)) ps = Some n \<and> n \<le> length ps
     \<and> int (held_bytes (drop n ps)) \<le> maxHeldBytes"
proof (induction ps)
  case Nil
  then show ?case by (simp add: maxHeldBytes_def)
next
  case (Cons p ps)
  then obtain n where n: "overflow (int (held_bytes ps)) ps = Some n" "n \<le> length ps"
      "int (held_bytes (drop n ps)) \<le> maxHeldBytes"
    by blast
  show ?case
  proof (cases "int (held_bytes (p # ps)) > maxHeldBytes")
    case True
    then show ?thesis using n by (intro exI [of _ "Suc n"]) simp
  next
    case False
    then show ?thesis by (intro exI [of _ 0]) simp
  qed
qed

lemma overflow_zero: "overflow h ps = Some 0 \<Longrightarrow> h \<le> maxHeldBytes"
  by (cases ps) (auto split: if_splits)

lemma queue_ok_cong:
  "held w' = held w \<Longrightarrow> heldBytes w' = heldBytes w \<Longrightarrow> queue_ok w \<Longrightarrow> queue_ok w'"
  by (simp add: queue_ok_def)

lemma queue_ok_drop:
  "queue_ok w \<Longrightarrow> held w' = drop n (held w) \<Longrightarrow>
   heldBytes w' = heldBytes w - int (held_bytes (take n (held w))) \<Longrightarrow> queue_ok w'"
  using held_bytes_take_drop [of n "held w"] by (simp add: queue_ok_def)

lemma WritePacket_queue:
  assumes "queue_ok w" "WritePacket io now ci data w = (err, w', stops)"
  shows "queue_ok w' \<and> err \<noteq> Some IndexPanic"
proof (cases rule: admit_cases [where n = "epbSize (length data)" and w = w])
  case accepted
  define w2 where "w2 = enqueue now ci data (w\<lparr>admitted := i64 (admitted w + epbSize (length data))\<rparr>)"
  have hb: "heldBytes w2 = int (held_bytes (held w2))"
    using assms(1) by (simp add: w2_def enqueue_def queue_ok_def)
  obtain n where n: "overflow (heldBytes w2) (held w2) = Some n"
      "int (held_bytes (drop n (held w2))) \<le> maxHeldBytes"
    using overflow_Some [of "held w2"] hb by auto
  have wp: "WritePacket io now ci data w =
      (if n = 0 then (None, w2, [])
       else (if fst (writeHeld io n w2) = [] then None else Some (NgErrors (fst (writeHeld io n w2))),
             snd (writeHeld io n w2), []))"
    using accepted(1) n(1) by (simp add: WritePacket_state w2_def [symmetric])
  have "queue_ok (snd (writeHeld io n w2))"
    using hb n(2) held_bytes_take_drop [of n "held w2"] by (simp add: queue_ok_def writeHeld_state)
  moreover have "queue_ok w2" if "n = 0"
    using hb n that by (simp add: queue_ok_def)
  ultimately show ?thesis
    using wp assms(2) by (auto split: if_splits)
qed (use assms in \<open>auto simp: WritePacket_state queue_ok_def\<close>)

lemma AddSecret_queue: "AddSecret line w = (w', stops) \<Longrightarrow> held w' = held w \<and> heldBytes w' = heldBytes w"
  by (cases rule: admit_cases [where n = "dsbSize (length line + 1)" and w = w])
    (auto simp: AddSecret_state split: if_splits)

lemma wstep_queue: "wstep io w ev w' \<Longrightarrow> queue_ok w \<Longrightarrow> queue_ok w'"
proof (induction rule: wstep.induct)
  case (packet now ci data w err w' stops)
  then show ?case using WritePacket_queue by blast
next
  case (secret line w w' stops)
  then show ?case using AddSecret_queue [of line w w' stops] by (auto intro: queue_ok_cong)
next
  case (tick w now)
  have "queue_ok (snd (drain io now w))"
    by (rule queue_ok_drop [OF tick(2)]) (simp_all add: drain_state)
  then show ?case by (auto simp: drain_tick_state Let_def queue_ok_def)
next
  case (close w err w')
  then have w': "w' = snd (Close io w)" by simp
  have "queue_ok (snd (Close io w))"
    using close(4) by (cases "closed w") (simp_all add: Close_state queue_ok_def maxHeldBytes_def)
  then show ?case unfolding w' .
qed (auto simp: SetRoom_def queue_ok_def)

section \<open>Disk: the file never passes its room\<close>

text \<open>
  What the encoder is relied on for: a call adds to the file no more than the size of the
  block it writes, and flushing or closing adds nothing. \<open>sz\<close> gives the bytes of a call.
\<close>

definition pcapgo_sizes :: "(ng_call \<Rightarrow> nat) \<Rightarrow> bool" where
  "pcapgo_sizes sz \<longleftrightarrow>
     (\<forall>ci data. sz (NgEPB ci data) \<le> epb_bytes (length data)) \<and>
     (\<forall>ls. sz (NgDSB ls) \<le> dsb_bytes (length (secretsPayload ls))) \<and>
     sz NgFlush = 0 \<and> sz FileClose = 0"

definition file_size :: "(ng_call \<Rightarrow> nat) \<Rightarrow> cwriter \<Rightarrow> nat" where
  "file_size sz w = sum_list (map sz (calls w))"

definition queued_size :: "cwriter \<Rightarrow> nat" where
  "queued_size w = sum_list (map (\<lambda>p. epb_bytes (length (hp_data p))) (held w))
     + sum_list (map (\<lambda>l. dsb_bytes (length l + 1)) (pending w))"

text \<open>One block for several lines is no larger than one block each, which is how the lines
  were counted.\<close>

lemma pad4_bytes_add: "pad4_bytes (m + n) \<le> pad4_bytes m + pad4_bytes n"
  unfolding pad4_bytes_def by presburger

lemma pad4_bytes_sum: "pad4_bytes (sum_list ns) \<le> sum_list (map pad4_bytes ns)"
proof (induction ns)
  case Nil
  then show ?case by (simp add: pad4_bytes_def)
next
  case (Cons n ns)
  then show ?case using pad4_bytes_add [of n "sum_list ns"] by simp
qed

lemma length_secretsPayload: "ls \<noteq> [] \<Longrightarrow> length (secretsPayload ls) = sum_list (map (\<lambda>l. length l + 1) ls)"
  unfolding secretsPayload_def by (rule length_join_nl)

lemma dsb_bytes_merge:
  assumes "ls \<noteq> []"
  shows "dsb_bytes (length (secretsPayload ls)) \<le> sum_list (map (\<lambda>l. dsb_bytes (length l + 1)) ls)"
proof -
  have "sum_list (map (\<lambda>l. dsb_bytes (length l + 1)) ls)
      = 20 * length ls + sum_list (map pad4_bytes (map (\<lambda>l. length l + 1) ls))"
    by (induction ls) (simp_all add: dsb_bytes_def)
  moreover have "1 \<le> length ls" using assms by (cases ls) simp_all
  ultimately show ?thesis
    using pad4_bytes_sum [of "map (\<lambda>l. length l + 1) ls"] assms
    by (simp add: dsb_bytes_def length_secretsPayload)
qed

lemma sz_epb_calls:
  "pcapgo_sizes sz \<Longrightarrow> sum_list (map sz (map epb_call ps)) \<le> sum_list (map (\<lambda>p. epb_bytes (length (hp_data p))) ps)"
  by (induction ps) (auto simp: pcapgo_sizes_def add_mono)

lemma sz_dsb_calls:
  assumes "pcapgo_sizes sz"
  shows "sum_list (map sz (dsb_calls ls)) \<le> sum_list (map (\<lambda>l. dsb_bytes (length l + 1)) ls)"
proof (cases "ls = []")
  case False
  have "sz (NgDSB ls) \<le> dsb_bytes (length (secretsPayload ls))"
    using assms unfolding pcapgo_sizes_def by blast
  also have "\<dots> \<le> sum_list (map (\<lambda>l. dsb_bytes (length l + 1)) ls)"
    by (rule dsb_bytes_merge [OF False])
  finally show ?thesis using False by (simp add: dsb_calls_def)
qed (simp add: dsb_calls_def)

text \<open>The accounting: what is in the file and what is queued was admitted, and what was
  admitted fits the largest room \<open>R\<close> capture ever had.\<close>

definition room_ok :: "(ng_call \<Rightarrow> nat) \<Rightarrow> int \<Rightarrow> cwriter \<Rightarrow> bool" where
  "room_ok sz R w \<longleftrightarrow> limited w \<and> room w \<le> R \<and> admitted w \<le> R
     \<and> int (file_size sz w + queued_size w) \<le> admitted w"

fun event_ok :: "int \<Rightarrow> wevent \<Rightarrow> bool" where
  "event_ok R (EvPacket _ _ data) \<longleftrightarrow> small (length data)"
| "event_ok R (EvSecret line) \<longleftrightarrow> small (length line + 1)"
| "event_ok R (EvSetRoom r) \<longleftrightarrow> r \<le> R"
| "event_ok R _ \<longleftrightarrow> True"

definition bounded_step :: "ng_io \<Rightarrow> int \<Rightarrow> cwriter \<Rightarrow> wevent \<times> stop_info list \<Rightarrow> cwriter \<Rightarrow> bool" where
  "bounded_step io R w ev w' \<longleftrightarrow> wstep io w ev w' \<and> event_ok R (fst ev)"

lemma sz_quiet_calls:
  assumes "pcapgo_sizes sz" "set cs \<subseteq> {NgFlush, FileClose}"
  shows "sum_list (map sz cs) = 0"
proof -
  have "sz NgFlush = 0" "sz FileClose = 0" using assms(1) by (simp_all add: pcapgo_sizes_def)
  with assms(2) show ?thesis by (induction cs) auto
qed

text \<open>Moving what is queued into the file, then flushing or closing, keeps the accounting.\<close>

lemma room_ok_writeHeld:
  assumes "pcapgo_sizes sz" "room_ok sz R w" "set cs \<subseteq> {NgFlush, FileClose}"
    "calls w' = calls w @ dsb_calls (pending w) @ map epb_call (take n (held w)) @ cs"
    "pending w' = []" "held w' = drop n (held w)"
    "limited w' = limited w" "room w' = room w" "admitted w' = admitted w"
  shows "room_ok sz R w'"
proof -
  let ?f = "\<lambda>p. epb_bytes (length (hp_data p))"
  have split: "sum_list (map ?f (take n (held w))) + sum_list (map ?f (drop n (held w))) = sum_list (map ?f (held w))"
    by (metis append_take_drop_id map_append sum_list_append)
  have "file_size sz w' = file_size sz w + sum_list (map sz (dsb_calls (pending w)))
      + sum_list (map sz (map epb_call (take n (held w)))) + sum_list (map sz cs)"
    by (simp add: file_size_def assms(4))
  moreover have "queued_size w' = sum_list (map ?f (drop n (held w)))"
    by (simp add: queued_size_def assms(5,6))
  ultimately have "file_size sz w' + queued_size w' \<le> file_size sz w + queued_size w"
    using split sz_epb_calls [OF assms(1), of "take n (held w)"] sz_dsb_calls [OF assms(1), of "pending w"]
      sz_quiet_calls [OF assms(1,3)]
    unfolding queued_size_def by linarith
  then show ?thesis
    using assms by (auto simp: room_ok_def)
qed

lemma room_ok_flush:
  assumes "pcapgo_sizes sz" "room_ok sz R w" "set cs \<subseteq> {NgFlush, FileClose}" "calls w' = calls w @ cs"
    "held w' = held w" "pending w' = pending w" "limited w' = limited w" "room w' = room w"
    "admitted w' = admitted w"
  shows "room_ok sz R w'"
proof -
  have "file_size sz w' = file_size sz w"
    unfolding file_size_def assms(4) map_append sum_list_append sz_quiet_calls [OF assms(1,3)] by simp
  with assms show ?thesis by (simp add: room_ok_def queued_size_def)
qed

lemma room_ok_admit:
  assumes "room_ok sz R w" "R \<le> 2 ^ 62" "n < 2 ^ 62" "limited w \<longrightarrow> i64 (admitted w + int n) \<le> room w"
    "w' = w\<lparr>admitted := i64 (admitted w + int n), held := h, heldBytes := hb, pending := p\<rparr>"
    "queued_size w' = queued_size w + n"
  shows "room_ok sz R w'"
proof -
  have "0 \<le> admitted w" "admitted w \<le> R" using assms(1) by (auto simp: room_ok_def)
  then have "i64 (admitted w + int n) = admitted w + int n"
    using assms(2,3) by (intro i64_id) auto
  then show ?thesis
    using assms by (auto simp: room_ok_def file_size_def)
qed

lemma room_ok_stopped: "room_ok sz R (w\<lparr>stopped := b\<rparr>) = room_ok sz R w"
  by (simp add: room_ok_def file_size_def queued_size_def)

lemma WritePacket_room:
  assumes "pcapgo_sizes sz" "room_ok sz R w" "R \<le> 2 ^ 62" "small (length data)"
    "WritePacket io now ci data w = (err, w', stops)"
  shows "room_ok sz R w'"
proof (cases rule: admit_cases [where n = "epbSize (length data)" and w = w])
  case accepted
  define w2 where "w2 = enqueue now ci data (w\<lparr>admitted := i64 (admitted w + epbSize (length data))\<rparr>)"
  have r2: "room_ok sz R w2"
  proof (rule room_ok_admit [OF assms(2,3) epb_bytes_bound [OF assms(4)]])
    show "limited w \<longrightarrow> i64 (admitted w + int (epb_bytes (length data))) \<le> room w"
      using accepted(3) assms(4) by (simp add: epbSize_small)
    show "w2 = w\<lparr>admitted := i64 (admitted w + int (epb_bytes (length data))), held := held w2,
        heldBytes := heldBytes w2, pending := pending w\<rparr>"
      using assms(4) by (simp add: w2_def enqueue_def epbSize_small)
    show "queued_size w2 = queued_size w + epb_bytes (length data)"
      by (simp add: w2_def enqueue_def queued_size_def)
  qed
  have "room_ok sz R (snd (writeHeld io n w2))" for n
    by (rule room_ok_writeHeld [OF assms(1) r2, where cs = "[]" and n = n]) (simp_all add: writeHeld_state)
  with r2 show ?thesis
    using assms(5) accepted(1) by (auto simp: WritePacket_state w2_def [symmetric] Let_def split: option.splits if_splits)
qed (use assms in \<open>auto simp: WritePacket_state room_ok_stopped\<close>)

lemma AddSecret_room:
  assumes "room_ok sz R w" "R \<le> 2 ^ 62" "small (length line + 1)" "AddSecret line w = (w', stops)"
  shows "room_ok sz R w'"
proof (cases rule: admit_cases [where n = "dsbSize (length line + 1)" and w = w])
  case accepted
  show ?thesis
  proof (cases "line = []")
    case False
    then have w': "w' = w\<lparr>admitted := i64 (admitted w + dsbSize (length line + 1)), pending := pending w @ [line]\<rparr>"
      using assms(4) accepted(1) by (auto simp: AddSecret_state)
    show ?thesis
    proof (rule room_ok_admit [OF assms(1,2) dsb_bytes_bound [OF assms(3)]])
      show "limited w \<longrightarrow> i64 (admitted w + int (dsb_bytes (length line + 1))) \<le> room w"
        using accepted(3) dsbSize_small [OF assms(3)] by simp
      show "w' = w\<lparr>admitted := i64 (admitted w + int (dsb_bytes (length line + 1))), held := held w,
          heldBytes := heldBytes w, pending := pending w @ [line]\<rparr>"
        using dsbSize_small [OF assms(3)] w' by simp
      show "queued_size w' = queued_size w + dsb_bytes (length line + 1)"
        by (simp add: w' queued_size_def)
    qed
  qed (use assms in \<open>auto simp: AddSecret_state\<close>)
qed (use assms in \<open>auto simp: AddSecret_state room_ok_stopped split: if_splits\<close>)

lemma wstep_room:
  assumes "wstep io w ev w'" "event_ok R (fst ev)" "pcapgo_sizes sz" "R \<le> 2 ^ 62" "room_ok sz R w"
  shows "room_ok sz R w'"
  using assms
proof (induction rule: wstep.induct)
  case (packet now ci data w err w' stops)
  then show ?case using WritePacket_room [of sz R w data io now ci err w' stops] by simp
next
  case (secret line w w' stops)
  then show ?case using AddSecret_room [of sz R w line w' stops] by simp
next
  case (tick w now)
  have d: "room_ok sz R (snd (drain io now w))"
    by (rule room_ok_writeHeld [OF tick(3) tick(5), where cs = "[NgFlush]" and n = "due now w"])
      (simp_all add: drain_state)
  have "room_ok sz R (snd (drain io now w)\<lparr>calls := calls (snd (drain io now w)) @ [NgFlush, FileClose],
      closeErr := x, closed := True, drained := True\<rparr>)" for x
    by (rule room_ok_flush [OF tick(3) d, where cs = "[NgFlush, FileClose]"]) simp_all
  moreover have "room_ok sz R (snd (drain io now w)\<lparr>drained := True\<rparr>)"
    by (rule room_ok_flush [OF tick(3) d, where cs = "[]"]) simp_all
  ultimately show ?case
    using d by (simp add: drain_tick_state Let_def)
next
  case (close w err w')
  then have w': "w' = snd (Close io w)" by simp
  have "room_ok sz R (snd (Close io w))" if "\<not> closed w"
    by (rule room_ok_writeHeld [OF close(5) close(7), where cs = "[NgFlush, FileClose]" and n = "length (held w)"])
      (simp_all add: Close_state that)
  then show ?case using close(7) w' by (cases "closed w") (simp_all add: Close_state)
qed (auto simp: SetRoom_def room_ok_def file_size_def queued_size_def)

end
