(* ===== verification/Capture_Order.thy ===== *)
theory Capture_Order
  imports Capture_Invariants
begin

text \<open>
  Runs of the capture writer: the invariants of every run from \<open>new_writer\<close>, secrets
  ahead of the packets they may decrypt, the hold window, the one stop, the drain that
  closes the file, and the interface the keylog feeds.
\<close>

section \<open>Invariants of every run\<close>

definition fresh :: "(nat \<Rightarrow> nat) \<Rightarrow> cwriter \<Rightarrow> bool" where
  "fresh hdr w \<longleftrightarrow> (\<exists>path opts. w = new_writer hdr path opts)"

lemma queue_ok_new: "queue_ok (new_writer hdr path opts)"
  by (simp add: queue_ok_def new_writer_def maxHeldBytes_def)

interpretation hold_queue: invariant_system "fresh hdr" "wstep io" queue_ok for hdr io
  by unfold_locales (auto simp: fresh_def queue_ok_new intro: wstep_queue)

lemma room_ok_new:
  assumes "0 < Room opts" "Room opts \<le> R" "HeaderSize hdr opts \<le> R" "pcapgo_sizes sz"
    "sz (NgNewWriter (linkType opts)) \<le> hdr (linkType opts)"
  shows "room_ok sz R (new_writer hdr path opts)"
proof -
  have "sz NgFlush = 0" using assms(4) by (simp add: pcapgo_sizes_def)
  then show ?thesis
    using assms by (simp add: room_ok_def new_writer_def file_size_def queued_size_def HeaderSize_def)
qed

lemma run_room:
  assumes "run (bounded_step io R) w evs w'" "room_ok sz R w" "pcapgo_sizes sz" "R \<le> 2 ^ 62"
  shows "room_ok sz R w'"
  using assms
proof (induction rule: run.induct)
  case (run_Cons s e t es u)
  have "room_ok sz R t"
    using run_Cons.hyps(1) wstep_room [of io s e t R sz] run_Cons.prems by (simp add: bounded_step_def)
  then show ?case using run_Cons by blast
qed

section \<open>Secrets ahead of packets\<close>

text \<open>
  What a step adds to the calls on the encoder: nothing, while the pending lines stay
  pending; or every pending line first, in one block, whatever else it writes.
\<close>

lemma WritePacket_calls:
  assumes "WritePacket io now ci data w = (err, w', stops)"
  shows "(calls w' = calls w \<and> pending w' = pending w)
    \<or> (\<exists>tail. calls w' = calls w @ dsb_calls (pending w) @ tail)"
proof (cases rule: admit_cases [where n = "epbSize (length data)" and w = w])
  case accepted
  then show ?thesis
    using assms by (auto simp: WritePacket_state writeHeld_state enqueue_def Let_def split: option.splits if_splits)
qed (use assms in \<open>auto simp: WritePacket_state\<close>)

lemma AddSecret_calls:
  assumes "AddSecret line w = (w', stops)"
  shows "calls w' = calls w \<and> (\<exists>new. pending w' = pending w @ new)"
  by (cases rule: admit_cases [where n = "dsbSize (length line + 1)" and w = w])
    (use assms in \<open>auto simp: AddSecret_state split: if_splits\<close>)

lemma drain_tick_calls: "\<exists>tail. calls (drain_tick io now w) = calls w @ dsb_calls (pending w) @ tail"
  by (auto simp: drain_tick_state drain_state Let_def)

lemma Close_calls:
  "(calls (snd (Close io w)) = calls w \<and> pending (snd (Close io w)) = pending w)
    \<or> (\<exists>tail. calls (snd (Close io w)) = calls w @ dsb_calls (pending w) @ tail)"
  by (auto simp: Close_state)

lemma wstep_calls:
  "wstep io w ev w' \<Longrightarrow> (calls w' = calls w \<and> (\<exists>new. pending w' = pending w @ new))
    \<or> (\<exists>tail. calls w' = calls w @ dsb_calls (pending w) @ tail)"
proof (induction rule: wstep.induct)
  case (packet now ci data w err w' stops)
  from WritePacket_calls [OF this] show ?case by auto
next
  case (secret line w w' stops)
  from AddSecret_calls [OF this] show ?case by auto
next
  case (tick w now)
  then show ?case using drain_tick_calls [of io now w] by auto
next
  case (close w err w')
  then show ?case using Close_calls [of io w] by auto
qed (auto simp: SetRoom_def)

text \<open>The position of a line in what a run writes: in a block ahead of every packet.\<close>

definition ahead_of_packets :: "string \<Rightarrow> ng_call list \<Rightarrow> bool" where
  "ahead_of_packets line cs \<longleftrightarrow> (\<exists>a ls b. cs = a @ NgDSB ls # b \<and> line \<in> set ls \<and> packets_of a = [])"

lemma ahead_of_packets_append: "ahead_of_packets line cs \<Longrightarrow> ahead_of_packets line (cs @ ds)"
  unfolding ahead_of_packets_def by (metis append.assoc append_Cons)

lemma ahead_of_packets_Cons: "line \<in> set ls \<Longrightarrow> ahead_of_packets line (dsb_calls ls @ cs)"
  unfolding ahead_of_packets_def
  by (intro exI [of _ "[]"] exI [of _ ls] exI [of _ cs]) (auto simp: dsb_calls_def)

lemma wstep_calls_grow: "wstep io w ev w' \<Longrightarrow> \<exists>ext. calls w' = calls w @ ext"
  using wstep_calls [of io w ev w'] by auto

lemma run_calls_grow: "run (wstep io) w evs w' \<Longrightarrow> \<exists>ext. calls w' = calls w @ ext"
proof (induction rule: run.induct)
  case (run_Cons s e t es u)
  then obtain x y where "calls t = calls s @ x" "calls u = calls t @ y"
    using wstep_calls_grow by blast
  then show ?case by simp
qed simp

lemma run_secret_ahead:
  assumes "run (wstep io) w evs w'" "line \<in> set (pending w)"
  shows "\<exists>ext. calls w' = calls w @ ext \<and> ((ext = [] \<and> line \<in> set (pending w')) \<or> ahead_of_packets line ext)"
  using assms
proof (induction rule: run.induct)
  case (run_Cons s e t es u)
  from wstep_calls [OF run_Cons.hyps(1)] show ?case
  proof (elim disjE conjE exE)
    fix new assume "calls t = calls s" "pending t = pending s @ new"
    then show ?thesis using run_Cons by simp
  next
    fix tail assume t: "calls t = calls s @ dsb_calls (pending s) @ tail"
    obtain ext where ext: "calls u = calls t @ ext" using run_calls_grow [OF run_Cons.hyps(2)] by blast
    have "ahead_of_packets line (dsb_calls (pending s) @ tail @ ext)"
      by (rule ahead_of_packets_Cons [OF run_Cons.prems])
    then show ?thesis using t ext by (intro exI [of _ "dsb_calls (pending s) @ tail @ ext"]) simp
  qed
qed simp

section \<open>The hold window\<close>

text \<open>
  The contract of \<^verbatim>\<open>Clock\<close> (\<^verbatim>\<open>internal/capture/clock.go\<close>): its readings never decrease. Then the
  queue is in order of arrival time, and a drain writes exactly the packets held for the
  window.
\<close>

definition Clock :: "time list \<Rightarrow> bool" where
  "Clock readings \<longleftrightarrow> sorted readings"

fun event_time :: "wevent \<Rightarrow> time option" where
  "event_time (EvPacket now _ _) = Some now"
| "event_time (EvTick now) = Some now"
| "event_time _ = None"

definition clock_readings :: "(wevent \<times> stop_info list) list \<Rightarrow> time list" where
  "clock_readings evs = List.map_filter (\<lambda>e. event_time (fst e)) evs"

definition in_order :: "time \<Rightarrow> cwriter \<Rightarrow> bool" where
  "in_order t w \<longleftrightarrow> sorted (map hp_at (held w)) \<and> (\<forall>p \<in> set (held w). hp_at p \<le> t)"

lemma in_order_later: "in_order t w \<Longrightarrow> t \<le> u \<Longrightarrow> in_order u w"
  by (auto simp: in_order_def)

lemma in_order_drop: "in_order t w \<Longrightarrow> held w' = drop n (held w) \<Longrightarrow> in_order t w'"
  by (auto simp: in_order_def sorted_wrt_drop drop_map [symmetric] dest: in_set_dropD)

lemma WritePacket_in_order:
  assumes "in_order now w" "WritePacket io now ci data w = (err, w', stops)"
  shows "in_order now w'"
proof (cases rule: admit_cases [where n = "epbSize (length data)" and w = w])
  case accepted
  define w2 where "w2 = enqueue now ci data (w\<lparr>admitted := i64 (admitted w + epbSize (length data))\<rparr>)"
  have w2: "in_order now w2"
    using assms(1) by (auto simp: w2_def enqueue_def in_order_def sorted_append)
  have "in_order now (snd (writeHeld io n w2))" for n
    by (rule in_order_drop [OF w2, of _ n]) (simp add: writeHeld_state)
  with w2 show ?thesis
    using assms(2) accepted(1) by (auto simp: WritePacket_state w2_def [symmetric] Let_def split: option.splits if_splits)
qed (use assms in \<open>auto simp: WritePacket_state in_order_def\<close>)

lemma drain_tick_held: "held (drain_tick io now w) = drop (due now w) (held w)"
  by (simp add: drain_tick_state drain_state Let_def)

lemma Close_held: "\<exists>n. held (snd (Close io w)) = drop n (held w)"
  by (cases "closed w") (auto simp: Close_state intro: exI [of _ 0] exI [of _ "length (held w)"])

lemma wstep_in_order:
  "wstep io w ev w' \<Longrightarrow> in_order t w \<Longrightarrow> (case event_time (fst ev) of Some u \<Rightarrow> t \<le> u | None \<Rightarrow> True) \<Longrightarrow>
   in_order (case event_time (fst ev) of Some u \<Rightarrow> u | None \<Rightarrow> t) w'"
proof (induction rule: wstep.induct)
  case (packet now ci data w err w' stops)
  then show ?case using WritePacket_in_order [OF in_order_later] by auto
next
  case (secret line w w' stops)
  then show ?case using AddSecret_queue [of line w w' stops] in_order_drop [of t w w' 0] by auto
next
  case (tick w now)
  then show ?case using in_order_drop [OF in_order_later drain_tick_held] by auto
next
  case (close w err w')
  then obtain n where "held w' = drop n (held w)" using Close_held [of io w] by auto
  then show ?case using close in_order_drop by auto
qed (auto simp: SetRoom_def in_order_def)

lemma run_in_order:
  assumes "run (wstep io) w evs w'" "in_order t w" "sorted (t # clock_readings evs)"
  shows "in_order (last (t # clock_readings evs)) w'"
  using assms
proof (induction arbitrary: t rule: run.induct)
  case (run_Cons s e u es v)
  have here: "in_order (case event_time (fst e) of Some x \<Rightarrow> x | None \<Rightarrow> t) u"
    by (rule wstep_in_order [OF run_Cons.hyps(1) run_Cons.prems(1)])
      (use run_Cons.prems(2) in \<open>auto simp: clock_readings_def split: option.splits\<close>)
  show ?case
  proof (cases "event_time (fst e)")
    case None
    then show ?thesis using run_Cons.IH [of t] here run_Cons.prems(2) by (simp add: clock_readings_def)
  next
    case (Some x)
    then show ?thesis using run_Cons.IH [of x] here run_Cons.prems(2) by (simp add: clock_readings_def)
  qed
qed (simp add: clock_readings_def)

text \<open>In an ordered queue the due prefix is all the packets that are due.\<close>

lemma takeWhile_sorted:
  "sorted (map f xs) \<Longrightarrow> takeWhile (\<lambda>x. f x \<le> c) xs = filter (\<lambda>x. f x \<le> (c :: int)) xs"
  "sorted (map f xs) \<Longrightarrow> dropWhile (\<lambda>x. f x \<le> c) xs = filter (\<lambda>x. c < f x) xs"
  by (induction xs) (auto simp: filter_empty_conv not_le eq_commute [of "[]"] intro!: filter_True [symmetric])

lemma drop_due: "drop (due now w) (held w) = dropWhile (\<lambda>p. hp_at p \<le> now - holdWindow) (held w)"
  by (simp add: due_def dropWhile_eq_drop)

lemma due_split:
  assumes "in_order t w"
  shows "take (due now w) (held w) = filter (\<lambda>p. hp_at p \<le> now - holdWindow) (held w)"
    and "drop (due now w) (held w) = filter (\<lambda>p. now - holdWindow < hp_at p) (held w)"
  using assms takeWhile_sorted [of hp_at "held w" "now - holdWindow"]
  unfolding take_due drop_due by (simp_all add: in_order_def)

section \<open>The one stop\<close>

text \<open>What a step does to the stop: it is final, and the step that stops reports it.\<close>

definition stop_report :: "cwriter \<Rightarrow> cwriter \<Rightarrow> stop_info list" where
  "stop_report w w' =
     (if onStop w \<and> \<not> stopped w \<and> stopped w'
      then [\<lparr>stop_path = w_path w, stop_bytes = admitted w', stop_room = room w'\<rparr>] else [])"

lemma WritePacket_stop:
  assumes "WritePacket io now ci data w = (err, w', stops)"
  shows "stops = stop_report w w' \<and> onStop w' = onStop w \<and> (stopped w \<longrightarrow> stopped w')"
proof (cases rule: admit_cases [where n = "epbSize (length data)" and w = w])
  case accepted
  then show ?thesis
    using assms
    by (auto simp: WritePacket_state writeHeld_state enqueue_def Let_def stop_report_def split: option.splits if_splits)
qed (use assms in \<open>auto simp: WritePacket_state stop_report_def notifyStop_def\<close>)

lemma AddSecret_stop:
  assumes "AddSecret line w = (w', stops)"
  shows "stops = stop_report w w' \<and> onStop w' = onStop w \<and> (stopped w \<longrightarrow> stopped w')"
  by (cases rule: admit_cases [where n = "dsbSize (length line + 1)" and w = w])
    (use assms in \<open>auto simp: AddSecret_state stop_report_def notifyStop_def split: if_splits\<close>)

lemma wstep_stop:
  "wstep io w ev w' \<Longrightarrow> snd ev = stop_report w w' \<and> onStop w' = onStop w \<and> (stopped w \<longrightarrow> stopped w')"
proof (induction rule: wstep.induct)
  case (packet now ci data w err w' stops)
  from WritePacket_stop [OF this] show ?case by simp
next
  case (secret line w w' stops)
  from AddSecret_stop [OF this] show ?case by simp
next
  case (close w err w')
  then have w': "w' = snd (Close io w)" by simp
  show ?case unfolding w' by (simp add: Close_state stop_report_def)
qed (auto simp: SetRoom_def stop_report_def drain_tick_state drain_state Let_def)

lemma run_stop:
  "run (wstep io) w evs w' \<Longrightarrow>
   onStop w' = onStop w \<and> (stopped w \<longrightarrow> stopped w')
   \<and> length (concat (map snd evs)) = (if onStop w \<and> \<not> stopped w \<and> stopped w' then 1 else 0)"
proof (induction rule: run.induct)
  case (run_Cons s e t es u)
  then show ?case using wstep_stop [OF run_Cons.hyps(1)] by (auto simp: stop_report_def)
qed simp

text \<open>Once stopped, the log of accepted packets and secrets is final: a fact about the
  specification, which the writer refines.\<close>

definition log_content :: "capture_log \<Rightarrow> (capture_info \<times> string) list \<times> string list \<times> int" where
  "log_content l = (log_packets l, log_secrets l, log_admitted l)"

lemma log_event_stopped: "log_stopped l \<Longrightarrow> log_stopped (log_event ev l) \<and> log_content (log_event ev l) = log_content l"
  by (cases ev) (auto simp: log_admit_def log_content_def)

lemma run_log_stopped:
  "run log_step l evs l' \<Longrightarrow> log_stopped l \<Longrightarrow> log_stopped l' \<and> log_content l' = log_content l"
proof (induction rule: run.induct)
  case (run_Cons s e t es u)
  then show ?case using log_event_stopped [of s "fst e"] by (simp add: log_step_def)
qed simp

section \<open>The end of the file\<close>

text \<open>
  Before \<^verbatim>\<open>Close\<close>: the file is closed only by the drain, after a stop, with nothing left to
  write, and the drain has then exited.
\<close>

definition sealed :: "ng_call list \<Rightarrow> bool" where
  "sealed cs \<longleftrightarrow> (\<exists>ds. cs = ds @ [FileClose] \<and> FileClose \<notin> set ds)"

definition open_ok :: "cwriter \<Rightarrow> bool" where
  "open_ok w \<longleftrightarrow>
     (if closed w then stopped w \<and> drained w \<and> held w = [] \<and> pending w = [] \<and> sealed (calls w)
      else FileClose \<notin> set (calls w))"

lemma FileClose_notin [simp]: "FileClose \<notin> epb_call ` A" "FileClose \<notin> set (dsb_calls ls)"
  by (auto simp: dsb_calls_def)

lemma sealedI: "FileClose \<notin> set cs \<Longrightarrow> sealed (cs @ [NgFlush, FileClose])"
  unfolding sealed_def by (intro exI [of _ "cs @ [NgFlush]"]) simp

definition open_step :: "ng_io \<Rightarrow> cwriter \<Rightarrow> wevent \<times> stop_info list \<Rightarrow> cwriter \<Rightarrow> bool" where
  "open_step io w ev w' \<longleftrightarrow> wstep io w ev w' \<and> fst ev \<noteq> EvClose"

lemma WritePacket_open_ok:
  assumes "open_ok w" "WritePacket io now ci data w = (err, w', stops)"
  shows "open_ok w'"
proof (cases rule: admit_cases [where n = "epbSize (length data)" and w = w])
  case accepted
  then have "\<not> closed w" "FileClose \<notin> set (calls w)" using assms(1) by (auto simp: open_ok_def split: if_splits)
  then show ?thesis
    using assms(2) accepted(1)
    by (auto simp: WritePacket_state writeHeld_state enqueue_def Let_def open_ok_def dsb_calls_def
        split: option.splits if_splits)
qed (use assms in \<open>auto simp: WritePacket_state open_ok_def\<close>)

lemma AddSecret_open_ok:
  assumes "open_ok w" "AddSecret line w = (w', stops)"
  shows "open_ok w'"
  by (cases rule: admit_cases [where n = "dsbSize (length line + 1)" and w = w])
    (use assms in \<open>auto simp: AddSecret_state open_ok_def split: if_splits\<close>)

lemma drain_tick_open_ok:
  assumes "open_ok w" "\<not> drained w"
  shows "open_ok (drain_tick io now w)"
proof -
  have "\<not> closed w" "FileClose \<notin> set (calls w)" using assms by (auto simp: open_ok_def split: if_splits)
  then have "FileClose \<notin> set (calls (snd (drain io now w)))" "\<not> closed (snd (drain io now w))"
    by (auto simp: drain_state dsb_calls_def)
  then show ?thesis by (simp add: drain_tick_state Let_def open_ok_def sealedI)
qed

lemma wstep_open_ok: "wstep io w ev w' \<Longrightarrow> fst ev \<noteq> EvClose \<Longrightarrow> open_ok w \<Longrightarrow> open_ok w'"
proof (induction rule: wstep.induct)
  case (packet now ci data w err w' stops)
  then show ?case using WritePacket_open_ok by blast
next
  case (secret line w w' stops)
  then show ?case using AddSecret_open_ok by blast
next
  case (tick w now)
  then show ?case by (simp add: drain_tick_open_ok)
qed (auto simp: SetRoom_def open_ok_def split: if_splits)

lemma open_step_ok: "open_step io w ev w' \<Longrightarrow> open_ok w \<Longrightarrow> open_ok w'"
  unfolding open_step_def using wstep_open_ok by blast

lemma open_ok_new: "open_ok (new_writer hdr path opts)"
  by (simp add: open_ok_def new_writer_def)

interpretation open_file: invariant_system "fresh hdr" "open_step io" open_ok for hdr io
  by unfold_locales (auto simp: fresh_def open_ok_new intro: open_step_ok)

lemma Close_complete:
  assumes "open_ok w"
  shows "sealed (calls (snd (Close io w))) \<and> packets_of (calls (snd (Close io w))) = accepted_packets w
    \<and> secrets_of (calls (snd (Close io w))) = accepted_secrets w"
proof (cases "closed w")
  case True
  with assms show ?thesis by (simp add: Close_state open_ok_def accepted_packets_def accepted_secrets_def)
next
  case False
  then have "sealed (calls (snd (Close io w)))"
    using assms sealedI [of "calls w @ dsb_calls (pending w) @ map epb_call (held w)"]
    by (simp add: Close_state open_ok_def)
  with False show ?thesis by (simp add: Close_state accepted_packets_def accepted_secrets_def)
qed

text \<open>A stopped capture is closed by the first tick that finds every packet due.\<close>

lemma drain_tick_closes:
  assumes "stopped w" "\<forall>p \<in> set (held w). hp_at p \<le> now - holdWindow" "\<not> closed w"
  shows "closed (drain_tick io now w) \<and> drained (drain_tick io now w)
    \<and> calls (drain_tick io now w) =
      calls w @ dsb_calls (pending w) @ map epb_call (held w) @ [NgFlush, NgFlush, FileClose]"
proof -
  have "due now w = length (held w)"
    using assms(2) by (simp add: due_def takeWhile_all_iff [THEN iffD2])
  then show ?thesis using assms(1,3) by (simp add: drain_tick_state drain_state Let_def)
qed

section \<open>The capture as the keylog's sink\<close>

definition capture_active :: "cwriter \<Rightarrow> bool" where
  "capture_active w \<longleftrightarrow> State w = StateActive"

definition capture_sink :: "string \<Rightarrow> cwriter \<Rightarrow> cwriter" where
  "capture_sink line w = fst (AddSecret line w)"

text \<open>Everything else that may happen to the writer between two keylog lines.\<close>

definition capture_other :: "ng_io \<Rightarrow> cwriter \<Rightarrow> cwriter \<Rightarrow> bool" where
  "capture_other io w w' \<longleftrightarrow> (\<exists>ev. wstep io w ev w' \<and> (\<forall>line. fst ev \<noteq> EvSecret line))"

lemma capture_active_iff [simp]: "capture_active w \<longleftrightarrow> \<not> stopped w"
  by (simp add: capture_active_def State_def)

lemma log_secrets_of [simp]: "log_secrets (log_of w) = accepted_secrets w" "log_stopped (log_of w) = stopped w"
  by (simp_all add: log_of_def)

lemma log_event_secrets:
  "\<forall>line. ev \<noteq> EvSecret line \<Longrightarrow> log_secrets (log_event ev l) = log_secrets l"
  by (cases ev) (auto simp: log_admit_def)

lemma log_event_secret:
  "line \<noteq> [] \<Longrightarrow> log_secrets (log_event (EvSecret line) l) =
     (if log_stopped (log_event (EvSecret line) l) then log_secrets l else log_secrets l @ [line])"
  "line \<noteq> [] \<Longrightarrow> \<not> log_stopped (log_event (EvSecret line) l) \<Longrightarrow> \<not> log_stopped l"
  by (auto simp: log_admit_def)

lemma capture_sink_log: "log_of (capture_sink line w) = log_event (EvSecret line) (log_of w)"
  using AddSecret_log [of line w "fst (AddSecret line w)" "snd (AddSecret line w)"]
  by (simp add: capture_sink_def log_step_def)

interpretation capture_keys: key_sink capture_active capture_sink "capture_other io" accepted_secrets for io
proof
  fix line :: string and s t :: cwriter
  note sink = arg_cong [OF capture_sink_log [of line s], of log_secrets]
    arg_cong [OF capture_sink_log [of line s], of log_stopped]
  show "capture_active s \<and> accepted_secrets (capture_sink line s) = accepted_secrets s @ [line]"
    if "line \<noteq> []" "capture_active (capture_sink line s)"
    using that sink log_event_secret [OF that(1), of "log_of s"] by simp
  show "accepted_secrets (capture_sink line s) = accepted_secrets s"
    if "line \<noteq> []" "\<not> capture_active (capture_sink line s)"
    using that sink log_event_secret(1) [OF that(1), of "log_of s"] by simp
  show "accepted_secrets t = accepted_secrets s" if "capture_other io s t"
  proof -
    obtain ev where ev: "wstep io s ev t" "\<forall>line. fst ev \<noteq> EvSecret line"
      using \<open>capture_other io s t\<close> by (auto simp: capture_other_def)
    show ?thesis
      using wstep_log [OF ev(1)] log_event_secrets [OF ev(2), of "log_of s"]
      by (metis log_secrets_of(1) log_step_def)
  qed
  show "capture_active s" if "capture_other io s t" "capture_active t"
    using that wstep_stop by (auto simp: capture_other_def)
qed

section \<open>Properties\<close>

text \<open>Concrete pieces the examples below are built from.\<close>

definition sample_options :: options where
  "sample_options = \<lparr>LinkType = 0, Room = 1000, OnStop = True\<rparr>"

definition sample_writer :: cwriter where
  "sample_writer = new_writer (\<lambda>_. 100) ''c'' sample_options"

definition sample_info :: capture_info where
  "sample_info = \<lparr>Timestamp = 0, CaptureLength = 0, Length = 0, InterfaceIndex = 2\<rparr>"

definition sample_io :: ng_io where "sample_io = (\<lambda>_. None)"

lemma wstep_packet_fun:
  "wstep io w (EvPacket now ci data, snd (snd (WritePacket io now ci data w))) (fst (snd (WritePacket io now ci data w)))"
  by (rule wstep.packet [where err = "fst (WritePacket io now ci data w)"]) simp

lemma wstep_secret_fun: "wstep io w (EvSecret line, snd (AddSecret line w)) (fst (AddSecret line w))"
  by (rule wstep.secret) simp

lemma run_one: "step s e t \<Longrightarrow> run step s [e] t"
  by (rule run_Cons) (assumption, rule run_Nil)

lemma run_packet_fun:
  "run (wstep io) w [(EvPacket now ci data, snd (snd (WritePacket io now ci data w)))] (fst (snd (WritePacket io now ci data w)))"
  by (rule run_one, rule wstep_packet_fun)

lemma run_secret_fun: "run (wstep io) w [(EvSecret line, snd (AddSecret line w))] (fst (AddSecret line w))"
  by (rule run_one, rule wstep_secret_fun)

lemma sample_writer_fields:
  "limited sample_writer" "room sample_writer = 1000" "admitted sample_writer = 100" "\<not> stopped sample_writer"
  "\<not> closed sample_writer" "\<not> drained sample_writer" "held sample_writer = []" "pending sample_writer = []"
  "heldBytes sample_writer = 0" "onStop sample_writer" "calls sample_writer = [NgNewWriter 1, NgFlush]"
  by (simp_all add: sample_writer_def new_writer_def sample_options_def HeaderSize_def linkType_def)

lemma sample_secret: "AddSecret ''k'' sample_writer = (sample_writer\<lparr>admitted := 124, pending := [''k'']\<rparr>, [])"
  by (simp add: AddSecret_def admit_def sample_writer_fields dsbSize_small small_def dsb_bytes_def pad4_bytes_def
      i64_id notifyStop_def)

text \<open>
  C6: the capture writer refines an append-only log. Seen as the packets and secrets it has
  accepted, in order, whether they are written or still held, every run of the writer (any
  mixture of packets, secrets, room changes, ticks and the shutdown) is a run of a log that
  accepts what fits the room until something does not, reports that at most once, and never
  changes again.
\<close>

theorem capture_refines_log:
  assumes "run (wstep io) w evs w'"
  shows "run log_step (log_of w) evs (log_of w')"
  by (rule capture.run_simulates [OF assms])

lemma capture_refines_log_witness:
  "run log_step (log_of sample_writer) [(EvSecret ''k'', [])] (log_of (sample_writer\<lparr>admitted := 124, pending := [''k'']\<rparr>))"
  using capture_refines_log [OF run_secret_fun [of sample_io sample_writer "''k''"]]
  by (simp add: sample_secret)

text \<open>
  C24: memory is bounded. In every run of a new writer the hold queue holds at most 32 MiB of
  packet data, the counter of those bytes is exact, and the loop that picks what to write
  when a packet overflows the queue never reads past its end.
\<close>

theorem hold_queue_bounded:
  assumes "run (wstep io) (new_writer hdr path opts) evs w"
  shows "heldBytes w = int (held_bytes (held w)) \<and> held_bytes (held w) \<le> 32 * 2 ^ 20
    \<and> fst (WritePacket io now ci data w) \<noteq> Some IndexPanic"
proof -
  have q: "queue_ok w"
    by (rule hold_queue.inv_from_init [OF _ assms, where hdr = hdr]) (auto simp: fresh_def)
  then show ?thesis
    using WritePacket_queue [OF q, of io now ci data "fst (WritePacket io now ci data w)"
        "fst (snd (WritePacket io now ci data w))" "snd (snd (WritePacket io now ci data w))"]
    by (simp add: queue_ok_def maxHeldBytes_def)
qed

lemma hold_queue_bounded_witness:
  "held_bytes (held (fst (snd (WritePacket sample_io 5 sample_info ''ab'' sample_writer)))) \<le> 32 * 2 ^ 20"
  using hold_queue_bounded [OF run_packet_fun [of sample_io "new_writer (\<lambda>_. 100) ''c'' sample_options" 5 sample_info "''ab''"]]
  by (simp add: sample_writer_def)

text \<open>
  C4: the file never passes its room. For an encoder that writes no more than the size of
  each block, a capture with a room, whose room never exceeds \<open>R\<close>, has at most \<open>R\<close> bytes in
  its file at every moment, and still will when everything accepted so far is written.
\<close>

theorem capture_file_within_room:
  assumes "pcapgo_sizes sz" "sz (NgNewWriter (linkType opts)) \<le> hdr (linkType opts)"
    "0 < Room opts" "Room opts \<le> R" "HeaderSize hdr opts \<le> R" "R \<le> 2 ^ 62"
    "run (bounded_step io R) (new_writer hdr path opts) evs w"
  shows "int (file_size sz w) \<le> R \<and> int (file_size sz w + queued_size w) \<le> R"
proof -
  have "room_ok sz R w"
    using run_room [OF assms(7) room_ok_new [OF assms(3-5,1,2)] assms(1,6)] .
  then show ?thesis by (auto simp: room_ok_def)
qed

definition sample_sz :: "ng_call \<Rightarrow> nat" where
  "sample_sz c = (case c of NgEPB ci d \<Rightarrow> epb_bytes (length d) | NgDSB ls \<Rightarrow> dsb_bytes (length (secretsPayload ls))
     | NgNewWriter lt \<Rightarrow> 100 | _ \<Rightarrow> 0)"

lemma pcapgo_sizes_sample: "pcapgo_sizes sample_sz"
  by (simp add: pcapgo_sizes_def sample_sz_def)

lemma capture_file_within_room_witness:
  "int (file_size sample_sz (fst (snd (WritePacket sample_io 5 sample_info ''ab'' sample_writer)))) \<le> 1000"
proof -
  have "run (bounded_step sample_io 1000) (new_writer (\<lambda>_. 100) ''c'' sample_options)
      [(EvPacket 5 sample_info ''ab'', snd (snd (WritePacket sample_io 5 sample_info ''ab'' sample_writer)))]
      (fst (snd (WritePacket sample_io 5 sample_info ''ab'' sample_writer)))"
    unfolding sample_writer_def [symmetric] by (rule run_one) (simp add: bounded_step_def wstep_packet_fun small_def)
  from capture_file_within_room [OF pcapgo_sizes_sample _ _ _ _ _ this] show ?thesis
    by (simp add: sample_options_def HeaderSize_def sample_sz_def)
qed

text \<open>
  C3: secrets come before the packets they may decrypt. Once a secret is pending, no packet
  (any held at that moment, or any that arrives later) is written before a secrets block that
  carries it: whatever happens next, either nothing has been written yet, or what has been
  written since has the secret ahead of every packet.
\<close>

theorem secrets_ahead_of_packets:
  assumes "run (wstep io) w evs w'" "line \<in> set (pending w)"
  shows "\<exists>new. calls w' = calls w @ new \<and>
    ((new = [] \<and> line \<in> set (pending w'))
     \<or> (\<exists>before ls after. new = before @ NgDSB ls # after \<and> line \<in> set ls \<and> packets_of before = []))"
  using run_secret_ahead [OF assms] unfolding ahead_of_packets_def .

lemma secrets_ahead_of_packets_witness:
  "\<exists>before ls after. calls (drain_tick sample_io 9 (fst (AddSecret ''k'' sample_writer))) =
     calls sample_writer @ before @ NgDSB ls # after \<and> ''k'' \<in> set ls \<and> packets_of before = []"
proof -
  let ?w = "sample_writer\<lparr>admitted := 124, pending := [''k'']\<rparr>"
  have "run (wstep sample_io) ?w [(EvTick 9, [])] (drain_tick sample_io 9 ?w)"
    by (rule run_one, rule wstep.tick) (simp add: sample_writer_fields)
  from secrets_ahead_of_packets [OF this, of "''k''"] show ?thesis
    by (auto simp: sample_secret drain_tick_state drain_state Let_def sample_writer_fields dsb_calls_def)
qed

text \<open>
  C25: the hold window. When the clock never runs backwards, a tick of the drain writes the
  pending secrets, then exactly the packets held for at least the hold window, in order of
  arrival, then flushes; and the packets that stay are exactly those held for less.
\<close>

theorem tick_writes_what_is_due:
  assumes "run (wstep io) (new_writer hdr path opts) evs w" "Clock (t # clock_readings evs)"
  shows "held (drain_tick io now w) = filter (\<lambda>p. now - holdWindow < hp_at p) (held w)
    \<and> (\<exists>tail. set tail \<subseteq> {NgFlush, FileClose} \<and> calls (drain_tick io now w) = calls w @ dsb_calls (pending w)
         @ map epb_call (filter (\<lambda>p. hp_at p \<le> now - holdWindow) (held w)) @ NgFlush # tail)"
proof -
  have "in_order t (new_writer hdr path opts)" by (simp add: in_order_def new_writer_def)
  from run_in_order [OF assms(1) this assms(2) [unfolded Clock_def]] have o: "in_order (last (t # clock_readings evs)) w" .
  have "\<exists>tail. set tail \<subseteq> {NgFlush, FileClose} \<and> calls (drain_tick io now w) = calls (snd (drain io now w)) @ tail"
    by (auto simp: drain_tick_state Let_def intro: exI [of _ "[]"] exI [of _ "[NgFlush, FileClose]"])
  then show ?thesis
    using due_split [OF o, of now] by (auto simp: drain_tick_held drain_state)
qed

lemma tick_writes_what_is_due_witness:
  "held (drain_tick sample_io 2000000000 (fst (snd (WritePacket sample_io 5 sample_info ''ab'' sample_writer)))) =
   filter (\<lambda>p. 2000000000 - holdWindow < hp_at p) (held (fst (snd (WritePacket sample_io 5 sample_info ''ab'' sample_writer))))"
  using tick_writes_what_is_due [OF run_packet_fun [of sample_io "new_writer (\<lambda>_. 100) ''c'' sample_options" 5 sample_info "''ab''"],
      of 0 2000000000]
  by (simp add: sample_writer_def clock_readings_def Clock_def)

text \<open>
  Capture stops once and for good. In any run the stop callback is called exactly once
  when the run stops the capture and it has one, and not at all otherwise; and after the
  stop no packet and no secret is ever accepted again, whatever room is set.
\<close>

theorem capture_stops_once:
  assumes "run (wstep io) w evs w'"
  shows "length (concat (map snd evs)) = (if onStop w \<and> \<not> stopped w \<and> stopped w' then 1 else 0)
    \<and> (stopped w \<longrightarrow> stopped w' \<and> accepted_packets w' = accepted_packets w
         \<and> accepted_secrets w' = accepted_secrets w \<and> admitted w' = admitted w)"
  using run_stop [OF assms] run_log_stopped [OF capture.run_simulates [OF assms]]
  by (simp add: log_content_def log_of_def)

lemma capture_stops_once_witness:
  "length (concat (map snd [(EvPacket 5 sample_info (replicate 2000 CHR ''x''),
     snd (snd (WritePacket sample_io 5 sample_info (replicate 2000 CHR ''x'') sample_writer)))])) = 1"
proof -
  let ?d = "replicate 2000 CHR ''x''"
  have "stopped (fst (snd (WritePacket sample_io 5 sample_info ?d sample_writer)))"
    by (simp add: WritePacket_def admit_def sample_writer_fields epbSize_small small_def epb_bytes_def pad4_bytes_def i64_id)
  then show ?thesis
    using capture_stops_once [OF run_packet_fun [of sample_io sample_writer 5 sample_info ?d]]
    by (simp add: sample_writer_fields)
qed

text \<open>
  C7: closing writes everything. However a new writer was used before it is closed, the file
  after \<^verbatim>\<open>Close\<close> has had every packet and every secret it ever accepted written to it, each
  once and in order, and has been closed exactly once, by the last call on it.
\<close>

theorem close_writes_everything:
  assumes "run (open_step io) (new_writer hdr path opts) evs w"
  shows "\<exists>cs. calls (snd (Close io w)) = cs @ [FileClose] \<and> FileClose \<notin> set cs
    \<and> packets_of cs = accepted_packets w \<and> secrets_of cs = accepted_secrets w"
proof -
  have "open_ok w"
    by (rule open_file.inv_from_init [OF _ assms, where hdr = hdr]) (auto simp: fresh_def)
  from Close_complete [OF this, of io] show ?thesis
    by (auto simp: sealed_def)
qed

lemma close_writes_everything_witness:
  "\<exists>cs. calls (snd (Close sample_io (fst (AddSecret ''k'' sample_writer)))) = cs @ [FileClose] \<and> secrets_of cs = [''k'']"
proof -
  have "run (open_step sample_io) (new_writer (\<lambda>_. 100) ''c'' sample_options)
      [(EvSecret ''k'', snd (AddSecret ''k'' sample_writer))] (fst (AddSecret ''k'' sample_writer))"
    unfolding sample_writer_def [symmetric] by (rule run_one) (simp add: open_step_def wstep_secret_fun)
  from close_writes_everything [OF this] show ?thesis
    by (auto simp: sample_secret accepted_secrets_def sample_writer_fields)
qed

text \<open>
  A stopped capture is closed by the drain. Once capture has stopped, the first tick that
  finds every held packet past its hold window writes the pending secrets and all of them,
  closes the file, and ends the drain.
\<close>

theorem stopped_capture_is_closed:
  assumes "stopped w" "\<not> closed w" "\<forall>p \<in> set (held w). hp_at p + holdWindow \<le> now"
  shows "closed (drain_tick io now w) \<and> drained (drain_tick io now w)
    \<and> calls (drain_tick io now w) =
      calls w @ dsb_calls (pending w) @ map epb_call (held w) @ [NgFlush, NgFlush, FileClose]"
  using assms by (intro drain_tick_closes) auto

lemma stopped_capture_is_closed_witness:
  "closed (drain_tick sample_io 9 (sample_writer\<lparr>stopped := True\<rparr>))"
  using stopped_capture_is_closed [of "sample_writer\<lparr>stopped := True\<rparr>" 9] by (simp add: sample_writer_fields)

text \<open>
  The keylog and the capture hold the same keys. However keylog lines interleave with
  packets, room changes, ticks and the shutdown, the keylog file is what it held at start
  followed by exactly the secrets the capture accepted, in the same order, and at most one
  line more: the one during whose append the capture stopped.
\<close>

theorem keylog_agrees_with_capture:
  assumes "NewKeylogWriter None None old [WithSink True, WithGate True] = Inr kw"
    "run (key_step capture_active capture_sink (capture_other io)) (kw, new_writer hdr path opts) evs (kw', w)"
    "\<forall>line. Some line \<in> set evs \<longrightarrow> newline \<notin> set line"
  shows "\<exists>extra. kfile kw' = old @ unlines (accepted_secrets w @ extra)
    \<and> (extra = [] \<or> (length extra = 1 \<and> stopped w))"
proof -
  have "keys_agree capture_active accepted_secrets old (kw, new_writer hdr path opts)"
    using assms(1) holds_lines_new [OF assms(1)]
    by (intro keys_agreeI [where extra = "[]"])
      (auto simp: NewKeylogWriter_def WithSink_def WithGate_def accepted_secrets_def new_writer_def)
  from capture_keys.run_keys_agree [OF assms(2) this assms(3)] show ?thesis
    by (auto simp: keys_agree_def holds_lines_def)
qed

definition sample_klog :: klog where
  "sample_klog = \<lparr>kfile = [], seen = {}, has_sink = True, has_gate = True\<rparr>"

definition sample_line :: string where
  "sample_line = nss_line LabelClientTrafficSecret0 (replicate 64 CHR ''0'') (replicate 96 CHR ''a'')"

lemma keylog_agrees_with_capture_witness:
  "\<exists>extra. kfile (fst (snd (Append True WriteOk sample_klog sample_line)))
     = unlines (accepted_secrets (capture_sink sample_line sample_writer) @ extra) \<and> length extra \<le> 1"
proof -
  have valid: "ValidateLine sample_line = None"
    unfolding sample_line_def by (rule ValidateLine_nss_line [OF sample_parts])
  have nl: "newline \<notin> set sample_line"
    by (simp add: sample_line_def nss_line_def unwords3_def)
  have new: "NewKeylogWriter None None [] [WithSink True, WithGate True] = Inr sample_klog"
    by (simp add: NewKeylogWriter_def WithSink_def WithGate_def sample_klog_def)
  have app: "Append True WriteOk sample_klog sample_line = (None, fst (snd (Append True WriteOk sample_klog sample_line)),
      [FileWrite (sample_line @ [newline]), SinkCall sample_line])"
    using Append_written [OF valid, of sample_klog True] by (simp add: sample_klog_def)
  have "key_step capture_active capture_sink (capture_other sample_io) (sample_klog, sample_writer) (Some sample_line)
      (fst (snd (Append True WriteOk sample_klog sample_line)), capture_sink sample_line sample_writer)"
    by (rule key_step.line [where line = sample_line]) (use app in \<open>auto simp: sample_writer_fields\<close>)
  then have "run (key_step capture_active capture_sink (capture_other sample_io))
      (sample_klog, new_writer (\<lambda>_. 100) ''c'' sample_options) [Some sample_line]
      (fst (snd (Append True WriteOk sample_klog sample_line)), capture_sink sample_line sample_writer)"
    unfolding sample_writer_def [symmetric] by (rule run_one)
  from keylog_agrees_with_capture [OF new this] nl show ?thesis
    by (auto simp: sample_writer_def)
qed

end
