(* ===== verification/Go_Paths.thy ===== *)
theory Go_Paths
  imports Go_Strings
begin

text \<open>
  Go's \<^verbatim>\<open>path/filepath\<close> on Unix, as far as the sidecar calls it: \<^verbatim>\<open>Clean\<close>,
  \<^verbatim>\<open>Join\<close>, \<^verbatim>\<open>Base\<close>, \<^verbatim>\<open>Dir\<close> and \<^verbatim>\<open>Ext\<close>. \<open>Clean\<close> is written on the
  components of a path rather than on its bytes.
\<close>

abbreviation slash :: char where "slash \<equiv> CHR ''/''"
abbreviation dot :: char where "dot \<equiv> CHR ''.''"

section \<open>Components\<close>

fun split_slash :: "string \<Rightarrow> string list" where
  "split_slash [] = [[]]"
| "split_slash (c # cs) =
     (if c = slash then [] # split_slash cs
      else case split_slash cs of [] \<Rightarrow> [[c]] | x # xs \<Rightarrow> (c # x) # xs)"

lemma split_slash_not_Nil [simp]: "split_slash s \<noteq> []"
  by (cases s) (auto split: list.splits)

lemma split_slash_word: "slash \<notin> set w \<Longrightarrow> split_slash w = [w]"
  by (induction w) auto

lemma split_slash_append:
  "slash \<notin> set w \<Longrightarrow> split_slash (w @ slash # s) = w # split_slash s"
  by (induction w) auto

lemma split_slash_no_slash: "x \<in> set (split_slash s) \<Longrightarrow> slash \<notin> set x"
  by (induction s arbitrary: x) (auto split: list.splits if_splits)

lemma split_slash_join:
  assumes "xs \<noteq> []" "\<forall>x \<in> set xs. slash \<notin> set x"
  shows "split_slash (join xs [slash]) = xs"
  using assms by (induction xs rule: induct_list012) (auto simp: split_slash_append split_slash_word)

section \<open>Clean\<close>

text \<open>
  The components kept so far are a stack, top first. An empty component and \<^verbatim>\<open>.\<close> are
  dropped; \<^verbatim>\<open>..\<close> removes the component before it, is dropped at a root, and is kept
  where there is nothing to remove.
\<close>

fun clean_comps :: "bool \<Rightarrow> string list \<Rightarrow> string list \<Rightarrow> string list" where
  "clean_comps rooted st [] = rev st"
| "clean_comps rooted st (x # xs) =
     (if x = [] \<or> x = ''.'' then clean_comps rooted st xs
      else if x = ''..'' then
        (if st \<noteq> [] \<and> hd st \<noteq> ''..'' then clean_comps rooted (tl st) xs
         else if rooted then clean_comps rooted st xs
         else clean_comps rooted (x # st) xs)
      else clean_comps rooted (x # st) xs)"

definition is_rooted :: "string \<Rightarrow> bool" where
  "is_rooted p \<longleftrightarrow> p \<noteq> [] \<and> hd p = slash"

definition render :: "bool \<Rightarrow> string list \<Rightarrow> string" where
  "render rooted xs =
     (let out = (if rooted then [slash] else []) @ join xs [slash]
      in if out = [] then ''.'' else out)"

definition clean :: "string \<Rightarrow> string" where
  "clean p = render (is_rooted p) (clean_comps (is_rooted p) [] (split_slash p))"

text \<open>A normal component is neither empty nor \<^verbatim>\<open>.\<close> nor \<^verbatim>\<open>..\<close> and holds no slash.\<close>

definition plain_comp :: "string \<Rightarrow> bool" where
  "plain_comp x \<longleftrightarrow> x \<noteq> [] \<and> x \<noteq> ''.'' \<and> x \<noteq> ''..'' \<and> slash \<notin> set x"

text \<open>What \<open>clean_comps\<close> yields: at a root only normal components, elsewhere
  some \<^verbatim>\<open>..\<close> before them.\<close>

definition clean_list :: "bool \<Rightarrow> string list \<Rightarrow> bool" where
  "clean_list rooted xs \<longleftrightarrow>
     (\<exists>us ps. xs = us @ ps \<and> (\<forall>u \<in> set us. u = ''..'') \<and> (\<forall>p \<in> set ps. plain_comp p)
       \<and> (rooted \<longrightarrow> us = []))"

lemma clean_listI:
  "(\<forall>u \<in> set us. u = ''..'') \<Longrightarrow> (\<forall>p \<in> set ps. plain_comp p) \<Longrightarrow> (rooted \<longrightarrow> us = [])
   \<Longrightarrow> clean_list rooted (us @ ps)"
  by (auto simp: clean_list_def)

lemma clean_list_Nil [simp]: "clean_list rooted []"
  by (simp add: clean_list_def)

lemma clean_list_snoc_plain:
  "clean_list rooted xs \<Longrightarrow> plain_comp p \<Longrightarrow> clean_list rooted (xs @ [p])"
proof -
  assume "clean_list rooted xs" and p: "plain_comp p"
  then obtain us ps where d: "xs = us @ ps" "\<forall>u \<in> set us. u = ''..''"
      "\<forall>p \<in> set ps. plain_comp p" "rooted \<longrightarrow> us = []"
    by (auto simp: clean_list_def)
  with p show "clean_list rooted (xs @ [p])"
    using clean_listI [of us "ps @ [p]" rooted] by auto
qed

lemma clean_list_butlast: "clean_list rooted (xs @ [x]) \<Longrightarrow> clean_list rooted xs"
proof -
  assume "clean_list rooted (xs @ [x])"
  then obtain us ps where d: "xs @ [x] = us @ ps" "\<forall>u \<in> set us. u = ''..''"
      "\<forall>p \<in> set ps. plain_comp p" "rooted \<longrightarrow> us = []"
    by (auto simp: clean_list_def)
  show "clean_list rooted xs"
  proof (cases ps rule: rev_cases)
    case Nil
    with d have "xs = butlast us @ []" by (metis append_Nil2 butlast_snoc)
    with d show ?thesis
      using clean_listI [of "butlast us" "[]" rooted] by (auto dest: in_set_butlastD)
  next
    case (snoc qs q)
    with d have "xs = us @ qs" by simp
    with d snoc show ?thesis
      using clean_listI [of us qs rooted] by simp
  qed
qed

lemma clean_list_snoc_up:
  assumes "clean_list False xs" "xs = [] \<or> last xs = ''..''"
  shows "clean_list False (xs @ [''..''])"
proof -
  obtain us ps where d: "xs = us @ ps" "\<forall>u \<in> set us. u = ''..''" "\<forall>p \<in> set ps. plain_comp p"
    using assms(1) by (auto simp: clean_list_def)
  have "ps = []"
  proof (rule ccontr)
    assume "ps \<noteq> []"
    then have "last xs \<in> set ps" "xs \<noteq> []" using d(1) by simp_all
    with assms(2) d(3) show False by (auto simp: plain_comp_def)
  qed
  with d clean_listI [of "us @ [''..'']" "[]" False] show ?thesis by simp
qed

lemma clean_comps_clean_list:
  assumes "clean_list rooted (rev st)" "\<forall>x \<in> set xs. slash \<notin> set x"
  shows "clean_list rooted (clean_comps rooted st xs)"
  using assms
proof (induction rooted st xs rule: clean_comps.induct)
  case (1 rooted st)
  then show ?case by simp
next
  case (2 rooted st x xs)
  have pop: "clean_list rooted (rev (tl st))" if "st \<noteq> []"
    using 2(6) that clean_list_butlast by (cases st) auto
  have up: "clean_list rooted (rev st @ [''..''])" if "\<not> rooted" "st \<noteq> [] \<longrightarrow> hd st = ''..''"
    using clean_list_snoc_up [of "rev st"] 2(6) that by (auto simp: last_rev)
  have push: "clean_list rooted (rev st @ [x])" if "x \<noteq> []" "x \<noteq> ''.''" "x \<noteq> ''..''"
    using clean_list_snoc_plain [OF 2(6)] that 2(7) by (simp add: plain_comp_def)
  consider "x = [] \<or> x = ''.''" | "x = ''..''" "st \<noteq> []" "hd st \<noteq> ''..''"
    | "x = ''..''" "st = [] \<or> hd st = ''..''" rooted
    | "x = ''..''" "st = [] \<or> hd st = ''..''" "\<not> rooted"
    | "x \<noteq> []" "x \<noteq> ''.''" "x \<noteq> ''..''"
    by blast
  then show ?case
  proof cases
    case 1
    then show ?thesis using 2(1,6,7) by auto
  next
    case 3
    then show ?thesis using 2(3,6,7) by auto
  next
    case 4
    then show ?thesis using 2(4,7) up by auto
  next
    case 5
    then show ?thesis using 2(5,7) push by auto
  next
    case _: 2
    then show ?thesis using 2(2,7) pop by auto
  qed
qed

lemma clean_comps_ups:
  "\<forall>u \<in> set us. u = ''..'' \<Longrightarrow> st = [] \<or> hd st = ''..'' \<Longrightarrow>
   clean_comps False st (us @ xs) = clean_comps False (rev us @ st) xs"
  by (induction us arbitrary: st) auto

lemma clean_comps_plain:
  "\<forall>p \<in> set ps. plain_comp p \<Longrightarrow> clean_comps rooted st (ps @ xs) = clean_comps rooted (rev ps @ st) xs"
  by (induction ps arbitrary: st) (auto simp: plain_comp_def)

text \<open>A clean list of components is a fixed point.\<close>

lemma clean_comps_id:
  assumes "clean_list rooted xs"
  shows "clean_comps rooted [] xs = xs"
proof -
  obtain us ps where d: "xs = us @ ps" "\<forall>u \<in> set us. u = ''..''" "\<forall>p \<in> set ps. plain_comp p"
      "rooted \<longrightarrow> us = []"
    using assms by (auto simp: clean_list_def)
  show ?thesis
    using d clean_comps_plain [of ps rooted "rev us" "[]"] clean_comps_ups [of us "[]" ps]
    by (cases rooted) auto
qed

lemma clean_list_no_slash: "clean_list rooted xs \<Longrightarrow> x \<in> set xs \<Longrightarrow> slash \<notin> set x \<and> x \<noteq> []"
  by (fastforce simp: clean_list_def plain_comp_def)

lemma join_not_Nil: "xs \<noteq> [] \<Longrightarrow> \<forall>x \<in> set xs. x \<noteq> [] \<Longrightarrow> join xs sep \<noteq> []"
  by (cases xs; cases "tl xs") auto

lemma hd_join: "xs \<noteq> [] \<Longrightarrow> hd xs \<noteq> [] \<Longrightarrow> hd (join xs sep) = hd (hd xs)"
  by (cases xs; cases "tl xs") auto

text \<open>Cleaning what \<open>render\<close> wrote gives it back: \<open>Clean\<close> is idempotent.\<close>

lemma clean_render:
  assumes "clean_list rooted xs"
  shows "clean (render rooted xs) = render rooted xs"
proof (cases "xs = []")
  case True
  then show ?thesis
    by (cases rooted) (simp_all add: render_def clean_def is_rooted_def)
next
  case False
  have ns: "\<forall>x \<in> set xs. slash \<notin> set x" and ne: "\<forall>x \<in> set xs. x \<noteq> []"
    using clean_list_no_slash [OF assms] by blast+
  have hd_ns: "hd (join xs [slash]) \<noteq> slash"
    using False ns ne by (metis hd_in_set hd_join)
  have jn: "join xs [slash] \<noteq> []"
    using False ne by (rule join_not_Nil)
  have sp: "split_slash (join xs [slash]) = xs"
    using False ns by (rule split_slash_join)
  show ?thesis
    using hd_ns jn sp clean_comps_id [OF assms]
    by (cases rooted) (auto simp: clean_def render_def is_rooted_def)
qed

lemma clean_list_clean:
  "clean_list (is_rooted p) (clean_comps (is_rooted p) [] (split_slash p))"
  by (rule clean_comps_clean_list) (auto dest: split_slash_no_slash)

lemma clean_idem: "clean (clean p) = clean p"
  using clean_render [OF clean_list_clean, of p] by (simp add: clean_def)

section \<open>Join, Base, Dir, Ext\<close>

definition path_join :: "string \<Rightarrow> string \<Rightarrow> string" where
  "path_join d x =
     (if d \<noteq> [] then clean (d @ slash # x) else if x \<noteq> [] then clean x else [])"

definition path_dir :: "string \<Rightarrow> string" where
  "path_dir p = clean (rev (dropWhile (\<lambda>c. c \<noteq> slash) (rev p)))"

definition path_base :: "string \<Rightarrow> string" where
  "path_base p =
     (if p = [] then ''.''
      else let q = rev (takeWhile (\<lambda>c. c \<noteq> slash) (dropWhile (\<lambda>c. c = slash) (rev p)))
           in if q = [] then ''/'' else q)"

definition path_ext :: "string \<Rightarrow> string" where
  "path_ext p =
     (let q = rev (takeWhile (\<lambda>c. c \<noteq> slash) (rev p))
      in if dot \<in> set q then dot # rev (takeWhile (\<lambda>c. c \<noteq> dot) (rev q)) else [])"

lemma path_base_no_slash: "slash \<notin> set (path_base p) \<or> path_base p = ''/''"
  by (auto simp: path_base_def Let_def dest: set_takeWhileD)

lemma path_ext_no_slash: "slash \<notin> set (path_ext p)"
  by (auto simp: path_ext_def Let_def dest!: set_takeWhileD)

lemma rev_takeWhile_suffix: "suffix (rev (takeWhile P (rev p))) p"
  by (metis rev_rev_ident suffix_to_prefix takeWhile_is_prefix)

lemma split_at_last: "x \<in> set q \<Longrightarrow> \<exists>zs. q = zs @ x # rev (takeWhile (\<lambda>c. c \<noteq> x) (rev q))"
  by (drule split_list_last) (auto simp: takeWhile_stop)

lemma path_ext_suffix: "suffix (path_ext p) p"
proof -
  let ?q = "rev (takeWhile (\<lambda>c. c \<noteq> slash) (rev p))"
  have q: "suffix ?q p" by (rule rev_takeWhile_suffix)
  show ?thesis
  proof (cases "dot \<in> set ?q")
    case False
    then show ?thesis by (auto simp: path_ext_def Let_def)
  next
    case True
    then obtain zs where "?q = zs @ dot # rev (takeWhile (\<lambda>c. c \<noteq> dot) (rev ?q))"
      using split_at_last by metis
    then have "suffix (dot # rev (takeWhile (\<lambda>c. c \<noteq> dot) (rev ?q))) ?q"
      unfolding suffix_def by blast
    with q True show ?thesis
      by (auto simp: path_ext_def Let_def intro: suffix_order.trans)
  qed
qed

lemma clean_comps_snoc:
  assumes "plain_comp x"
  shows "clean_comps rooted st (xs @ [x]) = clean_comps rooted st xs @ [x]"
  using assms
  by (induction rooted st xs rule: clean_comps.induct) (auto simp: plain_comp_def)

lemma split_slash_snoc: "slash \<notin> set x \<Longrightarrow> split_slash (p @ slash # x) = split_slash p @ [x]"
  by (induction p) (auto simp: split_slash_word split: list.splits)

text \<open>Joining a directory and a normal file name puts the name last.\<close>

lemma path_join_plain:
  assumes "d \<noteq> []" "plain_comp x"
  shows "path_join d x =
    render (is_rooted d) (clean_comps (is_rooted d) [] (split_slash d) @ [x])"
proof -
  have r: "is_rooted (d @ slash # x) = is_rooted d"
    using assms(1) by (cases d) (simp_all add: is_rooted_def)
  have s: "split_slash (d @ slash # x) = split_slash d @ [x]"
    using assms(2) by (simp add: split_slash_snoc plain_comp_def)
  show ?thesis
    using assms by (simp add: path_join_def clean_def r s clean_comps_snoc)
qed

lemma join_snoc: "xs \<noteq> [] \<Longrightarrow> join (xs @ [x]) sep = join xs sep @ sep @ x"
  by (induction xs rule: induct_list012) auto

lemma render_snoc:
  "x \<noteq> [] \<Longrightarrow> \<exists>p. render rooted (xs @ [x]) = p @ x \<and> (p = [] \<or> last p = slash)"
  by (cases "xs = []"; cases rooted) (auto simp: render_def Let_def join_snoc)

lemma render_snoc_append:
  assumes "x \<noteq> []"
  shows "render rooted (xs @ [x]) @ y = render rooted (xs @ [x @ y])"
  using assms by (cases "xs = []"; cases rooted) (auto simp: render_def Let_def join_snoc)

lemma path_base_snoc:
  assumes "slash \<notin> set x" "x \<noteq> []" "p = [] \<or> last p = slash"
  shows "path_base (p @ x) = x"
proof -
  have 1: "dropWhile (\<lambda>c. c = slash) (rev x @ rev p) = rev x @ rev p"
    using assms(1,2) by (cases x rule: rev_cases) auto
  have 2: "takeWhile (\<lambda>c. c \<noteq> slash) (rev x @ rev p) = rev x"
    using assms(1,3) takeWhile_stop [of slash "rev x"]
    by (cases p rule: rev_cases) (auto simp: takeWhile_all_iff)
  show ?thesis
    using assms(2) by (simp add: path_base_def 1 2)
qed

lemma path_base_join:
  assumes "d \<noteq> []" "plain_comp x"
  shows "path_base (path_join d x) = x"
proof -
  have "x \<noteq> []" "slash \<notin> set x" using assms(2) by (simp_all add: plain_comp_def)
  moreover obtain p where "path_join d x = p @ x" "p = [] \<or> last p = slash"
    using render_snoc [OF \<open>x \<noteq> []\<close>] path_join_plain [OF assms] by metis
  ultimately show ?thesis
    using path_base_snoc by simp
qed

lemma path_join_clean: "clean (path_join d x) = path_join d x"
  if "d \<noteq> [] \<or> x \<noteq> []"
  using that by (simp add: path_join_def clean_idem)

end
