(* ===== verification/Run_Capture.thy ===== *)
theory Run_Capture
  imports Capture_Order Go_Paths
begin

text \<open>
  How a run's capture file comes to be: \<^verbatim>\<open>NewWriter\<close>, \<^verbatim>\<open>splitTemplate\<close> and
  \<^verbatim>\<open>CreateRunCapture\<close> of \<^verbatim>\<open>internal/capture/pcapng.go\<close>, over a file system that maps
  names to entries. Files are created with \<^verbatim>\<open>O_CREAT|O_EXCL\<close>, so an entry that is there is
  never touched.
\<close>

section \<open>The file system\<close>

text \<open>
  An entry is a regular file, with its size and modification time, or something else (a
  directory, a symbolic link, a socket). The directories \<^verbatim>\<open>MkdirAll\<close> makes are not tracked.
\<close>

datatype fnode = Regular nat time | NotRegular

type_synonym filesystem = "string \<rightharpoonup> fnode"
type_synonym fault = "string \<Rightarrow> errno option"

definition open_excl :: "fault \<Rightarrow> time \<Rightarrow> string \<Rightarrow> filesystem \<Rightarrow> errno option \<times> filesystem" where
  "open_excl flt now path fs =
     (case flt path of
        Some e \<Rightarrow> (Some e, fs)
      | None \<Rightarrow> if fs path \<noteq> None then (Some EEXIST, fs) else (None, fs(path \<mapsto> Regular 0 now)))"

definition os_remove :: "fault \<Rightarrow> string \<Rightarrow> filesystem \<Rightarrow> errno option \<times> filesystem" where
  "os_remove flt path fs =
     (if fs path = None then (Some ENOENT, fs)
      else case flt path of Some e \<Rightarrow> (Some e, fs) | None \<Rightarrow> (None, fs(path := None)))"

lemma open_excl_keeps: "fs p \<noteq> None \<Longrightarrow> snd (open_excl flt now path fs) p = fs p"
  by (auto simp: open_excl_def split: option.splits)

lemma os_remove_other [simp]: "p \<noteq> path \<Longrightarrow> snd (os_remove flt path fs) p = fs p"
  by (auto simp: os_remove_def split: option.splits)

section \<open>Creating a capture\<close>

text \<open>The names a run's capture is built from.\<close>

definition splitTemplate :: "string \<Rightarrow> string \<times> string \<times> string" where
  "splitTemplate template =
     (let base = path_base template; ext = path_ext base
      in (path_dir template, trim_suffix base ext, ext))"

text \<open>What the world answers while a capture is created: the operating system per path, the
  encoder for its header.\<close>

record create_env =
  mkdir_fault :: fault
  open_fault :: fault
  ng_new_err :: "string \<Rightarrow> nat option"
  ng_flush_err :: "string \<Rightarrow> nat option"
  created_at :: time

datatype create_error =
    MkdirError errno
  | OpenError string errno
  | NgCreateError nat
  | NgHeaderError nat
  | NoFreeName string

text \<open>\<^verbatim>\<open>errors.Is(err, fs.ErrExist)\<close>.\<close>

fun is_exist :: "create_error \<Rightarrow> bool" where
  "is_exist (MkdirError e) = (e = EEXIST)"
| "is_exist (OpenError _ e) = (e = EEXIST)"
| "is_exist _ = False"

definition NewWriter ::
  "create_env \<Rightarrow> (nat \<Rightarrow> nat) \<Rightarrow> string \<Rightarrow> options \<Rightarrow> filesystem \<Rightarrow> (create_error + cwriter) \<times> filesystem" where
  "NewWriter env hdr path opts fs =
     (case mkdir_fault env (path_dir path) of
        Some e \<Rightarrow> (Inl (MkdirError e), fs)
      | None \<Rightarrow>
          (case open_excl (open_fault env) (created_at env) path fs of
             (Some e, fs1) \<Rightarrow> (Inl (OpenError path e), fs1)
           | (None, fs1) \<Rightarrow>
               (case ng_new_err env path of
                  Some e \<Rightarrow> (Inl (NgCreateError e), fs1)
                | None \<Rightarrow>
                    (case ng_flush_err env path of
                       Some e \<Rightarrow> (Inl (NgHeaderError e), fs1)
                     | None \<Rightarrow> (Inr (new_writer hdr path opts), fs1)))))"

definition maxRunSuffix :: nat where "maxRunSuffix = 999"

definition run_path :: "string \<Rightarrow> string \<Rightarrow> nat \<Rightarrow> string" where
  "run_path base ext n = (if n > 0 then base @ ''-'' @ utoa n @ ext else base @ ext)"

fun try_names ::
  "create_env \<Rightarrow> (nat \<Rightarrow> nat) \<Rightarrow> string \<Rightarrow> string \<Rightarrow> options \<Rightarrow> nat list \<Rightarrow> filesystem \<Rightarrow> (create_error + cwriter) \<times> filesystem" where
  "try_names env hdr base ext opts [] fs = (Inl (NoFreeName base), fs)"
| "try_names env hdr base ext opts (n # ns) fs =
     (case NewWriter env hdr (run_path base ext n) opts fs of
        (Inl e, fs1) \<Rightarrow> if is_exist e then try_names env hdr base ext opts ns fs1 else (Inl e, fs1)
      | (Inr w, fs1) \<Rightarrow> (Inr w, fs1))"

definition CreateRunCapture ::
  "create_env \<Rightarrow> (nat \<Rightarrow> nat) \<Rightarrow> time \<Rightarrow> string \<Rightarrow> options \<Rightarrow> filesystem \<Rightarrow> (create_error + cwriter) \<times> filesystem" where
  "CreateRunCapture env hdr now template opts fs =
     (let (dir, stem, ext) = splitTemplate template;
          base = path_join dir (stem @ ''-'' @ itoa (time_unix now))
      in try_names env hdr base ext opts [0..<Suc maxRunSuffix] fs)"

section \<open>Nothing is overwritten\<close>

lemma NewWriter_cases:
  obtains (failed) e where "NewWriter env hdr path opts fs = (Inl e, fs)"
    | (header) e where "NewWriter env hdr path opts fs = (Inl e, fs(path \<mapsto> Regular 0 (created_at env)))"
      "fs path = None" "\<not> is_exist e" "ng_new_err env path \<noteq> None \<or> ng_flush_err env path \<noteq> None"
    | (created) "NewWriter env hdr path opts fs = (Inr (new_writer hdr path opts), fs(path \<mapsto> Regular 0 (created_at env)))"
      "fs path = None"
  by (cases "fs path"; cases "mkdir_fault env (path_dir path)"; cases "open_fault env path";
      cases "ng_new_err env path"; cases "ng_flush_err env path")
    (auto simp: NewWriter_def open_excl_def)

lemma try_names_result:
  "(\<exists>e. try_names env hdr base ext opts ns fs = (Inl e, fs))
   \<or> (\<exists>r n. n \<in> set ns \<and> fs (run_path base ext n) = None
        \<and> try_names env hdr base ext opts ns fs = (r, fs(run_path base ext n \<mapsto> Regular 0 (created_at env)))
        \<and> (\<forall>w. r = Inr w \<longrightarrow> w = new_writer hdr (run_path base ext n) opts))"
proof (induction ns)
  case (Cons n ns)
  show ?case
  proof (cases rule: NewWriter_cases [where env = env and hdr = hdr and path = "run_path base ext n" and opts = opts and fs = fs])
    case (failed e)
    then show ?thesis
    proof (cases "is_exist e")
      case True
      with failed Cons.IH show ?thesis by fastforce
    qed simp
  next
    case (header e)
    then show ?thesis by (intro disjI2 exI [of _ "Inl e"] exI [of _ n]) (simp add: fun_upd_def)
  next
    case created
    then show ?thesis by (intro disjI2 exI [of _ "Inr (new_writer hdr (run_path base ext n) opts)"] exI [of _ n]) (simp add: fun_upd_def)
  qed
qed simp

text \<open>With no faults the lowest free suffix is taken, and there is one unless all are.\<close>

definition no_faults :: "create_env \<Rightarrow> bool" where
  "no_faults env \<longleftrightarrow> (\<forall>p. mkdir_fault env p = None \<and> open_fault env p = None
     \<and> ng_new_err env p = None \<and> ng_flush_err env p = None)"

lemma NewWriter_no_faults:
  "no_faults env \<Longrightarrow> NewWriter env hdr path opts fs =
     (if fs path = None then (Inr (new_writer hdr path opts), fs(path \<mapsto> Regular 0 (created_at env)))
      else (Inl (OpenError path EEXIST), fs))"
  by (simp add: NewWriter_def open_excl_def no_faults_def)

lemma try_names_lowest:
  assumes "no_faults env" "ns = ms @ n # ks" "\<forall>m \<in> set ms. fs (run_path base ext m) \<noteq> None"
    "fs (run_path base ext n) = None"
  shows "try_names env hdr base ext opts ns fs =
    (Inr (new_writer hdr (run_path base ext n) opts), fs(run_path base ext n \<mapsto> Regular 0 (created_at env)))"
  using assms(2-4) by (induction ms arbitrary: ns) (auto simp: NewWriter_no_faults [OF assms(1)])

lemma try_names_full:
  assumes "no_faults env" "\<forall>m \<in> set ns. fs (run_path base ext m) \<noteq> None"
  shows "try_names env hdr base ext opts ns fs = (Inl (NoFreeName base), fs)"
  using assms(2) by (induction ns) (auto simp: NewWriter_no_faults [OF assms(1)])

lemma upto_split: "n < m \<Longrightarrow> [0..<m] = [0..<n] @ n # [Suc n..<m]"
  using upt_add_eq_append [of 0 n "m - n"] by (simp add: upt_conv_Cons)

section \<open>The name of a run\<close>

text \<open>The file name of a run's capture, and what its path is.\<close>

definition run_name :: "string \<Rightarrow> string \<Rightarrow> string \<Rightarrow> nat \<Rightarrow> string" where
  "run_name stem ext epoch n = stem @ ''-'' @ epoch @ (if n > 0 then ''-'' @ utoa n else []) @ ext"

lemma clean_not_Nil: "clean p \<noteq> []"
  by (simp add: clean_def render_def Let_def)

lemma path_dir_not_Nil: "path_dir p \<noteq> []"
  by (simp add: path_dir_def clean_not_Nil)

lemma dash_plain: "slash \<notin> set s \<Longrightarrow> CHR ''-'' \<in> set s \<Longrightarrow> plain_comp s"
  by (auto simp: plain_comp_def)

lemma digits_no_slash: "all_digits s \<Longrightarrow> slash \<notin> set s"
  by (auto simp: all_digits_def is_digit_def)

lemma run_path_name:
  assumes "d \<noteq> []" "slash \<notin> set stem" "slash \<notin> set ext" "all_digits epoch"
  shows "run_path (path_join d (stem @ ''-'' @ epoch)) ext n = path_join d (run_name stem ext epoch n)"
proof -
  note no_slash = assms(2,3) digits_no_slash [OF assms(4)] digits_no_slash [OF all_digits_utoa [of n]]
  have short: "plain_comp (stem @ ''-'' @ epoch)" and full: "plain_comp (run_name stem ext epoch n)"
    using no_slash by (auto intro!: dash_plain simp: run_name_def)
  show ?thesis
    unfolding path_join_plain [OF assms(1) short] path_join_plain [OF assms(1) full]
    by (simp add: run_path_def run_name_def render_snoc_append)
qed

text \<open>Templates whose base name is a name, not the root.\<close>

definition file_template :: "string \<Rightarrow> bool" where
  "file_template template \<longleftrightarrow> path_base template \<noteq> ''/''"

lemma splitTemplate_parts:
  assumes "file_template template" "splitTemplate template = (dir, stem, ext)"
  shows "dir = path_dir template" "slash \<notin> set stem" "slash \<notin> set ext" "stem @ ext = path_base template"
proof -
  have base: "slash \<notin> set (path_base template)"
    using assms(1) path_base_no_slash [of template] by (auto simp: file_template_def)
  obtain zs where zs: "path_base template = zs @ path_ext (path_base template)"
    using path_ext_suffix [of "path_base template"] by (auto simp: suffix_def)
  have "stem = zs" "ext = path_ext (path_base template)" "dir = path_dir template"
    using assms(2) zs trim_suffix_append [of zs "path_ext (path_base template)"]
    by (auto simp: splitTemplate_def Let_def)
  then show "dir = path_dir template" "slash \<notin> set stem" "slash \<notin> set ext" "stem @ ext = path_base template"
    using base zs path_ext_no_slash by (auto, metis UnI1 set_append)
qed

text \<open>The path of the \<open>n\<close>th name a run started at \<open>now\<close> tries.\<close>

definition run_capture_path :: "time \<Rightarrow> string \<Rightarrow> nat \<Rightarrow> string" where
  "run_capture_path now template n =
     (case splitTemplate template of (dir, stem, ext) \<Rightarrow>
        path_join dir (run_name stem ext (itoa (time_unix now)) n))"

lemma CreateRunCapture_try_names:
  assumes "file_template template" "0 \<le> time_unix now"
  obtains base ext where "\<And>n. run_path base ext n = run_capture_path now template n"
    "\<And>env hdr opts fs. CreateRunCapture env hdr now template opts fs =
       try_names env hdr base ext opts [0..<Suc maxRunSuffix] fs"
proof -
  obtain dir stem ext where t: "splitTemplate template = (dir, stem, ext)"
    using prod_cases3 by blast
  note parts = splitTemplate_parts [OF assms(1) t]
  have "run_path (path_join dir (stem @ ''-'' @ itoa (time_unix now))) ext n = run_capture_path now template n" for n
    unfolding run_capture_path_def t prod.case
    using parts assms(2) by (intro run_path_name) (auto simp: path_dir_not_Nil all_digits_itoa)
  then show thesis
    by (rule that) (simp only: CreateRunCapture_def t prod.case Let_def)
qed

lemma CreateRunCapture_cases:
  assumes "file_template template" "0 \<le> time_unix now"
  obtains (untouched) e where "CreateRunCapture env hdr now template opts fs = (Inl e, fs)"
    | (created) r n where "n \<le> maxRunSuffix" "fs (run_capture_path now template n) = None"
      "CreateRunCapture env hdr now template opts fs =
        (r, fs(run_capture_path now template n \<mapsto> Regular 0 (created_at env)))"
      "\<And>w. r = Inr w \<Longrightarrow> w = new_writer hdr (run_capture_path now template n) opts"
proof -
  obtain base ext where be: "\<And>n. run_path base ext n = run_capture_path now template n"
    "\<And>env hdr opts fs. CreateRunCapture env hdr now template opts fs =
       try_names env hdr base ext opts [0..<Suc maxRunSuffix] fs"
    using CreateRunCapture_try_names [OF assms] by blast
  from try_names_result [of env hdr base ext opts "[0..<Suc maxRunSuffix]" fs]
  show thesis
  proof (elim disjE exE conjE)
    fix e assume "try_names env hdr base ext opts [0..<Suc maxRunSuffix] fs = (Inl e, fs)"
    then show thesis by (intro untouched) (simp only: be)
  next
    fix r n
    assume "n \<in> set [0..<Suc maxRunSuffix]" "fs (run_path base ext n) = None"
      "try_names env hdr base ext opts [0..<Suc maxRunSuffix] fs =
        (r, fs(run_path base ext n \<mapsto> Regular 0 (created_at env)))"
      "\<forall>w. r = Inr w \<longrightarrow> w = new_writer hdr (run_path base ext n) opts"
    then show thesis unfolding be by (intro created [of n r]) (simp_all only: be, auto)
  qed
qed

lemma CreateRunCapture_lowest:
  assumes "file_template template" "0 \<le> time_unix now" "no_faults env" "n \<le> maxRunSuffix"
    "\<forall>m < n. fs (run_capture_path now template m) \<noteq> None" "fs (run_capture_path now template n) = None"
  shows "CreateRunCapture env hdr now template opts fs =
    (Inr (new_writer hdr (run_capture_path now template n) opts),
     fs(run_capture_path now template n \<mapsto> Regular 0 (created_at env)))"
proof -
  obtain base ext where be: "\<And>n. run_path base ext n = run_capture_path now template n"
    "\<And>env hdr opts fs. CreateRunCapture env hdr now template opts fs =
       try_names env hdr base ext opts [0..<Suc maxRunSuffix] fs"
    using CreateRunCapture_try_names [OF assms(1,2)] by blast
  have "[0..<Suc maxRunSuffix] = [0..<n] @ n # [Suc n..<Suc maxRunSuffix]"
    using assms(4) by (intro upto_split) simp
  from try_names_lowest [OF assms(3) this, of fs base ext hdr opts] show ?thesis
    using assms(5,6) unfolding be by simp
qed

lemma CreateRunCapture_full:
  assumes "file_template template" "0 \<le> time_unix now" "no_faults env"
    "\<forall>m \<le> maxRunSuffix. fs (run_capture_path now template m) \<noteq> None"
  shows "\<exists>base. CreateRunCapture env hdr now template opts fs = (Inl (NoFreeName base), fs)"
proof -
  obtain base ext where be: "\<And>n. run_path base ext n = run_capture_path now template n"
    "\<And>env hdr opts fs. CreateRunCapture env hdr now template opts fs =
       try_names env hdr base ext opts [0..<Suc maxRunSuffix] fs"
    using CreateRunCapture_try_names [OF assms(1,2)] by blast
  from try_names_full [OF assms(3), of "[0..<Suc maxRunSuffix]" fs base ext hdr opts] show ?thesis
    using assms(4) unfolding be by auto
qed

section \<open>Properties\<close>

text \<open>
  C28: creating a run's capture overwrites nothing. Whatever the operating system and the
  encoder answer, every entry that was there is there unchanged, whatever its kind; and the
  file a run captures into did not exist before.
\<close>

theorem run_capture_overwrites_nothing:
  assumes "CreateRunCapture env hdr now template opts fs = (r, fs')"
  shows "(fs p \<noteq> None \<longrightarrow> fs' p = fs p) \<and> (r = Inr w \<longrightarrow> fs (w_path w) = None \<and> fs' (w_path w) \<noteq> None)"
proof -
  obtain dir stem ext where t: "splitTemplate template = (dir, stem, ext)" using prod_cases3 by blast
  define base where "base = path_join dir (stem @ ''-'' @ itoa (time_unix now))"
  have c: "CreateRunCapture env hdr now template opts fs = try_names env hdr base ext opts [0..<Suc maxRunSuffix] fs"
    by (simp only: CreateRunCapture_def t prod.case Let_def base_def)
  from try_names_result [of env hdr base ext opts "[0..<Suc maxRunSuffix]" fs] show ?thesis
  proof (elim disjE exE conjE)
    fix e assume "try_names env hdr base ext opts [0..<Suc maxRunSuffix] fs = (Inl e, fs)"
    then have "(Inl e, fs) = (r, fs')" using assms c by (simp only:)
    then show ?thesis by auto
  next
    fix r' n
    assume n: "fs (run_path base ext n) = None"
      "try_names env hdr base ext opts [0..<Suc maxRunSuffix] fs = (r', fs(run_path base ext n \<mapsto> Regular 0 (created_at env)))"
      "\<forall>w. r' = Inr w \<longrightarrow> w = new_writer hdr (run_path base ext n) opts"
    have "(r', fs(run_path base ext n \<mapsto> Regular 0 (created_at env))) = (r, fs')"
      using assms unfolding c n(2) .
    then have r: "r' = r" and fs': "fs' = fs(run_path base ext n \<mapsto> Regular 0 (created_at env))"
      by (simp_all only: prod.inject)
    have "w_path w = run_path base ext n" if "r = Inr w"
      using n(3) that unfolding r by (simp add: new_writer_def)
    then show ?thesis using n(1) unfolding fs' by (cases "p = run_path base ext n") simp_all
  qed
qed

definition sample_env :: create_env where
  "sample_env = \<lparr>mkdir_fault = (\<lambda>_. None), open_fault = (\<lambda>_. None), ng_new_err = (\<lambda>_. None), ng_flush_err = (\<lambda>_. None), created_at = 5\<rparr>"

definition sample_now :: time where "sample_now = 62135596800 * 1000000000"

definition sample_fs :: filesystem where
  "sample_fs = [run_capture_path sample_now ''/v/d.p'' 0 \<mapsto> NotRegular]"

lemma no_faults_sample: "no_faults sample_env"
  by (simp add: no_faults_def sample_env_def)

lemma run_capture_overwrites_nothing_witness:
  "snd (CreateRunCapture sample_env (\<lambda>_. 100) sample_now ''/v/d.p'' sample_options sample_fs) (run_capture_path sample_now ''/v/d.p'' 0)
     = Some NotRegular"
proof -
  let ?c = "CreateRunCapture sample_env (\<lambda>_. 100) sample_now ''/v/d.p'' sample_options sample_fs"
  have "?c = (fst ?c, snd ?c)" by simp
  from run_capture_overwrites_nothing [OF this, of "run_capture_path sample_now ''/v/d.p'' 0"] show ?thesis
    by (simp add: sample_fs_def)
qed

text \<open>
  The name of a run. When nothing fails, a run is given the first free of the names
  \<^verbatim>\<open>stem-epoch.ext\<close>, \<^verbatim>\<open>stem-epoch-1.ext\<close> up to \<^verbatim>\<open>stem-epoch-999.ext\<close> in the template's
  directory, and fails, creating nothing, only when all thousand are taken.
\<close>

theorem run_capture_takes_first_free_name:
  assumes "file_template template" "0 \<le> time_unix now" "no_faults env"
  shows "(n \<le> 999 \<and> (\<forall>m < n. fs (run_capture_path now template m) \<noteq> None) \<and> fs (run_capture_path now template n) = None
      \<longrightarrow> fst (CreateRunCapture env hdr now template opts fs) = Inr (new_writer hdr (run_capture_path now template n) opts))
    \<and> ((\<forall>m \<le> 999. fs (run_capture_path now template m) \<noteq> None)
      \<longrightarrow> (\<exists>base. CreateRunCapture env hdr now template opts fs = (Inl (NoFreeName base), fs)))"
  using CreateRunCapture_lowest [OF assms, of n fs hdr opts] CreateRunCapture_full [OF assms, of fs hdr opts]
  by (simp add: maxRunSuffix_def)

lemma sample_template: "file_template ''/v/d.p''" "0 \<le> time_unix sample_now"
  by (code_simp, simp add: time_unix_def sample_now_def unix_epoch_seconds_def ns_second_def)

lemma run_capture_path_1: "run_capture_path sample_now ''/v/d.p'' 1 \<noteq> run_capture_path sample_now ''/v/d.p'' 0"
  by code_simp

lemma run_capture_takes_first_free_name_witness:
  "fst (CreateRunCapture sample_env (\<lambda>_. 100) sample_now ''/v/d.p'' sample_options sample_fs)
     = Inr (new_writer (\<lambda>_. 100) (run_capture_path sample_now ''/v/d.p'' 1) sample_options)"
  using conjunct1 [OF run_capture_takes_first_free_name [OF sample_template no_faults_sample, of 1 sample_fs "\<lambda>_. 100" sample_options]]
    run_capture_path_1
  by (simp add: sample_fs_def)

lemma sample_capture_created:
  "\<exists>w fs'. CreateRunCapture sample_env (\<lambda>_. 100) sample_now ''/v/d.p'' sample_options sample_fs = (Inr w, fs')"
  using CreateRunCapture_lowest [OF sample_template no_faults_sample, of 1 sample_fs "\<lambda>_. 100" sample_options] run_capture_path_1
  by (simp add: sample_fs_def maxRunSuffix_def)

end
