(* ===== verification/Retention.thy ===== *)
theory Retention
  imports Run_Capture
begin

text \<open>
  \<^verbatim>\<open>internal/capture/retention.go\<close>: which entries of the capture directory the sidecar
  owns, what they leave of \<^verbatim>\<open>MaxBytes\<close> for this run, the age pass, and the teardown. An entry
  is owned when its name is one \<open>CreateRunCapture\<close> gives; nothing else is ever counted or
  deleted.
\<close>

unbundle bit_operations_syntax

section \<open>Data\<close>

record retention =
  Template :: string
  Run :: string
  MaxBytes :: int
  MaxAge :: duration
  Retain :: bool

record retention_file =
  rf_path :: string
  rf_size :: int
  rf_modTime :: time

text \<open>
  What reading the directory gave: an error, or its entries, each with what \<^verbatim>\<open>Info\<close> said of
  it when asked (\<open>None\<close>: gone since, or an error).
\<close>

type_synonym listing = "errno + (string \<times> fnode option) list"

section \<open>Operations\<close>

datatype target_error = StatError errno | WorldAccessible nat

text \<open>\<open>st\<close> is what \<^verbatim>\<open>os.Stat\<close> gave: an error or the permission bits. The mask is \<^verbatim>\<open>0o077\<close>.\<close>

definition CheckTarget :: "errno + nat \<Rightarrow> target_error option" where
  "CheckTarget st =
     (case st of
        Inl e \<Rightarrow> if e = ENOENT then None else Some (StatError e)
      | Inr perm \<Rightarrow> if perm AND 63 \<noteq> 0 then Some (WorldAccessible perm) else None)"

text \<open>
  The regular expression \<^verbatim>\<open>^stem-[0-9]+(-[0-9]+)?ext$\<close>, with the stem and extension quoted.
\<close>

definition owned :: "string \<Rightarrow> string \<Rightarrow> string \<Rightarrow> bool" where
  "owned stem ext name \<longleftrightarrow>
     prefix (stem @ ''-'') name \<and>
     (let r = drop (length stem + 1) name in
      suffix ext r \<and>
      (let m = take (length r - length ext) r; ds = dropWhile is_digit m in
       takeWhile is_digit m \<noteq> [] \<and> (ds = [] \<or> (hd ds = CHR ''-'' \<and> all_digits (tl ds)))))"

definition finished_entry :: "retention \<Rightarrow> string \<Rightarrow> string \<Rightarrow> string \<Rightarrow> string \<times> fnode option \<Rightarrow> retention_file option" where
  "finished_entry r dir stem ext e =
     (let path = path_join dir (fst e) in
      if \<not> owned stem ext (fst e) \<or> path = clean (Run r) then None
      else (case snd e of
              Some (Regular bytes mtime) \<Rightarrow> Some \<lparr>rf_path = path, rf_size = int bytes, rf_modTime = mtime\<rparr>
            | _ \<Rightarrow> None))"

definition finished :: "retention \<Rightarrow> listing \<Rightarrow> errno + retention_file list" where
  "finished r lst =
     (let (dir, stem, ext) = splitTemplate (Template r) in
      case lst of
        Inl e \<Rightarrow> if e = ENOENT then Inr [] else Inl e
      | Inr es \<Rightarrow> Inr (List.map_filter (finished_entry r dir stem ext) es))"

definition OwnedBytes :: "retention \<Rightarrow> listing \<Rightarrow> int \<times> errno option" where
  "OwnedBytes r lst =
     (case finished r lst of
        Inl e \<Rightarrow> (0, Some e)
      | Inr fls \<Rightarrow> (fold (\<lambda>f total. i64 (total + rf_size f)) fls 0, None))"

definition RetentionRoom :: "retention \<Rightarrow> listing \<Rightarrow> int \<times> errno option" where
  "RetentionRoom r lst =
     (if MaxBytes r \<le> 0 then (0, None)
      else let (total, err) = OwnedBytes r lst in (i64 (MaxBytes r - total), err))"

fun remove_expired ::
  "fault \<Rightarrow> time \<Rightarrow> duration \<Rightarrow> retention_file list \<Rightarrow> filesystem \<Rightarrow> errno list \<times> filesystem" where
  "remove_expired flt now age [] fs = ([], fs)"
| "remove_expired flt now age (f # fls) fs =
     (if time_sub now (rf_modTime f) \<le> age then remove_expired flt now age fls fs
      else let (err, fs1) = os_remove flt (rf_path f) fs;
               (errs, fs2) = remove_expired flt now age fls fs1
           in (errors_join [if err = Some ENOENT then None else err] @ errs, fs2))"

definition Enforce :: "fault \<Rightarrow> time \<Rightarrow> retention \<Rightarrow> listing \<Rightarrow> filesystem \<Rightarrow> errno list \<times> filesystem" where
  "Enforce flt now r lst fs =
     (if MaxAge r \<le> 0 then ([], fs)
      else case finished r lst of
        Inl e \<Rightarrow> ([e], fs)
      | Inr fls \<Rightarrow> remove_expired flt now (MaxAge r) fls fs)"

definition Cleanup :: "fault \<Rightarrow> retention \<Rightarrow> filesystem \<Rightarrow> errno option \<times> filesystem" where
  "Cleanup flt r fs =
     (if Retain r \<or> Run r = [] then (None, fs)
      else let (err, fs1) = os_remove flt (Run r) fs
           in (if err = Some ENOENT then None else err, fs1))"

section \<open>Which names are owned\<close>

text \<open>The language of the regular expression.\<close>

definition owned_name :: "string \<Rightarrow> string \<Rightarrow> string \<Rightarrow> bool" where
  "owned_name stem ext name \<longleftrightarrow>
     (\<exists>e. all_digits e \<and> (name = stem @ ''-'' @ e @ ext
        \<or> (\<exists>n. all_digits n \<and> name = stem @ ''-'' @ e @ ''-'' @ n @ ext)))"

lemma digits_body:
  "(takeWhile is_digit m \<noteq> [] \<and>
    (dropWhile is_digit m = [] \<or> (hd (dropWhile is_digit m) = CHR ''-'' \<and> all_digits (tl (dropWhile is_digit m)))))
   \<longleftrightarrow> (\<exists>e. all_digits e \<and> (m = e \<or> (\<exists>n. all_digits n \<and> m = e @ ''-'' @ n)))"
  (is "?run \<longleftrightarrow> ?lang")
proof
  assume ?run
  let ?e = "takeWhile is_digit m" and ?d = "dropWhile is_digit m"
  have "all_digits ?e" using \<open>?run\<close> by (auto simp: all_digits_def dest: set_takeWhileD)
  moreover have "m = ?e \<or> (\<exists>n. all_digits n \<and> m = ?e @ ''-'' @ n)"
  proof (cases "?d = []")
    case True
    then show ?thesis by (metis append_Nil2 takeWhile_dropWhile_id)
  next
    case False
    then have d: "?d = CHR ''-'' # tl ?d" "all_digits (tl ?d)"
      using \<open>?run\<close> by (metis list.collapse, blast)
    have "m = ?e @ ?d" by simp
    also have "\<dots> = ?e @ ''-'' @ tl ?d" using d(1) by simp
    finally show ?thesis using d(2) by blast
  qed
  ultimately show ?lang by blast
next
  assume ?lang
  then obtain e where e: "all_digits e" "m = e \<or> (\<exists>n. all_digits n \<and> m = e @ ''-'' @ n)" by blast
  have dash: "\<not> is_digit CHR ''-''" by (simp add: is_digit_def)
  have ds: "\<forall>c \<in> set e. is_digit c" "e \<noteq> []" using e(1) by (auto simp: all_digits_def)
  from e(2) show ?run
  proof (elim disjE exE conjE)
    assume "m = e"
    then show ?run using ds by (simp add: takeWhile_all_iff [THEN iffD2])
  next
    fix n assume n: "all_digits n" "m = e @ ''-'' @ n"
    have "takeWhile is_digit m = e" "dropWhile is_digit m = ''-'' @ n"
      using ds(1) dash n(2) by (simp_all add: takeWhile_append2 dropWhile_append2)
    then show ?run using ds(2) n(1) by simp
  qed
qed

lemma owned_iff: "owned stem ext name \<longleftrightarrow> owned_name stem ext name"
proof
  assume o: "owned stem ext name"
  then obtain r where r: "name = stem @ ''-'' @ r" by (auto simp: owned_def prefix_def)
  then have drop: "drop (length stem + 1) name = r" by simp
  from o drop obtain m where m: "r = m @ ext" by (auto simp: owned_def Let_def suffix_def)
  then have "take (length r - length ext) r = m" by simp
  with o have "\<exists>e. all_digits e \<and> (m = e \<or> (\<exists>n. all_digits n \<and> m = e @ ''-'' @ n))"
    unfolding owned_def Let_def digits_body [symmetric] drop by (elim conjE) (simp only:, blast)
  then show "owned_name stem ext name"
    unfolding owned_name_def r m by auto
next
  assume "owned_name stem ext name"
  then obtain m where m: "name = stem @ ''-'' @ m @ ext"
      "\<exists>e. all_digits e \<and> (m = e \<or> (\<exists>n. all_digits n \<and> m = e @ ''-'' @ n))"
    unfolding owned_name_def by fastforce
  then show "owned stem ext name"
    unfolding owned_def Let_def m(1) digits_body [symmetric] by (simp add: suffix_def)
qed

lemma run_name_owned: "all_digits epoch \<Longrightarrow> owned stem ext (run_name stem ext epoch n)"
  unfolding owned_iff owned_name_def run_name_def
  by (intro exI [of _ epoch]) (auto intro: all_digits_utoa)

lemma owned_plain:
  assumes "slash \<notin> set stem" "slash \<notin> set ext" "owned stem ext name"
  shows "plain_comp name"
  using assms unfolding owned_iff owned_name_def
  by (auto intro!: dash_plain dest: digits_no_slash)

section \<open>The age pass\<close>

text \<open>The listing of the capture directory as it is in \<open>fs\<close>.\<close>

definition lists_dir :: "string \<Rightarrow> filesystem \<Rightarrow> (string \<times> fnode option) list \<Rightarrow> bool" where
  "lists_dir dir fs es \<longleftrightarrow>
     (\<forall>name node. (name, node) \<in> set es \<longrightarrow> node = fs (path_join dir name)) \<and>
     (\<forall>name. plain_comp name \<longrightarrow> fs (path_join dir name) \<noteq> None \<longrightarrow> name \<in> fst ` set es)"

text \<open>A capture of an earlier run: an owned regular file other than this run's.\<close>

definition finished_capture :: "retention \<Rightarrow> filesystem \<Rightarrow> string \<Rightarrow> nat \<Rightarrow> time \<Rightarrow> bool" where
  "finished_capture r fs path bytes mtime \<longleftrightarrow>
     (case splitTemplate (Template r) of (dir, stem, ext) \<Rightarrow>
        \<exists>name. owned stem ext name \<and> path = path_join dir name \<and> path \<noteq> clean (Run r)
          \<and> fs path = Some (Regular bytes mtime))"

lemma finished_entry_iff:
  "finished_entry r dir stem ext (name, node) = Some f \<longleftrightarrow>
     owned stem ext name \<and> path_join dir name \<noteq> clean (Run r) \<and>
     (\<exists>bytes mtime. node = Some (Regular bytes mtime)
        \<and> f = \<lparr>rf_path = path_join dir name, rf_size = int bytes, rf_modTime = mtime\<rparr>)"
proof (cases node)
  case (Some x)
  then show ?thesis by (cases x) (auto simp: finished_entry_def Let_def)
qed (auto simp: finished_entry_def Let_def)

lemma finished_captures:
  assumes "file_template (Template r)" "splitTemplate (Template r) = (dir, stem, ext)"
    "lists_dir dir fs es" "finished r (Inr es) = Inr fls"
  shows "f \<in> set fls \<longleftrightarrow> (\<exists>bytes. rf_size f = int bytes \<and> finished_capture r fs (rf_path f) bytes (rf_modTime f))"
proof -
  have fls: "fls = List.map_filter (finished_entry r dir stem ext) es"
    using assms(2,4) by (simp add: finished_def)
  have "f \<in> set fls \<longleftrightarrow> (\<exists>e \<in> set es. finished_entry r dir stem ext e = Some f)"
    unfolding fls by (rule in_map_filter)
  also have "\<dots> \<longleftrightarrow> (\<exists>name node. (name, node) \<in> set es \<and> finished_entry r dir stem ext (name, node) = Some f)"
    by auto
  also have "\<dots> \<longleftrightarrow> (\<exists>name. finished_entry r dir stem ext (name, fs (path_join dir name)) = Some f)"
    (is "?l \<longleftrightarrow> ?r")
  proof
    assume ?l
    then show ?r using assms(3) by (auto simp: lists_dir_def)
  next
    assume ?r
    then obtain name where n: "finished_entry r dir stem ext (name, fs (path_join dir name)) = Some f" by blast
    then have own: "owned stem ext name" "fs (path_join dir name) \<noteq> None"
      by (auto simp: finished_entry_iff)
    have "plain_comp name"
      by (rule owned_plain [OF splitTemplate_parts(2,3) [OF assms(1,2)] own(1)])
    then have "name \<in> fst ` set es" using assms(3) own(2) by (auto simp: lists_dir_def)
    then obtain node where "(name, node) \<in> set es" by auto
    moreover from this have "node = fs (path_join dir name)" using assms(3) by (simp add: lists_dir_def)
    ultimately show ?l using n by blast
  qed
  also have "\<dots> \<longleftrightarrow> (\<exists>bytes. rf_size f = int bytes \<and> finished_capture r fs (rf_path f) bytes (rf_modTime f))"
    by (cases f) (auto simp: finished_entry_iff finished_capture_def assms(2))
  finally show ?thesis .
qed

lemma remove_expired_effect:
  assumes "\<forall>p. flt p = None"
  shows "remove_expired flt now age fls fs =
    ([], \<lambda>p. if \<exists>f \<in> set fls. rf_path f = p \<and> age < time_sub now (rf_modTime f) then None else fs p)"
proof (induction fls arbitrary: fs)
  case (Cons f fls)
  show ?case
  proof (cases "time_sub now (rf_modTime f) \<le> age")
    case True
    then show ?thesis using Cons.IH by (auto simp: not_less fun_eq_iff)
  next
    case False
    have "os_remove flt (rf_path f) fs = (if fs (rf_path f) = None then Some ENOENT else None, fs(rf_path f := None))"
      using assms by (auto simp: os_remove_def fun_eq_iff)
    then have "remove_expired flt now age (f # fls) fs = remove_expired flt now age fls (fs(rf_path f := None))"
      using False by (simp add: case_prod_beta)
    also have "\<dots> = ([], \<lambda>p. if \<exists>g \<in> set fls. rf_path g = p \<and> age < time_sub now (rf_modTime g)
        then None else (fs(rf_path f := None)) p)"
      by (rule Cons.IH)
    finally show ?thesis using False by (auto simp: fun_eq_iff)
  qed
qed simp

lemma remove_expired_only:
  "snd (remove_expired flt now age fls fs) p = fs p
   \<or> (snd (remove_expired flt now age fls fs) p = None
      \<and> (\<exists>f \<in> set fls. rf_path f = p \<and> age < time_sub now (rf_modTime f)))"
proof (induction fls arbitrary: fs)
  case (Cons f fls)
  show ?case
  proof (cases "time_sub now (rf_modTime f) \<le> age")
    case True
    then show ?thesis using Cons.IH [of fs] by auto
  next
    case False
    have "snd (os_remove flt (rf_path f) fs) p = fs p \<or> (snd (os_remove flt (rf_path f) fs) p = None \<and> rf_path f = p)"
      by (auto simp: os_remove_def split: option.splits)
    then show ?thesis
      using False Cons.IH [of "snd (os_remove flt (rf_path f) fs)"] by (auto simp: Let_def case_prod_beta not_le)
  qed
qed simp

section \<open>The capture of a run\<close>

lemma CreateRunCapture_creates:
  assumes "file_template template" "0 \<le> time_unix now" "CreateRunCapture env hdr now template opts fs = (r, fs')"
    "fs' p \<noteq> fs p \<or> (\<exists>w. r = Inr w \<and> p = w_path w)"
  obtains n where "n \<le> maxRunSuffix" "p = run_capture_path now template n"
  using assms(1,2)
proof (cases rule: CreateRunCapture_cases [consumes 2, where env = env and hdr = hdr and opts = opts and fs = fs])
  case (untouched e)
  then show thesis using assms(3,4) by auto
next
  case (created r' n)
  then have "(r', fs(run_capture_path now template n \<mapsto> Regular 0 (created_at env))) = (r, fs')" using assms(3) by (simp only:)
  then have r: "r' = r" and fs': "fs' = fs(run_capture_path now template n \<mapsto> Regular 0 (created_at env))" by (simp_all only: prod.inject)
  have "w_path w = run_capture_path now template n" if "r = Inr w" for w
    using created(4) [of w] that unfolding r by (simp add: new_writer_def)
  moreover have "p = run_capture_path now template n" if "fs' p \<noteq> fs p" using that unfolding fs' by (metis fun_upd_apply)
  ultimately have "p = run_capture_path now template n" using assms(4) by blast
  then show thesis using that created(1) by blast
qed

lemma created_capture_owned:
  assumes "file_template template" "0 \<le> time_unix now" "CreateRunCapture env hdr now template opts fs = (Inr cw, fs')"
    "splitTemplate template = (dir, stem, ext)"
  obtains name where "w_path cw = path_join dir name" "owned stem ext name" "clean (w_path cw) = w_path cw"
proof -
  obtain n where "w_path cw = run_capture_path now template n"
    using CreateRunCapture_creates [OF assms(1-3), of "w_path cw"] by blast
  then have path: "w_path cw = path_join dir (run_name stem ext (itoa (time_unix now)) n)"
    by (simp add: run_capture_path_def assms(4))
  have "dir \<noteq> []" using splitTemplate_parts(1) [OF assms(1,4)] by (simp add: path_dir_not_Nil)
  then have "clean (w_path cw) = w_path cw" unfolding path by (intro path_join_clean) simp
  then show thesis using that path run_name_owned [OF all_digits_itoa [OF assms(2)]] by blast
qed

lemma finished_not_run:
  assumes "finished r lst = Inr fls" "f \<in> set fls"
  shows "rf_path f \<noteq> clean (Run r)"
proof -
  obtain dir stem ext where t: "splitTemplate (Template r) = (dir, stem, ext)" using prod_cases3 by blast
  show ?thesis
  proof (cases lst)
    case (Inl e)
    then show ?thesis using assms by (simp add: finished_def t split: if_splits)
  next
    case (Inr es)
    then obtain name node where "finished_entry r dir stem ext (name, node) = Some f"
      using assms by (auto simp: finished_def t in_map_filter)
    then show ?thesis by (auto simp: finished_entry_iff)
  qed
qed

lemma single_listed:
  assumes "dir \<noteq> []" "plain_comp name"
  shows "lists_dir dir [path_join dir name \<mapsto> node] [(name, Some node)]"
proof -
  have same: "n = name" if "plain_comp n" "[path_join dir name \<mapsto> node] (path_join dir n) \<noteq> None" for n
  proof -
    have "path_join dir n = path_join dir name" using that(2) by (metis fun_upd_apply)
    then have "path_base (path_join dir n) = path_base (path_join dir name)" by (rule arg_cong)
    then show ?thesis by (rule trans [OF trans [OF path_base_join [OF assms(1) that(1), symmetric]] path_base_join [OF assms]])
  qed
  show ?thesis unfolding lists_dir_def
  proof (intro conjI allI impI)
    fix n node' assume "(n, node') \<in> set [(name, Some node)]"
    then have "n = name" "node' = Some node" by simp_all
    then show "node' = [path_join dir name \<mapsto> node] (path_join dir n)" by simp
  next
    fix n assume "plain_comp n" "[path_join dir name \<mapsto> node] (path_join dir n) \<noteq> None"
    then have "n = name" by (rule same)
    then show "n \<in> fst ` set [(name, Some node)]" by simp
  qed
qed

section \<open>The room of a run\<close>

definition owned_total :: "retention_file list \<Rightarrow> int" where
  "owned_total fls = sum_list (map rf_size fls)"

lemma fold_i64_sum:
  assumes "\<forall>f \<in> set fls. 0 \<le> rf_size f" "0 \<le> acc" "acc + owned_total fls \<le> max_i64"
  shows "fold (\<lambda>f total. i64 (total + rf_size f)) fls acc = acc + owned_total fls"
  using assms
proof (induction fls arbitrary: acc)
  case (Cons f fls)
  have "0 \<le> owned_total fls" using Cons.prems(1) by (auto simp: owned_total_def intro!: sum_list_nonneg)
  then have "i64 (acc + rf_size f) = acc + rf_size f"
    using Cons.prems by (intro i64_id) (auto simp: owned_total_def)
  then show ?case using Cons.IH [of "acc + rf_size f"] Cons.prems by (simp add: owned_total_def)
qed (simp add: owned_total_def)

lemma finished_sizes: "finished r lst = Inr fls \<Longrightarrow> \<forall>f \<in> set fls. 0 \<le> rf_size f"
  by (auto simp: finished_def Let_def List.map_filter_def finished_entry_def
      split: prod.splits sum.splits if_splits option.splits fnode.splits)

lemma RetentionRoom_exact:
  assumes "finished r lst = Inr fls" "0 < MaxBytes r" "MaxBytes r \<le> max_i64" "owned_total fls \<le> max_i64"
  shows "RetentionRoom r lst = (MaxBytes r - owned_total fls, None)"
proof -
  have "0 \<le> owned_total fls"
    using finished_sizes [OF assms(1)] by (auto simp: owned_total_def intro!: sum_list_nonneg)
  moreover have "OwnedBytes r lst = (owned_total fls, None)"
    using fold_i64_sum [OF finished_sizes [OF assms(1)], of 0] assms(1,4) by (simp add: OwnedBytes_def)
  ultimately show ?thesis
    using assms(2-4) by (simp add: RetentionRoom_def i64_id)
qed

section \<open>Properties\<close>

text \<open>
  C30: what the sidecar owns. The matcher accepts exactly the names of the form
  \<^verbatim>\<open>stem-digits.ext\<close> and \<^verbatim>\<open>stem-digits-digits.ext\<close>. Whatever the operating system and the encoder
  answer, every file a run creates for its capture, from 1970 on, is in the template's directory
  under such a name: the stem, the seconds since 1970, a number from 1 to 999 unless it is the
  first try, and the extension.
\<close>

theorem owned_names:
  "(owned stem ext name \<longleftrightarrow>
     (\<exists>e. all_digits e \<and> (name = stem @ ''-'' @ e @ ext
        \<or> (\<exists>n. all_digits n \<and> name = stem @ ''-'' @ e @ ''-'' @ n @ ext))))
   \<and> (file_template template \<and> splitTemplate template = (dir, stem, ext) \<and> 0 \<le> time_unix now
      \<and> CreateRunCapture env hdr now template opts fs = (r, fs') \<and> (fs' p \<noteq> fs p \<or> (\<exists>w. r = Inr w \<and> p = w_path w))
      \<longrightarrow> (\<exists>n \<le> 999. \<exists>name. name = stem @ ''-'' @ itoa (time_unix now) @ (if n = 0 then [] else ''-'' @ utoa n) @ ext
            \<and> p = path_join dir name \<and> owned stem ext name))"
proof (intro conjI impI)
  show "owned stem ext name \<longleftrightarrow>
     (\<exists>e. all_digits e \<and> (name = stem @ ''-'' @ e @ ext \<or> (\<exists>n. all_digits n \<and> name = stem @ ''-'' @ e @ ''-'' @ n @ ext)))"
    using owned_iff [of stem ext name] by (simp add: owned_name_def)
next
  assume a: "file_template template \<and> splitTemplate template = (dir, stem, ext) \<and> 0 \<le> time_unix now
    \<and> CreateRunCapture env hdr now template opts fs = (r, fs') \<and> (fs' p \<noteq> fs p \<or> (\<exists>w. r = Inr w \<and> p = w_path w))"
  then obtain n where n: "n \<le> maxRunSuffix" "p = run_capture_path now template n"
    using CreateRunCapture_creates by blast
  then have "p = path_join dir (run_name stem ext (itoa (time_unix now)) n)" using a by (simp add: run_capture_path_def)
  moreover have "owned stem ext (run_name stem ext (itoa (time_unix now)) n)"
    using a by (intro run_name_owned all_digits_itoa) simp
  ultimately show "\<exists>n \<le> 999. \<exists>name. name = stem @ ''-'' @ itoa (time_unix now) @ (if n = 0 then [] else ''-'' @ utoa n) @ ext
      \<and> p = path_join dir name \<and> owned stem ext name"
    using n(1) by (intro exI [of _ n]) (auto simp: run_name_def maxRunSuffix_def)
qed

lemma owned_names_witness:
  "\<exists>w fs' n. CreateRunCapture sample_env (\<lambda>_. 100) sample_now ''/v/d.p'' sample_options sample_fs = (Inr w, fs')
     \<and> w_path w = path_join ''/v'' n \<and> owned ''d'' ''.p'' n"
proof -
  obtain w fs' where c: "CreateRunCapture sample_env (\<lambda>_. 100) sample_now ''/v/d.p'' sample_options sample_fs = (Inr w, fs')"
    using sample_capture_created by blast
  have t: "splitTemplate ''/v/d.p'' = (''/v'', ''d'', ''.p'')" by code_simp
  from conjunct2 [OF owned_names [of "''d''" "''.p''" "[]" "''/v/d.p''" "''/v''" sample_now sample_env "\<lambda>_. 100" sample_options
      sample_fs "Inr w" fs' "w_path w"]] c t sample_template
  show ?thesis by blast
qed

text \<open>The captures of earlier runs that are older than the age limit.\<close>

definition expired :: "retention \<Rightarrow> time \<Rightarrow> filesystem \<Rightarrow> string \<Rightarrow> bool" where
  "expired r now fs p \<longleftrightarrow> (\<exists>bytes mtime. finished_capture r fs p bytes mtime \<and> MaxAge r < time_sub now mtime)"

lemma expired_iff:
  assumes "file_template (Template r)" "splitTemplate (Template r) = (dir, stem, ext)"
    "lists_dir dir fs es" "finished r (Inr es) = Inr fls"
  shows "(\<exists>f \<in> set fls. rf_path f = p \<and> MaxAge r < time_sub now (rf_modTime f)) \<longleftrightarrow> expired r now fs p"
proof
  assume "\<exists>f \<in> set fls. rf_path f = p \<and> MaxAge r < time_sub now (rf_modTime f)"
  then obtain f where f: "f \<in> set fls" "rf_path f = p" "MaxAge r < time_sub now (rf_modTime f)" by blast
  then obtain bytes where "finished_capture r fs p bytes (rf_modTime f)"
    using finished_captures [OF assms, of f] by auto
  with f(3) show "expired r now fs p" by (auto simp: expired_def)
next
  assume "expired r now fs p"
  then obtain bytes mtime where f: "finished_capture r fs p bytes mtime" "MaxAge r < time_sub now mtime"
    by (auto simp: expired_def)
  have "\<lparr>rf_path = p, rf_size = int bytes, rf_modTime = mtime\<rparr> \<in> set fls"
    using finished_captures [OF assms, of "\<lparr>rf_path = p, rf_size = int bytes, rf_modTime = mtime\<rparr>"] f(1) by auto
  with f(2) show "\<exists>f \<in> set fls. rf_path f = p \<and> MaxAge r < time_sub now (rf_modTime f)" by force
qed

text \<open>
  C20: the age pass. Given the directory as it is, whatever fails to be deleted, the pass
  changes nothing but captures of earlier runs that are older than the limit: no other file,
  not this run's capture, nothing that is not a regular file. When nothing fails, it deletes
  every one of those and reports no error.
\<close>

theorem age_pass_deletes_expired_captures_only:
  assumes "file_template (Template r)" "lists_dir (path_dir (Template r)) fs es" "0 < MaxAge r"
  shows "(snd (Enforce flt now r (Inr es) fs) p \<noteq> fs p \<longrightarrow> snd (Enforce flt now r (Inr es) fs) p = None \<and> expired r now fs p)
    \<and> ((\<forall>q. flt q = None) \<longrightarrow> Enforce flt now r (Inr es) fs = ([], \<lambda>q. if expired r now fs q then None else fs q))"
proof -
  obtain dir stem ext where t: "splitTemplate (Template r) = (dir, stem, ext)" using prod_cases3 by blast
  have dir: "lists_dir dir fs es" using assms(2) splitTemplate_parts(1) [OF assms(1) t] by simp
  obtain fls where fls: "finished r (Inr es) = Inr fls" by (simp add: finished_def t)
  have e: "Enforce flt now r (Inr es) fs = remove_expired flt now (MaxAge r) fls fs"
    using assms(3) fls by (simp add: Enforce_def)
  show ?thesis
    using remove_expired_only [of flt now "MaxAge r" fls fs p] remove_expired_effect [of flt now "MaxAge r" fls fs]
    unfolding e expired_iff [OF assms(1) t dir fls] by auto
qed

definition sample_retention :: retention where
  "sample_retention = \<lparr>Template = ''/v/d.p'', Run = [], MaxBytes = 1000, MaxAge = 10, Retain = False\<rparr>"

definition sample_dir :: filesystem where
  "sample_dir = [path_join ''/v'' ''d-5.p'' \<mapsto> Regular 7 1]"

lemma sample_dir_listed: "lists_dir (path_dir ''/v/d.p'') sample_dir [(''d-5.p'', Some (Regular 7 1))]"
proof -
  have d: "path_dir ''/v/d.p'' = ''/v''" and pl: "plain_comp ''d-5.p''" by code_simp+
  show ?thesis unfolding d sample_dir_def by (rule single_listed) (simp, rule pl)
qed

lemma age_pass_deletes_expired_captures_only_witness:
  "snd (Enforce (\<lambda>_. None) 100 sample_retention (Inr [(''d-5.p'', Some (Regular 7 1))]) sample_dir) (path_join ''/v'' ''d-5.p'') = None"
proof -
  have "splitTemplate ''/v/d.p'' = (''/v'', ''d'', ''.p'')" "owned ''d'' ''.p'' ''d-5.p''"
    "path_join ''/v'' ''d-5.p'' \<noteq> clean []" by code_simp+
  then have "finished_capture sample_retention sample_dir (path_join ''/v'' ''d-5.p'') 7 1"
    by (auto simp: finished_capture_def sample_retention_def sample_dir_def)
  then have "expired sample_retention 100 sample_dir (path_join ''/v'' ''d-5.p'')"
    unfolding expired_def by (intro exI [of _ 7] exI [of _ 1]) (simp add: sample_retention_def time_sub_def)
  then show ?thesis
    using conjunct2 [OF age_pass_deletes_expired_captures_only [of sample_retention sample_dir "[(''d-5.p'', Some (Regular 7 1))]" "\<lambda>_. None" 100]]
      sample_dir_listed sample_template(1)
    by (simp add: sample_retention_def)
qed

text \<open>
  C31: this run's capture is never counted or aged out while it runs, and is from the next run
  on. Let a run have created its capture, in 1970 or later. With that file as the current run,
  no listing of the directory has it among the finished captures, the sum of their sizes is the
  same without its entry, and the age pass leaves it alone, whatever fails. With another run
  as the current one, it is among the finished captures, with its size and age, as long as it
  is a regular file; and the age pass deletes it once it is too old, when nothing fails.
\<close>

theorem run_capture_is_owned_but_spared:
  assumes "file_template (Template r)" "0 \<le> time_unix now"
    "CreateRunCapture env hdr now (Template r) opts fs0 = (Inr cw, fs1)"
  shows "(Run r = w_path cw \<longrightarrow>
        (finished r lst = Inr fls \<longrightarrow> w_path cw \<notin> rf_path ` set fls)
        \<and> OwnedBytes r (Inr es) = OwnedBytes r (Inr (filter (\<lambda>e. path_join (path_dir (Template r)) (fst e) \<noteq> w_path cw) es))
        \<and> snd (Enforce flt t r lst fs) (w_path cw) = fs (w_path cw))
    \<and> (clean (Run r) \<noteq> w_path cw \<and> lists_dir (path_dir (Template r)) fs es \<and> fs (w_path cw) = Some (Regular bytes mtime) \<longrightarrow>
        (\<exists>fls. finished r (Inr es) = Inr fls \<and> \<lparr>rf_path = w_path cw, rf_size = int bytes, rf_modTime = mtime\<rparr> \<in> set fls)
        \<and> (0 < MaxAge r \<and> MaxAge r < time_sub t mtime \<and> (\<forall>p. flt p = None) \<longrightarrow> snd (Enforce flt t r (Inr es) fs) (w_path cw) = None))"
proof -
  obtain dir stem ext where tmpl: "splitTemplate (Template r) = (dir, stem, ext)" using prod_cases3 by blast
  have dir: "dir = path_dir (Template r)" by (rule splitTemplate_parts(1) [OF assms(1) tmpl])
  obtain name where name: "w_path cw = path_join dir name" "owned stem ext name" "clean (w_path cw) = w_path cw"
    using created_capture_owned [OF assms tmpl] .
  show ?thesis
  proof (intro conjI impI)
    assume run: "Run r = w_path cw"
    then have own: "clean (Run r) = w_path cw" using name(3) by simp
    show spared: "w_path cw \<notin> rf_path ` set fls" if "finished r lst = Inr fls" for lst fls
      using finished_not_run [OF that] own by (metis imageE)
    have "finished_entry r dir stem ext e = None" if "path_join dir (fst e) = w_path cw" for e
      using own that by (simp add: finished_entry_def)
    then have "List.map_filter (finished_entry r dir stem ext) es
        = List.map_filter (finished_entry r dir stem ext) (filter (\<lambda>e. path_join dir (fst e) \<noteq> w_path cw) es)"
      by (induction es) (auto split: option.split)
    then show "OwnedBytes r (Inr es) = OwnedBytes r (Inr (filter (\<lambda>e. path_join (path_dir (Template r)) (fst e) \<noteq> w_path cw) es))"
      by (simp add: OwnedBytes_def finished_def tmpl dir)
    show "snd (Enforce flt t r lst fs) (w_path cw) = fs (w_path cw)"
    proof (cases "finished r lst")
      case (Inr fls)
      then show ?thesis
        using spared [OF Inr] remove_expired_only [of flt t "MaxAge r" fls fs "w_path cw"] by (auto simp: Enforce_def image_iff)
    qed (simp add: Enforce_def)
  next
    assume a: "clean (Run r) \<noteq> w_path cw \<and> lists_dir (path_dir (Template r)) fs es \<and> fs (w_path cw) = Some (Regular bytes mtime)"
    then have fc: "finished_capture r fs (w_path cw) bytes mtime" using name by (auto simp: finished_capture_def tmpl)
    obtain fls where fls: "finished r (Inr es) = Inr fls" by (simp add: finished_def tmpl)
    have mem: "\<lparr>rf_path = w_path cw, rf_size = int bytes, rf_modTime = mtime\<rparr> \<in> set fls"
      using finished_captures [OF assms(1) tmpl _ fls, of fs "\<lparr>rf_path = w_path cw, rf_size = int bytes, rf_modTime = mtime\<rparr>"] a fc dir
      by auto
    then show "\<exists>fls. finished r (Inr es) = Inr fls \<and> \<lparr>rf_path = w_path cw, rf_size = int bytes, rf_modTime = mtime\<rparr> \<in> set fls"
      using fls by blast
    show "snd (Enforce flt t r (Inr es) fs) (w_path cw) = None" if "0 < MaxAge r \<and> MaxAge r < time_sub t mtime \<and> (\<forall>p. flt p = None)"
      using that mem fls by (simp add: Enforce_def remove_expired_effect) force
  qed
qed

lemma run_capture_is_owned_but_spared_witness:
  "\<exists>cw fs1 n. CreateRunCapture sample_env (\<lambda>_. 100) sample_now ''/v/d.p'' sample_options sample_fs = (Inr cw, fs1)
     \<and> snd (Enforce (\<lambda>_. None) 100 (sample_retention\<lparr>Run := w_path cw\<rparr>) (Inr [(n, Some (Regular 7 1))]) [w_path cw \<mapsto> Regular 7 1]) (w_path cw)
         = Some (Regular 7 1)
     \<and> snd (Enforce (\<lambda>_. None) 100 sample_retention (Inr [(n, Some (Regular 7 1))]) [w_path cw \<mapsto> Regular 7 1]) (w_path cw) = None"
proof -
  obtain cw fs1 where c: "CreateRunCapture sample_env (\<lambda>_. 100) sample_now ''/v/d.p'' sample_options sample_fs = (Inr cw, fs1)"
    using sample_capture_created by blast
  have t: "splitTemplate ''/v/d.p'' = (''/v'', ''d'', ''.p'')" and d: "path_dir ''/v/d.p'' = ''/v''" and dot: "clean [] = ''.''" by code_simp+
  obtain n where n: "w_path cw = path_join ''/v'' n" "owned ''d'' ''.p'' n"
    using created_capture_owned [OF sample_template c t] by blast
  have plain: "plain_comp n" by (rule owned_plain [OF _ _ n(2)]) simp_all
  let ?es = "[(n, Some (Regular 7 1))]" and ?fs = "[w_path cw \<mapsto> Regular 7 1]"
  have ls: "lists_dir ''/v'' ?fs ?es" unfolding n(1) by (rule single_listed) (simp, rule plain)
  have "path_base (w_path cw) = n" unfolding n(1) by (rule path_base_join) (simp, rule plain)
  moreover have "path_base ''.'' = ''.''" by code_simp
  ultimately have ne: "clean [] \<noteq> w_path cw" using plain unfolding dot plain_comp_def by metis
  note sp = run_capture_is_owned_but_spared [of _ sample_now sample_env "\<lambda>_. 100" sample_options sample_fs cw fs1]
  have "snd (Enforce (\<lambda>_. None) 100 (sample_retention\<lparr>Run := w_path cw\<rparr>) (Inr ?es) ?fs) (w_path cw) = ?fs (w_path cw)"
    using conjunct1 [OF sp [of "sample_retention\<lparr>Run := w_path cw\<rparr>"]] sample_template c by (simp add: sample_retention_def)
  moreover have "snd (Enforce (\<lambda>_. None) 100 sample_retention (Inr ?es) ?fs) (w_path cw) = None"
    using conjunct2 [OF sp [of sample_retention "Inr []" "[]" ?es "\<lambda>_. None" 100 ?fs 7 1]] sample_template c ls ne
    by (simp add: sample_retention_def d time_sub_def)
  ultimately show ?thesis using c by (intro exI [of _ cw] exI [of _ fs1] exI [of _ n]) simp
qed

text \<open>
  The room of a run is what the finished captures leave of the limit. Computed in 64-bit
  arithmetic, it is exactly the limit less the sum of their sizes whenever that sum is one a
  file system can hold; it may be negative; and without a limit it is zero.
\<close>

lemma room_is_what_is_left:
  assumes "finished r lst = Inr fls" "MaxBytes r \<le> max_i64" "sum_list (map rf_size fls) \<le> max_i64"
  shows "RetentionRoom r lst = (if 0 < MaxBytes r then MaxBytes r - sum_list (map rf_size fls) else 0, None)"
  using RetentionRoom_exact [OF assms(1) _ assms(2)] assms(3) by (simp add: owned_total_def RetentionRoom_def)

lemma room_is_what_is_left_witness: "RetentionRoom sample_retention (Inr []) = (1000, None)"
  using room_is_what_is_left [of sample_retention "Inr []" "[]"]
  by (simp add: sample_retention_def finished_def case_prod_beta)

end
