(* ===== verification/Logger.thy ===== *)
theory Logger
  imports Nss
begin

text \<open>
  \<^verbatim>\<open>internal/shared/logger\<close>: the rate limiter of \<^verbatim>\<open>limit.go\<close> and the redacting logger of
  \<^verbatim>\<open>logger.go\<close>. A record is emitted by Go's \<^verbatim>\<open>slog\<close> JSON handler, which walks the
  attributes and calls \<open>replaceAttr\<close> on each that is not a group with the keys of the groups
  around it; the walk is \<open>append_attr\<close>, and what it emits is a tree of scalar leaves.
\<close>

section \<open>The rate limiter\<close>

record limiter =
  lim_interval :: duration
  lim_burst :: int
  lim_start :: time
  lim_kept :: int
  lim_dropped :: int

definition new_limiter :: "duration \<Rightarrow> int \<Rightarrow> limiter" where
  "new_limiter interval burst =
     \<lparr>lim_interval = interval, lim_burst = burst, lim_start = 0, lim_kept = 0, lim_dropped = 0\<rparr>"

definition lim_admit :: "time \<Rightarrow> limiter \<Rightarrow> (bool \<times> int) \<times> limiter" where
  "lim_admit now lim =
     (let lim1 = (if lim_interval lim \<le> time_sub now (lim_start lim) then lim\<lparr>lim_start := now, lim_kept := 0\<rparr> else lim)
      in if lim_burst lim1 \<le> lim_kept lim1 then ((False, 0), lim1\<lparr>lim_dropped := i64 (lim_dropped lim1 + 1)\<rparr>)
         else ((True, lim_dropped lim1), lim1\<lparr>lim_kept := lim_kept lim1 + 1, lim_dropped := 0\<rparr>))"

text \<open>The decisions on a sequence of clock readings, and the limiter after them.\<close>

fun decisions :: "limiter \<Rightarrow> time list \<Rightarrow> (bool \<times> int) list" where
  "decisions lim [] = []"
| "decisions lim (t # ts) = fst (lim_admit t lim) # decisions (snd (lim_admit t lim)) ts"

fun after :: "limiter \<Rightarrow> time list \<Rightarrow> limiter" where
  "after lim [] = lim"
| "after lim (t # ts) = after (snd (lim_admit t lim)) ts"

definition kept_count :: "limiter \<Rightarrow> time list \<Rightarrow> nat" where
  "kept_count lim ts = length (filter fst (decisions lim ts))"

definition limiter_ok :: "limiter \<Rightarrow> bool" where
  "limiter_ok lim \<longleftrightarrow> 0 \<le> lim_kept lim \<and> lim_kept lim \<le> lim_burst lim
     \<and> 0 < lim_interval lim \<and> lim_interval lim \<le> max_i64"

lemma limiter_ok_admit:
  "limiter_ok lim \<Longrightarrow> limiter_ok (snd (lim_admit t lim)) \<and> lim_interval (snd (lim_admit t lim)) = lim_interval lim
     \<and> lim_burst (snd (lim_admit t lim)) = lim_burst lim"
  by (auto simp: limiter_ok_def lim_admit_def Let_def)

lemma limiter_ok_after:
  "limiter_ok lim \<Longrightarrow> limiter_ok (after lim ts) \<and> lim_interval (after lim ts) = lim_interval lim
     \<and> lim_burst (after lim ts) = lim_burst lim"
proof (induction lim ts rule: after.induct)
  case (2 lim t ts)
  then show ?case using limiter_ok_admit [of lim t] by simp
qed simp

lemma limiter_ok_new: "0 \<le> burst \<Longrightarrow> 0 < interval \<Longrightarrow> interval \<le> max_i64 \<Longrightarrow> limiter_ok (new_limiter interval burst)"
  by (simp add: limiter_ok_def new_limiter_def)

lemma time_sub_ge_iff: "min_i64 < d \<Longrightarrow> d \<le> max_i64 \<Longrightarrow> d \<le> time_sub t u \<longleftrightarrow> d \<le> t - u"
  unfolding time_sub_def by linarith

text \<open>
  Readings within one interval's length: at most what is left of the current window, and,
  when that window started before them, one window more.
\<close>

lemma kept_count_span:
  assumes "limiter_ok lim" "\<forall>t \<in> set ts. a \<le> t \<and> t < a + lim_interval lim"
  shows "int (kept_count lim ts) \<le> lim_burst lim - lim_kept lim + (if a \<le> lim_start lim then 0 else lim_burst lim)"
  using assms
proof (induction ts arbitrary: lim)
  case Nil
  then show ?case by (auto simp: kept_count_def limiter_ok_def)
next
  case (Cons t ts)
  let ?lim = "snd (lim_admit t lim)"
  have new_window: "lim_interval lim \<le> time_sub t (lim_start lim) \<longleftrightarrow> lim_interval lim \<le> t - lim_start lim"
    using Cons.prems(1) by (intro time_sub_ge_iff) (auto simp: limiter_ok_def)
  have t: "a \<le> t" "t < a + lim_interval lim" using Cons.prems(2) by auto
  have "int (kept_count ?lim ts) \<le> lim_burst ?lim - lim_kept ?lim + (if a \<le> lim_start ?lim then 0 else lim_burst ?lim)"
    using Cons.prems limiter_ok_admit [OF Cons.prems(1), of t] by (intro Cons.IH) auto
  moreover have "int (kept_count lim (t # ts)) = int (kept_count ?lim ts) + (if fst (fst (lim_admit t lim)) then 1 else 0)"
    by (simp add: kept_count_def)
  ultimately show ?case
    using t new_window Cons.prems(1) by (auto simp: lim_admit_def Let_def limiter_ok_def split: if_splits)
qed

text \<open>No drop goes uncounted: what was reported and what is still to be reported add up.\<close>

definition reported_drops :: "(bool \<times> int) list \<Rightarrow> int" where
  "reported_drops ds = sum_list (map snd (filter fst ds))"

lemma drops_accounted:
  assumes "0 \<le> lim_dropped lim" "lim_dropped lim + int (length ts) \<le> max_i64"
  shows "reported_drops (decisions lim ts) + lim_dropped (after lim ts)
    = lim_dropped lim + int (length (filter (\<lambda>d. \<not> fst d) (decisions lim ts)))"
  using assms
proof (induction ts arbitrary: lim)
  case (Cons t ts)
  let ?lim = "snd (lim_admit t lim)"
  have step: "(if fst (fst (lim_admit t lim)) then snd (fst (lim_admit t lim)) else 0) + lim_dropped ?lim
      = lim_dropped lim + (if fst (fst (lim_admit t lim)) then 0 else 1)"
    "0 \<le> lim_dropped ?lim" "lim_dropped ?lim \<le> lim_dropped lim + 1"
    using Cons.prems by (auto simp: lim_admit_def Let_def i64_id)
  then have "reported_drops (decisions ?lim ts) + lim_dropped (after ?lim ts)
      = lim_dropped ?lim + int (length (filter (\<lambda>d. \<not> fst d) (decisions ?lim ts)))"
    using Cons.prems by (intro Cons.IH) auto
  then show ?case using step(1) by (auto simp: reported_drops_def split: if_splits)
qed (simp add: reported_drops_def)

section \<open>Sensitive keys\<close>

definition sensitiveKeys :: "string list" where
  "sensitiveKeys = [''clientrandom'', ''keylog'', ''key'', ''sessionkey'', ''privatekey'', ''psk'', ''plaintext'']"

definition to_lower :: "char \<Rightarrow> char" where
  "to_lower c = (if 65 \<le> byte c \<and> byte c \<le> 90 then char_of (byte c + 32) else c)"

fun normalize :: "string \<Rightarrow> string" where
  "normalize [] = []"
| "normalize (c # cs) =
     (if c = CHR ''_'' \<or> c = CHR ''-'' then normalize cs else to_lower c # normalize cs)"

definition trim_right_digits :: "string \<Rightarrow> string" where
  "trim_right_digits s = rev (dropWhile is_digit (rev s))"

definition isSensitive :: "string \<Rightarrow> bool" where
  "isSensitive key =
     (let name = trim_right_digits (normalize key)
      in name \<in> set sensitiveKeys \<or> suffix ''secret'' name \<or> suffix ''secrets'' name)"

lemma normalize_append [simp]: "normalize (s @ t) = normalize s @ normalize t"
  by (induction s) auto

text \<open>The spellings of one name: separators, case and trailing digits do not matter.\<close>

definition to_upper :: "char \<Rightarrow> char" where
  "to_upper c = (if 97 \<le> byte c \<and> byte c \<le> 122 then char_of (byte c - 32) else c)"

lemma char_eq_byte: "c = d \<longleftrightarrow> byte c = byte d"
  by (auto dest: injD [OF inj_of_char])

lemma byte_to_upper: "byte (to_upper c) = (if 97 \<le> byte c \<and> byte c \<le> 122 then byte c - 32 else byte c)"
proof -
  have "(byte c - 32) mod 256 = byte c - 32" if "byte c \<le> 122" using that by simp
  then show ?thesis by (auto simp: to_upper_def of_char_of)
qed

lemma byte_to_lower: "byte (to_lower c) = (if 65 \<le> byte c \<and> byte c \<le> 90 then byte c + 32 else byte c)"
  by (simp add: to_lower_def of_char_of)

lemma to_lower_to_upper: "to_lower (to_upper c) = to_lower c"
  unfolding char_eq_byte byte_to_lower byte_to_upper by auto

lemma separator_to_upper: "to_upper c = CHR ''_'' \<longleftrightarrow> c = CHR ''_''" "to_upper c = CHR ''-'' \<longleftrightarrow> c = CHR ''-''"
  unfolding char_eq_byte byte_to_upper by auto

lemma normalize_upper: "normalize (map to_upper s) = normalize s"
  by (induction s) (auto simp: separator_to_upper to_lower_to_upper)

lemma to_lower_digit: "is_digit c \<Longrightarrow> to_lower c = c"
  unfolding char_eq_byte byte_to_lower by (simp add: is_digit_def)

lemma normalize_digits: "\<forall>c \<in> set d. is_digit c \<Longrightarrow> normalize d = d"
  by (induction d) (auto simp: to_lower_digit, auto simp: is_digit_def)

lemma trim_right_digits_append: "\<forall>c \<in> set d. is_digit c \<Longrightarrow> trim_right_digits (s @ d) = trim_right_digits s"
  unfolding trim_right_digits_def rev_append by (subst dropWhile_append2) auto

section \<open>Attributes\<close>

text \<open>A value \<^verbatim>\<open>slog\<close> has no kind for, by what the code asks of it, in the order it asks.\<close>

datatype reflect_kind =
    KBool bool | KInt int | KUint nat | KFloat nat | KString string | KOther

record any_value =
  av_nil :: bool \<comment> \<open>a nil interface or a nil pointer\<close>
  av_string :: "string option" \<comment> \<open>an \<^verbatim>\<open>error\<close> or \<^verbatim>\<open>Stringer\<close>: what \<^verbatim>\<open>fmt.Sprint\<close> gives\<close>
  av_text :: "string option option" \<comment> \<open>a \<^verbatim>\<open>TextMarshaler\<close>: the text, or none on an error\<close>
  av_kind :: reflect_kind

datatype slog_value =
    VString string
  | VInt int
  | VUint nat
  | VFloat nat
  | VBool bool
  | VTime time
  | VDuration duration
  | VAny any_value
  | VGroup "(string \<times> slog_value) list"

type_synonym attr = "string \<times> slog_value"

definition redactedValue :: string where "redactedValue = ''***REDACTED***''"
definition unloggableValue :: string where "unloggableValue = ''***UNLOGGABLE***''"

definition nil_value :: slog_value where
  "nil_value = VAny \<lparr>av_nil = True, av_string = None, av_text = None, av_kind = KOther\<rparr>"

fun scalar_kind :: "reflect_kind \<Rightarrow> slog_value" where
  "scalar_kind (KBool b) = VBool b"
| "scalar_kind (KInt i) = VInt i"
| "scalar_kind (KUint n) = VUint n"
| "scalar_kind (KFloat x) = VFloat x"
| "scalar_kind (KString s) = VString s"
| "scalar_kind KOther = VString unloggableValue"

definition scalarAttr :: "string \<Rightarrow> any_value \<Rightarrow> attr" where
  "scalarAttr key v =
     (if av_nil v then (key, nil_value)
      else case av_string v of
        Some s \<Rightarrow> (key, VString s)
      | None \<Rightarrow> (case av_text v of
            Some (Some text) \<Rightarrow> (key, VString text)
          | Some None \<Rightarrow> (key, VString unloggableValue)
          | None \<Rightarrow> (key, scalar_kind (av_kind v))))"

text \<open>A time is an instant, so writing it in UTC changes nothing here.\<close>

definition replaceAttr :: "string list \<Rightarrow> attr \<Rightarrow> attr" where
  "replaceAttr groups a =
     (let (key, v) = a in
      if groups = [] \<and> key = ''time'' then (''timestamp'', v)
      else if groups = [] \<and> key = ''msg'' then (''message'', v)
      else if groups = [] \<and> (key = ''level'' \<or> key = ''source'') then a
      else if isSensitive key \<or> (\<exists>g \<in> set groups. isSensitive g) then (key, VString redactedValue)
      else case v of VAny x \<Rightarrow> scalarAttr key x | _ \<Rightarrow> a)"

section \<open>Emitting a record\<close>

text \<open>
  The leaves the handler writes, each with the keys of the groups around it. A group with
  no key is inlined, an empty group is left out, and so is an attribute with neither key
  nor value.
\<close>

type_synonym leaf = "string list \<times> string \<times> slog_value"

fun append_attr :: "string list \<Rightarrow> string \<Rightarrow> slog_value \<Rightarrow> leaf list" where
  "append_attr groups key (VGroup attrs) =
     concat (map (\<lambda>a. append_attr (if key = [] then groups else groups @ [key]) (fst a) (snd a)) attrs)"
| "append_attr groups key v =
     (let (key', v') = replaceAttr groups (key, v)
      in if key' = [] \<and> v' = nil_value then [] else [(groups, key', v')])"

record logger =
  lg_level :: int
  lg_limit :: "limiter option"

definition Limited :: "duration \<Rightarrow> int \<Rightarrow> logger \<Rightarrow> logger" where
  "Limited interval burst l = l\<lparr>lg_limit := Some (new_limiter interval burst)\<rparr>"

definition LevelInfo :: int where "LevelInfo = 0"
definition LevelWarn :: int where "LevelWarn = 4"
definition LevelError :: int where "LevelError = 8"

definition NewLogger :: "int option \<Rightarrow> logger" where
  "NewLogger level = \<lparr>lg_level = (case level of Some l \<Rightarrow> l | None \<Rightarrow> LevelInfo), lg_limit = None\<rparr>"

text \<open>\<open>LogAttrs\<close> with the attributes in the group \<^verbatim>\<open>context\<close>. The number of the level stands
  for its name.\<close>

definition log_attrs :: "time \<Rightarrow> int \<Rightarrow> string \<Rightarrow> attr list \<Rightarrow> leaf list" where
  "log_attrs now level msg attrs =
     append_attr [] ''time'' (VTime now) @ append_attr [] ''level'' (VInt level)
     @ append_attr [] ''msg'' (VString msg) @ append_attr [] ''context'' (VGroup attrs)"

definition logger_log :: "time \<Rightarrow> int \<Rightarrow> string \<Rightarrow> attr list \<Rightarrow> logger \<Rightarrow> leaf list option \<times> logger" where
  "logger_log now level msg attrs l =
     (if level < lg_level l then (None, l)
      else case lg_limit l of
        None \<Rightarrow> (Some (log_attrs now level msg attrs), l)
      | Some lim \<Rightarrow>
          (let ((keep, dropped), lim') = lim_admit now lim; l' = l\<lparr>lg_limit := Some lim'\<rparr>
           in if \<not> keep then (None, l')
              else (Some (log_attrs now level msg
                      (if dropped > 0 then attrs @ [(''suppressed'', VInt dropped)] else attrs)), l')))"

definition Info :: "time \<Rightarrow> string \<Rightarrow> attr list \<Rightarrow> logger \<Rightarrow> leaf list option \<times> logger" where
  "Info now msg attrs l = logger_log now LevelInfo msg attrs l"

definition Warn :: "time \<Rightarrow> string \<Rightarrow> attr list \<Rightarrow> logger \<Rightarrow> leaf list option \<times> logger" where
  "Warn now msg attrs l = logger_log now LevelWarn msg attrs l"

definition Error :: "time \<Rightarrow> string \<Rightarrow> attr list \<Rightarrow> logger \<Rightarrow> leaf list option \<times> logger" where
  "Error now msg attrs l = logger_log now LevelError msg attrs l"

section \<open>Nothing sensitive is emitted\<close>

text \<open>A leaf is masked when its key, or that of a group around it, is sensitive; and it is
  a single scalar, whatever the caller passed.\<close>

fun scalar :: "slog_value \<Rightarrow> bool" where
  "scalar (VGroup _) = False"
| "scalar (VAny v) = av_nil v"
| "scalar _ = True"

definition safe_leaf :: "leaf \<Rightarrow> bool" where
  "safe_leaf lf \<longleftrightarrow> (case lf of (groups, key, v) \<Rightarrow>
     scalar v \<and> ((isSensitive key \<or> (\<exists>g \<in> set groups. isSensitive g)) \<longrightarrow> v = VString redactedValue))"

lemma scalarAttr_scalar: "fst (scalarAttr key x) = key \<and> scalar (snd (scalarAttr key x))"
  by (cases "av_kind x") (auto simp: scalarAttr_def nil_value_def split: option.splits)

lemma isSensitive_builtin:
  "\<not> isSensitive ''timestamp''" "\<not> isSensitive ''message''" "\<not> isSensitive ''level''" "\<not> isSensitive ''source''"
  "\<not> isSensitive ''context''" "\<not> isSensitive ''suppressed''"
  by code_simp+

lemma replaceAttr_safe:
  assumes "groups \<noteq> []" "\<forall>attrs. v \<noteq> VGroup attrs"
  shows "safe_leaf (groups, replaceAttr groups (key, v))"
proof (cases "isSensitive key \<or> (\<exists>g \<in> set groups. isSensitive g)")
  case True
  with assms(1) show ?thesis by (auto simp: replaceAttr_def safe_leaf_def)
next
  case False
  show ?thesis
  proof (cases v)
    case (VAny x)
    obtain w where "scalarAttr key x = (key, w)" "scalar w"
      using scalarAttr_scalar [of key x] by (cases "scalarAttr key x") auto
    then show ?thesis using False VAny assms(1) by (auto simp: replaceAttr_def safe_leaf_def)
  qed (use False assms in \<open>auto simp: replaceAttr_def safe_leaf_def\<close>)
qed

lemma append_attr_safe: "groups \<noteq> [] \<Longrightarrow> lf \<in> set (append_attr groups key v) \<Longrightarrow> safe_leaf lf"
proof (induction groups key v arbitrary: lf rule: append_attr.induct)
  case (1 groups key attrs)
  from 1(3) obtain a where a: "a \<in> set attrs"
      "lf \<in> set (append_attr (if key = [] then groups else groups @ [key]) (fst a) (snd a))"
    by auto
  show ?case by (rule 1(1) [OF a(1) _ a(2)]) (use 1(2) in simp)
qed (use replaceAttr_safe in \<open>auto simp: Let_def split: prod.splits if_splits\<close>)

lemma log_attrs_safe: "lf \<in> set (log_attrs now level msg attrs) \<Longrightarrow> safe_leaf lf"
proof -
  assume "lf \<in> set (log_attrs now level msg attrs)"
  then consider "lf = ([], ''timestamp'', VTime now)" | "lf = ([], ''level'', VInt level)"
    | "lf = ([], ''message'', VString msg)"
    | a where "a \<in> set attrs" "lf \<in> set (append_attr [''context''] (fst a) (snd a))"
    by (auto simp: log_attrs_def replaceAttr_def nil_value_def)
  then show "safe_leaf lf"
  proof cases
    case 4
    then show ?thesis by (intro append_attr_safe) auto
  qed (simp_all add: safe_leaf_def isSensitive_builtin)
qed

section \<open>Properties\<close>

text \<open>
  C17: nothing sensitive is logged. In every record the logger emits, whatever attributes the
  caller passes and however deeply they are nested, each value whose key, or the key of a
  group around it, is sensitive is the redaction mark; and every value is a single scalar,
  so nothing can hide inside one.
\<close>

theorem log_never_leaks_secrets:
  assumes "fst (logger_log now level msg attrs l) = Some leaves" "(groups, key, v) \<in> set leaves"
  shows "scalar v \<and> (isSensitive key \<or> (\<exists>g \<in> set groups. isSensitive g) \<longrightarrow> v = VString ''***REDACTED***'')"
proof -
  obtain attrs' where "leaves = log_attrs now level msg attrs'"
    using assms(1) by (auto simp: logger_log_def Let_def split: if_splits option.splits prod.splits)
  then have "safe_leaf (groups, key, v)" using log_attrs_safe assms(2) by blast
  then show ?thesis by (simp add: safe_leaf_def redactedValue_def)
qed

lemma log_never_leaks_secrets_witness:
  "fst (logger_log 0 LevelInfo ''m'' [(''conn'', VGroup [(''client_random'', VString ''aabb'')])] (NewLogger None))
     = Some [([], ''timestamp'', VTime 0), ([], ''level'', VInt 0), ([], ''message'', VString ''m''),
             ([''context'', ''conn''], ''client_random'', VString ''***REDACTED***'')]"
proof -
  let ?r = "fst (logger_log 0 LevelInfo ''m'' [(''conn'', VGroup [(''client_random'', VString ''aabb'')])] (NewLogger None))"
  have s: "isSensitive ''client_random''" by code_simp
  obtain v where r: "?r = Some [([], ''timestamp'', VTime 0), ([], ''level'', VInt 0), ([], ''message'', VString ''m''),
      ([''context'', ''conn''], ''client_random'', v)]"
    by (simp add: logger_log_def NewLogger_def LevelInfo_def log_attrs_def replaceAttr_def s nil_value_def)
  from log_never_leaks_secrets [OF r, of "[''context'', ''conn'']" "''client_random''" v] s r show ?thesis by simp
qed

text \<open>
  Which keys are sensitive. Every label of the keylog format is; and how a name is
  spelled does not matter: a separator anywhere, the case of its letters and digits at its
  end change nothing.
\<close>

lemma key_spelling_does_not_matter:
  "isSensitive (labelName lab)
   \<and> isSensitive (s @ ''_'' @ t) = isSensitive (s @ t) \<and> isSensitive (s @ ''-'' @ t) = isSensitive (s @ t)
   \<and> isSensitive (map to_upper s) = isSensitive s
   \<and> ((\<forall>c \<in> set d. is_digit c) \<longrightarrow> isSensitive (s @ d) = isSensitive s)"
proof (intro conjI impI)
  show "isSensitive (labelName lab)" by (cases lab) (simp_all only: labelName.simps, code_simp+)
  assume "\<forall>c \<in> set d. is_digit c"
  then show "isSensitive (s @ d) = isSensitive s"
    by (simp add: isSensitive_def normalize_digits trim_right_digits_append)
qed (simp_all add: isSensitive_def normalize_upper)

lemma key_spelling_does_not_matter_witness: "isSensitive (''SESSION-KEY'' @ ''42'') = isSensitive ''SESSION-KEY''"
  using key_spelling_does_not_matter [of LabelClientRandom "''SESSION-KEY''" "[]" "''42''"] by (simp add: is_digit_def)

text \<open>
  C40: the rate limit. Among records whose clock readings lie within one interval's length of
  each other, at any point of a limiter's life, at most twice the burst is kept; within the
  first window of a new one, at most the burst; and every drop is accounted for: what the
  kept records report as suppressed, and what is still to be reported, is what was dropped.
\<close>

theorem limiter_bounds_and_accounts:
  assumes "0 \<le> burst" "0 < interval" "interval \<le> max_i64" "int (length before + length ts) \<le> max_i64"
    "\<forall>t \<in> set ts. a \<le> t \<and> t < a + interval"
  shows "int (length (filter fst (decisions (after (new_limiter interval burst) before) ts))) \<le> 2 * burst
    \<and> (before = [] \<and> a \<le> 0 \<longrightarrow> int (length (filter fst (decisions (new_limiter interval burst) ts))) \<le> burst)
    \<and> reported_drops (decisions (new_limiter interval burst) (before @ ts)) + lim_dropped (after (new_limiter interval burst) (before @ ts))
       = int (length (filter (\<lambda>d. \<not> fst d) (decisions (new_limiter interval burst) (before @ ts))))"
proof -
  let ?new = "new_limiter interval burst"
  note new = limiter_ok_new [OF assms(1-3)]
  note ok = limiter_ok_after [OF new, of before]
  have iv: "lim_interval ?new = interval" "lim_burst ?new = burst" "lim_start ?new = 0" "lim_kept ?new = 0"
    by (simp_all add: new_limiter_def)
  have "int (kept_count (after ?new before) ts) \<le> 2 * burst"
    using kept_count_span [OF conjunct1 [OF ok], of ts a] ok assms(5) iv
    by (auto simp: limiter_ok_def split: if_splits)
  moreover have "int (kept_count ?new ts) \<le> burst" if "a \<le> 0"
    using kept_count_span [OF new, of ts a] assms(5) iv that by simp
  moreover have "reported_drops (decisions ?new (before @ ts)) + lim_dropped (after ?new (before @ ts))
      = int (length (filter (\<lambda>d. \<not> fst d) (decisions ?new (before @ ts))))"
    using drops_accounted [of ?new "before @ ts"] assms(4) by (simp add: new_limiter_def)
  ultimately show ?thesis by (simp add: kept_count_def)
qed

lemma limiter_bounds_and_accounts_witness:
  "int (length (filter fst (decisions (after (new_limiter 60 2) [100]) [101, 102, 103, 104]))) \<le> 2 * 2"
  using limiter_bounds_and_accounts [of 2 60 "[100]" "[101, 102, 103, 104]" 101] by simp

end
