(* ===== verification/Keylog_Server.thy ===== *)
theory Keylog_Server
  imports Keylog_Writer Logger Go_Paths
begin

text \<open>
  \<^verbatim>\<open>internal/keylog/socket_server.go\<close>: the Unix-socket server the interposer connects to.
  Every connection is served by its own goroutine, which scans newline-delimited lines and
  appends each; the appends of different connections interleave, which is the step
  relation \<open>server_step\<close>.
\<close>

unbundle bit_operations_syntax

section \<open>State and start-up\<close>

record server_config =
  SocketPath :: string
  KeylogPath :: string
  cfg_Sink :: bool
  cfg_Gate :: bool

record socket_server =
  sv_writer :: klog
  sv_socketPath :: string
  sv_rejectLog :: logger
  sv_readErrLog :: logger
  sv_rejected :: int
  sv_out :: "leaf list list" \<comment> \<open>the records logged\<close>

definition warnLogBurst :: int where "warnLogBurst = 10"
definition warnLogInterval :: duration where "warnLogInterval = 60 * ns_second"

datatype server_error =
    SocketDirError errno
  | SocketDirStat errno
  | WorldAccessibleSocketDir nat
  | StaleSocketError errno
  | ListenError errno
  | ChmodError errno
  | KeylogError errno

datatype server_action =
    DoMkdir string nat
  | DoStat string
  | DoRemove string
  | DoListen string
  | DoChmod string nat
  | DoOpenKeylog string
  | DoCloseListener
  | DoCloseKeylog

text \<open>What the operating system answers to each of the calls.\<close>

record server_env =
  os_mkdir :: "errno option"
  os_stat :: "errno + nat"
  os_rm :: "errno option"
  os_listen :: "errno option"
  os_chmod :: "errno option"
  keylog_mkdir :: "errno option"
  keylog_open :: "errno option"
  keylog_content :: string

text \<open>The mask is \<^verbatim>\<open>0o066\<close>.\<close>

definition checkSocketDir :: "errno + nat \<Rightarrow> server_error option" where
  "checkSocketDir st =
     (case st of
        Inl e \<Rightarrow> if e = ENOENT then None else Some (SocketDirStat e)
      | Inr perm \<Rightarrow> if perm AND 54 \<noteq> 0 then Some (WorldAccessibleSocketDir perm) else None)"

definition NewSocketServer ::
  "server_env \<Rightarrow> server_config \<Rightarrow> logger \<Rightarrow> (server_error + socket_server) \<times> server_action list" where
  "NewSocketServer env cfg log =
     (let dir = path_dir (SocketPath cfg); acts = [DoMkdir dir 457] in
      case os_mkdir env of Some e \<Rightarrow> (Inl (SocketDirError e), acts) | None \<Rightarrow>
      let acts = acts @ [DoStat dir] in
      case checkSocketDir (os_stat env) of Some e \<Rightarrow> (Inl e, acts) | None \<Rightarrow>
      let acts = acts @ [DoRemove (SocketPath cfg)];
          rm = (if os_rm env = Some ENOENT then None else os_rm env) in
      case rm of Some e \<Rightarrow> (Inl (StaleSocketError e), acts) | None \<Rightarrow>
      let acts = acts @ [DoListen (SocketPath cfg)] in
      case os_listen env of Some e \<Rightarrow> (Inl (ListenError e), acts) | None \<Rightarrow>
      let acts = acts @ [DoChmod (SocketPath cfg) 438] in
      case os_chmod env of Some e \<Rightarrow> (Inl (ChmodError e), acts @ [DoCloseListener]) | None \<Rightarrow>
      let acts = acts @ [DoOpenKeylog (KeylogPath cfg)] in
      case NewKeylogWriter (keylog_mkdir env) (keylog_open env) (keylog_content env)
             [WithSink (cfg_Sink cfg), WithGate (cfg_Gate cfg)] of
        Inl e \<Rightarrow> (Inl (KeylogError e), acts @ [DoCloseListener])
      | Inr w \<Rightarrow>
          (Inr \<lparr>sv_writer = w, sv_socketPath = SocketPath cfg,
             sv_rejectLog = Limited warnLogInterval warnLogBurst log,
             sv_readErrLog = Limited warnLogInterval warnLogBurst log,
             sv_rejected = 0, sv_out = []\<rparr>, acts))"

section \<open>Serving a connection\<close>

definition reject_msg :: string where "reject_msg = ''keylog: socket server rejected a malformed line''"
definition read_error_msg :: string where "read_error_msg = ''keylog: socket server connection read error''"

text \<open>
  One line of a connection: what the clock read, what the gate answered and how the file
  write went are the world's. A record that is kept joins \<open>sv_out\<close>.
\<close>

record line_env =
  le_now :: time
  le_gate :: bool
  le_write :: write_result

definition emit :: "leaf list option \<Rightarrow> leaf list list" where
  "emit r = (case r of Some x \<Rightarrow> [x] | None \<Rightarrow> [])"

definition handle_line :: "line_env \<Rightarrow> string \<Rightarrow> socket_server \<Rightarrow> socket_server \<times> klog_action list" where
  "handle_line le line s =
     (if line = [] then (s, [])
      else let (err, w, acts) = Append (le_gate le) (le_write le) (sv_writer s) line;
               s1 = s\<lparr>sv_writer := w\<rparr> in
        (case err of
           None \<Rightarrow> (s1, acts)
         | Some _ \<Rightarrow>
             let (out, lg) = Warn (le_now le) reject_msg [] (sv_rejectLog s1)
             in (s1\<lparr>sv_rejectLog := lg, sv_out := sv_out s1 @ emit out, sv_rejected := i64 (sv_rejected s1 + 1)\<rparr>, acts)))"

fun serve_lines :: "(nat \<Rightarrow> line_env) \<Rightarrow> nat \<Rightarrow> string list \<Rightarrow> socket_server \<Rightarrow> socket_server" where
  "serve_lines env n [] s = s"
| "serve_lines env n (l # ls) s = serve_lines env (Suc n) ls (fst (handle_line (env n) l s))"

text \<open>
  \<open>bytes\<close> is all the connection sends; the scanner ends at its end, at a read error, or
  at a line of \<open>max_scan_token_size\<close> bytes or more.
\<close>

definition handleConn :: "(nat \<Rightarrow> line_env) \<Rightarrow> time \<Rightarrow> string \<Rightarrow> string option \<Rightarrow> socket_server \<Rightarrow> socket_server" where
  "handleConn env now bytes read_err s =
     (let (ls, too_long) = scan_lines max_scan_token_size bytes;
          s1 = serve_lines env 0 ls s;
          err = (if too_long then Some ''bufio.Scanner: token too long'' else read_err) in
      case err of
        None \<Rightarrow> s1
      | Some e \<Rightarrow>
          let (out, lg) = Warn now read_error_msg [(''error'', VString e)] (sv_readErrLog s1)
          in s1\<lparr>sv_readErrLog := lg, sv_out := sv_out s1 @ emit out\<rparr>)"

definition RejectedCount :: "socket_server \<Rightarrow> int" where
  "RejectedCount s = sv_rejected s"

text \<open>Closing tries all three parts whatever fails; a socket already gone is no error.\<close>

definition CloseServer ::
  "errno option \<Rightarrow> errno option \<Rightarrow> errno option \<Rightarrow> socket_server \<Rightarrow> errno list \<times> server_action list" where
  "CloseServer ln_err writer_err rm_err s =
     (if sv_socketPath s = [] then (errors_join [ln_err, writer_err], [DoCloseListener, DoCloseKeylog])
      else (errors_join [ln_err, writer_err, if rm_err = Some ENOENT then None else rm_err],
            [DoCloseListener, DoCloseKeylog, DoRemove (sv_socketPath s)]))"

section \<open>Start-up is fail-safe\<close>

lemma NewSocketServer_closes:
  assumes "NewSocketServer env cfg log = (Inl e, acts)" "DoListen p \<in> set acts" "os_listen env = None"
  shows "last acts = DoCloseListener"
  using assms
  by (auto simp: NewSocketServer_def checkSocketDir_def Let_def split: option.splits sum.splits if_splits)

lemma NewSocketServer_refuses:
  assumes "os_stat env = Inr perm" "perm AND 54 \<noteq> 0"
  shows "(\<exists>e. fst (NewSocketServer env cfg log) = Inl e) \<and> DoListen p \<notin> set (snd (NewSocketServer env cfg log))"
proof -
  have "checkSocketDir (os_stat env) = Some (WorldAccessibleSocketDir perm)"
    using assms by (simp add: checkSocketDir_def)
  then show ?thesis by (cases "os_mkdir env") (simp_all add: NewSocketServer_def Let_def)
qed

lemma NewSocketServer_started:
  assumes "NewSocketServer env cfg log = (Inr s, acts)"
  shows "holds_lines (keylog_content env) [] (sv_writer s)" "sv_rejected s = 0"
    "has_sink (sv_writer s) = cfg_Sink cfg" "has_gate (sv_writer s) = cfg_Gate cfg"
  using assms
  by (auto simp: NewSocketServer_def NewKeylogWriter_def holds_lines_def WithSink_def WithGate_def Let_def
      split: option.splits sum.splits if_splits)

section \<open>Connections side by side\<close>

text \<open>\<open>conns i\<close>: the lines connection \<open>i\<close> has still to serve.\<close>

type_synonym server_label = "nat \<times> string \<times> line_env"

inductive server_step ::
  "socket_server \<times> (nat \<Rightarrow> string list) \<Rightarrow> server_label \<Rightarrow> socket_server \<times> (nat \<Rightarrow> string list) \<Rightarrow> bool" where
  serve: "conns i = line # ls \<Longrightarrow> s' = fst (handle_line le line s) \<Longrightarrow>
    server_step (s, conns) (i, line, le) (s', conns(i := ls))"

inductive_simps server_step_simps: "server_step sc lab sc'"

text \<open>
  \<^verbatim>\<open>Run\<close>: each accepted connection, by number, with the lines its scanner will give; an
  error of \<^verbatim>\<open>Accept\<close> ends the loop.
\<close>

fun RunServer :: "nat \<Rightarrow> (errno + string) list \<Rightarrow> errno option \<times> (nat \<Rightarrow> string list)" where
  "RunServer i [] = (None, \<lambda>_. [])"
| "RunServer i (Inl e # _) = (Some e, \<lambda>_. [])"
| "RunServer i (Inr bytes # conns) =
     (let (err, served) = RunServer (Suc i) conns
      in (err, served(i := fst (scan_lines max_scan_token_size bytes))))"

lemma RunServer_lines:
  "RunServer i accepted = (err, conns) \<Longrightarrow> l \<in> set (conns j) \<Longrightarrow>
   \<exists>bytes. Inr bytes \<in> set accepted \<and> l \<in> set (fst (scan_lines max_scan_token_size bytes))"
  by (induction i accepted arbitrary: conns rule: RunServer.induct) (fastforce split: prod.splits if_splits)+

lemma server_run_lines:
  assumes "run server_step sc labs sc'" "lab \<in> set labs"
  shows "\<exists>i. fst (snd lab) \<in> set (snd sc i)"
  using assms
proof (induction rule: run.induct)
  case (run_Cons sc e sc1 labs sc2)
  show ?case
  proof (cases "lab = e")
    case True
    with run_Cons.hyps(1) show ?thesis by (auto simp: server_step_simps intro: exI [of _ "fst e"])
  next
    case False
    then obtain i where "fst (snd lab) \<in> set (snd sc1 i)" using run_Cons by auto
    moreover have "set (snd sc1 i) \<subseteq> set (snd sc i)"
      using run_Cons.hyps(1) by (auto simp: server_step_simps split: if_splits)
    ultimately show ?thesis by blast
  qed
qed simp

definition served :: "server_label list \<Rightarrow> string list" where
  "served labs = map (\<lambda>l. fst (snd l)) labs"

lemma served_simps [simp]: "served [] = []" "served (lab # labs) = fst (snd lab) # served labs" "served (xs @ ys) = served xs @ served ys"
  by (simp_all add: served_def)

definition malformed_count :: "string list \<Rightarrow> nat" where
  "malformed_count ls = length (filter (\<lambda>l. l \<noteq> [] \<and> ValidateLine l \<noteq> None) ls)"

text \<open>What a served line that was written left in the file: all of it and its newline, or what a
  write that failed got done.\<close>

definition whole_write :: "server_label \<Rightarrow> bool" where
  "whole_write lab \<longleftrightarrow> le_write (snd (snd lab)) = WriteOk"

definition written_bytes :: "server_label \<Rightarrow> string" where
  "written_bytes lab =
     (case le_write (snd (snd lab)) of
        WriteOk \<Rightarrow> fst (snd lab) @ [newline]
      | WriteFail n _ \<Rightarrow> take n (fst (snd lab) @ [newline]))"

lemma written_whole: "\<forall>lab \<in> set ws. whole_write lab \<Longrightarrow> concat (map written_bytes ws) = unlines (served ws)"
  by (induction ws) (simp_all add: whole_write_def written_bytes_def)

text \<open>What serving one line does, by what is asked of it in turn.\<close>

lemma handle_line_cases:
  fixes i :: nat and le :: line_env and line :: string and s :: socket_server
  defines "s' \<equiv> fst (handle_line le line s)"
  obtains (empty) "line = []" "s' = s"
    | (malformed) "line \<noteq> []" "ValidateLine line \<noteq> None" "sv_writer s' = sv_writer s" "sv_rejected s' = i64 (sv_rejected s + 1)"
    | (ignored) "ValidateLine line = None" "has_gate (sv_writer s) \<and> \<not> le_gate le \<or> line_key line \<in> seen (sv_writer s)"
      "sv_writer s' = sv_writer s" "sv_rejected s' = sv_rejected s"
    | (whole) "ValidateLine line = None" "has_gate (sv_writer s) \<longrightarrow> le_gate le" "line_key line \<notin> seen (sv_writer s)"
      "whole_write (i, line, le)" "sv_rejected s' = sv_rejected s"
      "sv_writer s' = (sv_writer s)\<lparr>kfile := kfile (sv_writer s) @ written_bytes (i, line, le),
         seen := insert (line_key line) (seen (sv_writer s))\<rparr>"
    | (torn) "ValidateLine line = None" "has_gate (sv_writer s) \<longrightarrow> le_gate le" "line_key line \<notin> seen (sv_writer s)"
      "\<not> whole_write (i, line, le)" "sv_rejected s' = i64 (sv_rejected s + 1)"
      "sv_writer s' = (sv_writer s)\<lparr>kfile := kfile (sv_writer s) @ written_bytes (i, line, le)\<rparr>"
proof (cases "line = []")
  case True
  then show thesis using empty by (simp add: s'_def handle_line_def)
next
  case ne: False
  show thesis
  proof (cases "ValidateLine line")
    case (Some m)
    then show thesis using ne malformed by (simp add: s'_def handle_line_def Append_def case_prod_beta Let_def)
  next
    case valid: None
    show thesis
    proof (cases "has_gate (sv_writer s) \<and> \<not> le_gate le \<or> line_key line \<in> seen (sv_writer s)")
      case True
      then have "Append (le_gate le) (le_write le) (sv_writer s) line = (None, sv_writer s, [])"
        using valid by (auto simp: Append_def line_key_def Let_def)
      then show thesis using True valid ne ignored by (simp add: s'_def handle_line_def)
    next
      case False
      then have open_gate: "has_gate (sv_writer s) \<longrightarrow> le_gate le" "line_key line \<notin> seen (sv_writer s)" by auto
      show thesis
      proof (cases "le_write le")
        case WriteOk
        then show thesis
          using valid ne open_gate Append_written [OF valid open_gate]
          by (intro whole) (simp_all add: s'_def handle_line_def whole_write_def written_bytes_def)
      next
        case (WriteFail n e)
        then have "Append (le_gate le) (le_write le) (sv_writer s) line =
            (Some (WriteError e), (sv_writer s)\<lparr>kfile := kfile (sv_writer s) @ take n (line @ [newline])\<rparr>, [FileWrite (line @ [newline])])"
          using valid open_gate by (auto simp: Append_def line_key_def Let_def)
        then show thesis
          using valid ne open_gate WriteFail
          by (intro torn) (simp_all add: s'_def handle_line_def whole_write_def written_bytes_def case_prod_beta Let_def)
      qed
    qed
  qed
qed

text \<open>
  The file is what it held, followed by what was written of the served lines \<open>ws\<close>: well formed
  ones, served while the gate was open, with no two whole ones alike.
\<close>

definition wrote :: "string \<Rightarrow> server_label list \<Rightarrow> klog \<Rightarrow> bool" where
  "wrote old ws w \<longleftrightarrow>
     kfile w = old @ concat (map written_bytes ws) \<and> seen w = line_key ` set (served (filter whole_write ws))
     \<and> distinct (map line_key (served (filter whole_write ws)))
     \<and> (\<forall>lab \<in> set ws. ValidateLine (fst (snd lab)) = None \<and> newline \<notin> set (fst (snd lab)) \<and> (has_gate w \<longrightarrow> le_gate (snd (snd lab))))"

text \<open>
  The file so; the written lines in the order they were served; every well-formed line served while
  the gate was open there, unless its own write failed; and the counter counts the malformed
  lines and the failed writes.
\<close>

definition served_ok :: "server_label list \<Rightarrow> server_label list \<Rightarrow> socket_server \<Rightarrow> bool" where
  "served_ok labs ws s \<longleftrightarrow> subseq ws labs
     \<and> (\<forall>lab \<in> set labs. le_gate (snd (snd lab)) \<and> ValidateLine (fst (snd lab)) = None
          \<longrightarrow> line_key (fst (snd lab)) \<in> seen (sv_writer s) \<or> lab \<in> set ws)
     \<and> sv_rejected s = int (malformed_count (served labs) + length (filter (\<lambda>lab. \<not> whole_write lab) ws))"

definition server_ok :: "string \<Rightarrow> server_label list \<Rightarrow> socket_server \<Rightarrow> bool" where
  "server_ok old labs s \<longleftrightarrow> (\<exists>ws. wrote old ws (sv_writer s) \<and> served_ok labs ws s)"

lemma served_ok_bound:
  assumes "subseq ws labs" "\<forall>lab \<in> set ws. ValidateLine (fst (snd lab)) = None"
  shows "malformed_count (served labs) + length (filter (\<lambda>lab. \<not> whole_write lab) ws) \<le> length labs"
  using assms
proof (induction rule: list_emb.induct)
  case (list_emb_Nil labs)
  then show ?case by (simp add: malformed_count_def served_def le_trans [OF length_filter_le])
next
  case (list_emb_Cons ws labs lab)
  then show ?case by (simp add: malformed_count_def)
next
  case (list_emb_Cons2 x y ws labs)
  then show ?case by (simp add: malformed_count_def)
qed

lemma handle_line_ok:
  assumes "server_ok old labs s" "newline \<notin> set line" "int (length labs) < max_i64"
  shows "server_ok old (labs @ [(i, line, le)]) (fst (handle_line le line s))"
proof -
  let ?lab = "(i, line, le)"
  obtain ws where ws: "wrote old ws (sv_writer s)" "served_ok labs ws s" using assms(1) by (auto simp: server_ok_def)
  have "malformed_count (served labs) + length (filter (\<lambda>lab. \<not> whole_write lab) ws) \<le> length labs"
    by (rule served_ok_bound) (use ws in \<open>auto simp: wrote_def served_ok_def\<close>)
  then have inc: "i64 (sv_rejected s + 1) = sv_rejected s + 1"
    using ws(2) assms(3) by (intro i64_id) (auto simp: served_ok_def)
  have sub: "subseq ws (labs @ [?lab])" "subseq (ws @ [?lab]) (labs @ [?lab])"
    using ws(2) by (auto simp: served_ok_def intro: subseq_rev_drop_many)
  show ?thesis
  proof (cases rule: handle_line_cases [where line = line and le = le and s = s and i = i])
    case empty
    moreover have "ValidateLine [] \<noteq> None" using valid_not_Nil by blast
    ultimately show ?thesis
      using ws sub(1) unfolding server_ok_def by (intro exI [of _ ws]) (auto simp: served_ok_def malformed_count_def)
  next
    case malformed
    then show ?thesis
      using ws sub(1) inc unfolding server_ok_def by (intro exI [of _ ws]) (auto simp: served_ok_def malformed_count_def)
  next
    case ignored
    then show ?thesis
      using ws sub(1) unfolding server_ok_def by (intro exI [of _ ws]) (auto simp: served_ok_def malformed_count_def wrote_def)
  next
    case whole
    then show ?thesis
      using ws sub(2) assms(2) unfolding server_ok_def
      by (intro exI [of _ "ws @ [?lab]"]) (auto simp: served_ok_def malformed_count_def wrote_def)
  next
    case torn
    then show ?thesis
      using ws sub(2) inc assms(2) unfolding server_ok_def
      by (intro exI [of _ "ws @ [?lab]"]) (auto simp: served_ok_def malformed_count_def wrote_def)
  qed
qed

text \<open>Every interleaving keeps it.\<close>

lemma run_server_ok:
  assumes "run server_step sc labs sc'" "server_ok old old_labs (fst sc)"
    "\<forall>lab \<in> set labs. newline \<notin> set (fst (snd lab))" "int (length old_labs + length labs) \<le> max_i64"
  shows "server_ok old (old_labs @ labs) (fst sc')"
  using assms
proof (induction arbitrary: old_labs rule: run.induct)
  case (run_Cons sc lab sc1 labs sc2)
  obtain i line le where lab: "lab = (i, line, le)" using prod_cases3 by blast
  have "fst sc1 = fst (handle_line le line (fst sc))"
    using run_Cons.hyps(1) by (auto simp: lab server_step_simps)
  then have "server_ok old (old_labs @ [lab]) (fst sc1)"
    using handle_line_ok [OF run_Cons.prems(1), of line i le] run_Cons.prems(2,3) by (simp add: lab)
  from run_Cons.IH [OF this] show ?case using run_Cons.prems(2,3) by simp
qed simp

lemma run_server_gate:
  "run server_step sc labs sc' \<Longrightarrow> has_gate (sv_writer (fst sc')) = has_gate (sv_writer (fst sc))"
proof (induction rule: run.induct)
  case (run_Cons sc lab sc1 labs sc2)
  have "has_gate (sv_writer (fst (handle_line le line s))) = has_gate (sv_writer s)" for le line s
    by (cases rule: handle_line_cases [where line = line and le = le and s = s and i = 0]) simp_all
  then show ?case using run_Cons by (auto simp: server_step_simps)
qed simp

text \<open>From a started server, over the connections it accepted.\<close>

lemma served_keylog:
  assumes "NewSocketServer senv cfg log = (Inr s, acts)" "RunServer 0 accepted = (err, conns)"
    "run server_step (s, conns) labs (s', conns')" "int (length labs) \<le> max_i64"
  obtains ws where "wrote (keylog_content senv) ws (sv_writer s')" "served_ok labs ws s'" "has_gate (sv_writer s') = cfg_Gate cfg"
proof -
  have "server_ok (keylog_content senv) [] s"
    using NewSocketServer_started [OF assms(1)]
    by (auto simp: server_ok_def wrote_def served_ok_def holds_lines_def malformed_count_def intro!: exI [of _ "[]"])
  moreover have "newline \<notin> set (fst (snd lab))" if "lab \<in> set labs" for lab
    using server_run_lines [OF assms(3) that] RunServer_lines [OF assms(2)] scan_lines_no_newline by fastforce
  ultimately have "server_ok (keylog_content senv) labs s'"
    using run_server_ok [OF assms(3), of "keylog_content senv" "[]"] assms(4) by simp
  then show thesis
    using that run_server_gate [OF assms(3)] NewSocketServer_started(4) [OF assms(1)] by (auto simp: server_ok_def)
qed

section \<open>One client\<close>

text \<open>The lines to be kept of a sequence of lines: the well-formed ones, each triple once and
  where it first comes, less the triples \<open>K\<close> kept before.\<close>

fun new_keys :: "string set \<Rightarrow> string list \<Rightarrow> string list" where
  "new_keys K [] = []"
| "new_keys K (l # ls) =
     (if ValidateLine l = None \<and> line_key l \<notin> K then l # new_keys (insert (line_key l) K) ls else new_keys K ls)"

lemma new_keys_skip: "ValidateLine l \<noteq> None \<or> line_key l \<in> K \<Longrightarrow> new_keys K (l # ls) = new_keys K ls"
  by auto

lemma new_keys_all:
  "\<forall>l \<in> set ls. ValidateLine l = None \<and> line_key l \<notin> K \<Longrightarrow> distinct (map line_key ls) \<Longrightarrow> new_keys K ls = ls"
proof (induction ls arbitrary: K)
  case (Cons l ls)
  have "line_key m \<noteq> line_key l" if "m \<in> set ls" for m using Cons.prems(2) that by (metis distinct.simps(2) image_eqI list.set_map list.simps(9))
  then have "new_keys (insert (line_key l) K) ls = ls" using Cons.prems by (intro Cons.IH) auto
  then show ?case using Cons.prems by simp
qed simp

lemma malformed_count_Cons:
  "malformed_count (l # ls) = (if l \<noteq> [] \<and> ValidateLine l \<noteq> None then Suc (malformed_count ls) else malformed_count ls)"
  by (simp add: malformed_count_def)

lemma serve_lines_exact:
  assumes "\<forall>n. le_write (env n) = WriteOk \<and> le_gate (env n)" "0 \<le> sv_rejected s" "sv_rejected s + int (length ls) \<le> max_i64"
  shows "kfile (sv_writer (serve_lines env k ls s)) = kfile (sv_writer s) @ unlines (new_keys (seen (sv_writer s)) ls)
    \<and> sv_rejected (serve_lines env k ls s) = sv_rejected s + int (malformed_count ls)"
  using assms(2,3)
proof (induction ls arbitrary: s k)
  case (Cons l ls)
  let ?s = "fst (handle_line (env k) l s)"
  have w: "whole_write (0, l, env k)" "le_gate (env k)" "written_bytes (0, l, env k) = l @ [newline]"
    using assms(1) by (simp_all add: whole_write_def written_bytes_def)
  have inc: "i64 (sv_rejected s + 1) = sv_rejected s + 1" using Cons.prems by (intro i64_id) auto
  note IH = Cons.IH [of ?s "Suc k"]
  show ?case
  proof (cases rule: handle_line_cases [where line = l and le = "env k" and s = s and i = 0])
    case empty
    then have "ValidateLine l \<noteq> None" using valid_not_Nil by blast
    from new_keys_skip [OF disjI1 [OF this]] show ?thesis
      using empty IH Cons.prems by (simp add: malformed_count_Cons del: new_keys.simps)
  next
    case malformed
    from new_keys_skip [OF disjI1 [OF malformed(2)]] show ?thesis
      using malformed IH Cons.prems inc by (simp add: malformed_count_Cons del: new_keys.simps)
  next
    case ignored
    then show ?thesis using IH Cons.prems w by (simp add: malformed_count_Cons)
  next
    case whole
    then show ?thesis using IH Cons.prems w by (simp add: malformed_count_Cons)
  qed (use w in simp)
qed (simp add: malformed_count_def)

lemma handleConn_lines:
  "sv_writer (handleConn env now bytes read_err s) = sv_writer (serve_lines env 0 (fst (scan_lines max_scan_token_size bytes)) s)"
  "sv_rejected (handleConn env now bytes read_err s) = sv_rejected (serve_lines env 0 (fst (scan_lines max_scan_token_size bytes)) s)"
  by (auto simp: handleConn_def Let_def case_prod_beta split: option.split)

section \<open>Properties\<close>

text \<open>
  C13: what a client sends is kept line by line. Whatever bytes a client sends, on a server that just
  started, with the gate open and every write to the keylog done in full: the file is what it held at
  start followed by exactly those of the lines scanned that are well formed, in their order,
  each triple once and where it first comes; and exactly the malformed ones are counted as
  rejected. Lines OpenSSL writes are scanned as they are, so that when they are well formed
  and no two have the same triple, the file gains exactly the bytes sent.
\<close>

theorem client_lines_reach_keylog:
  assumes "NewSocketServer senv cfg log = (Inr s, acts)" "\<forall>n. le_write (env n) = WriteOk \<and> le_gate (env n)"
    "fst (scan_lines max_scan_token_size bytes) = ls" "int (length ls) \<le> max_i64"
  shows "kfile (sv_writer (handleConn env now bytes read_err s)) = keylog_content senv @ unlines (new_keys {} ls)
    \<and> RejectedCount (handleConn env now bytes read_err s) = int (malformed_count ls)
    \<and> (bytes = unlines ms \<and> (\<forall>l \<in> set ms. openssl_line l) \<longrightarrow> ls = ms)
    \<and> (bytes = unlines ms \<and> (\<forall>l \<in> set ms. openssl_line l \<and> ValidateLine l = None) \<and> distinct (map line_key ms)
         \<longrightarrow> kfile (sv_writer (handleConn env now bytes read_err s)) = keylog_content senv @ bytes)"
proof -
  note st = NewSocketServer_started [OF assms(1)]
  have kept: "kfile (sv_writer (handleConn env now bytes read_err s)) = keylog_content senv @ unlines (new_keys {} ls)"
    "RejectedCount (handleConn env now bytes read_err s) = int (malformed_count ls)"
    using serve_lines_exact [OF assms(2), of s ls 0] st(1,2) assms(3,4)
    by (simp_all add: handleConn_lines RejectedCount_def holds_lines_def)
  have scan: "ls = ms" if "bytes = unlines ms" "\<forall>l \<in> set ms. openssl_line l"
    using assms(3) scan_lines_unlines [of ms max_scan_token_size] that openssl_line_plain by auto
  have "new_keys {} ls = ms" if "bytes = unlines ms" "\<forall>l \<in> set ms. openssl_line l \<and> ValidateLine l = None" "distinct (map line_key ms)"
    using scan that new_keys_all [of ms "{}"] by auto
  then show ?thesis using kept scan by auto
qed

definition sample_senv :: server_env where
  "sample_senv = \<lparr>os_mkdir = None, os_stat = Inr 457, os_rm = Some ENOENT, os_listen = None, os_chmod = None,
     keylog_mkdir = None, keylog_open = None, keylog_content = []\<rparr>"

definition sample_server_cfg :: server_config where
  "sample_server_cfg = \<lparr>SocketPath = ''/run/s/k.sock'', KeylogPath = ''/t/k.log'', cfg_Sink = True, cfg_Gate = True\<rparr>"

lemma and_54_457: "(457 :: nat) AND 54 = 0"
  by code_simp

lemma sample_server_starts: "\<exists>s acts. NewSocketServer sample_senv sample_server_cfg log = (Inr s, acts)"
  by (simp add: NewSocketServer_def sample_senv_def checkSocketDir_def and_54_457 NewKeylogWriter_def Let_def)

lemma client_lines_reach_keylog_witness:
  "\<exists>s acts. NewSocketServer sample_senv sample_server_cfg (NewLogger None) = (Inr s, acts)
    \<and> kfile (sv_writer (handleConn (\<lambda>_. \<lparr>le_now = 0, le_gate = True, le_write = WriteOk\<rparr>) 0
        (unlines [nss_line LabelClientTrafficSecret0 (replicate 64 CHR ''0'') (replicate 96 CHR ''a'')]) None s))
      = unlines [nss_line LabelClientTrafficSecret0 (replicate 64 CHR ''0'') (replicate 96 CHR ''a'')]"
proof -
  let ?line = "nss_line LabelClientTrafficSecret0 (replicate 64 CHR ''0'') (replicate 96 CHR ''a'')"
  let ?env = "\<lambda>_ :: nat. \<lparr>le_now = 0, le_gate = True, le_write = WriteOk\<rparr>"
  obtain s acts where s: "NewSocketServer sample_senv sample_server_cfg (NewLogger None) = (Inr s, acts)"
    using sample_server_starts by blast
  have line: "openssl_line ?line" "ValidateLine ?line = None"
    using nss_line_openssl [OF sample_parts] ValidateLine_nss_line [OF sample_parts] by blast+
  have scan: "fst (scan_lines max_scan_token_size (unlines [?line])) = [?line]"
    using scan_lines_unlines [of "[?line]" max_scan_token_size] openssl_line_plain [OF line(1)] by simp
  have "kfile (sv_writer (handleConn ?env 0 (unlines [?line]) None s)) = keylog_content sample_senv @ unlines [?line]"
    using conjunct2 [OF conjunct2 [OF conjunct2 [OF client_lines_reach_keylog [OF s _ scan, of ?env 0 None "[?line]"]]]] line
    by simp
  then show ?thesis using s by (auto simp: sample_senv_def)
qed

text \<open>
  C11: connections side by side. However the lines of the connections the server accepts
  interleave, whatever bytes they send and however writes to the file fail: the file is what it
  was followed by what was written of some of the served lines, in the order they were served. Each of
  them is well formed and was served while the gate, if there is one, was open; a write that did not
  fail left the line and its newline, and no two of those have the same triple; every well-formed
  line served while the gate was open has its triple there, unless its own write failed; and the
  rejection counter is the number of malformed lines served and of writes that failed. So
  when no write fails the file gains whole lines, and the counter counts malformed ones only.
\<close>

theorem interleaved_connections_keep_keylog:
  assumes "NewSocketServer senv cfg log = (Inr s, acts)" "RunServer 0 accepted = (err, conns)"
    "run server_step (s, conns) labs (s', conns')" "int (length labs) \<le> max_i64"
  shows "\<exists>ws. subseq ws labs \<and> kfile (sv_writer s') = keylog_content senv @ concat (map written_bytes ws)
    \<and> (\<forall>lab \<in> set ws. ValidateLine (fst (snd lab)) = None \<and> newline \<notin> set (fst (snd lab)) \<and> (cfg_Gate cfg \<longrightarrow> le_gate (snd (snd lab))))
    \<and> distinct (map line_key (served (filter whole_write ws)))
    \<and> (\<forall>lab \<in> set labs. le_gate (snd (snd lab)) \<and> ValidateLine (fst (snd lab)) = None
         \<longrightarrow> line_key (fst (snd lab)) \<in> line_key ` set (served (filter whole_write ws)) \<or> (lab \<in> set ws \<and> \<not> whole_write lab))
    \<and> RejectedCount s' = int (malformed_count (served labs) + length (filter (\<lambda>lab. \<not> whole_write lab) ws))
    \<and> ((\<forall>lab \<in> set labs. whole_write lab) \<longrightarrow>
         kfile (sv_writer s') = keylog_content senv @ unlines (served ws) \<and> RejectedCount s' = int (malformed_count (served labs)))"
proof -
  obtain ws where ws: "wrote (keylog_content senv) ws (sv_writer s')" "served_ok labs ws s'" "has_gate (sv_writer s') = cfg_Gate cfg"
    using served_keylog [OF assms] .
  have there: "line_key (fst (snd lab)) \<in> line_key ` set (served (filter whole_write ws))" if "lab \<in> set ws" "whole_write lab" for lab
    using that by (auto simp: served_def)
  have all: "concat (map written_bytes ws) = unlines (served ws) \<and> filter (\<lambda>lab. \<not> whole_write lab) ws = []"
    if "\<forall>lab \<in> set labs. whole_write lab"
  proof -
    have "set ws \<subseteq> set labs" using ws(2) by (auto simp: served_ok_def dest: list_emb_set)
    then have "\<forall>lab \<in> set ws. whole_write lab" using that by blast
    then show ?thesis using written_whole by (auto simp: filter_empty_conv)
  qed
  show ?thesis
  proof (intro exI [of _ ws] conjI)
    show "\<forall>lab \<in> set labs. le_gate (snd (snd lab)) \<and> ValidateLine (fst (snd lab)) = None
        \<longrightarrow> line_key (fst (snd lab)) \<in> line_key ` set (served (filter whole_write ws)) \<or> (lab \<in> set ws \<and> \<not> whole_write lab)"
      using ws(1,2) there unfolding served_ok_def wrote_def by blast
  qed (use ws all in \<open>auto simp: wrote_def served_ok_def RejectedCount_def\<close>)
qed

definition bad_conns :: "nat \<Rightarrow> string list" where
  "bad_conns = (\<lambda>_. [])(0 := [''bad line''])"

lemma bad_conns_run: "RunServer 0 [Inr (unlines [''bad line''])] = (None, bad_conns)"
  using scan_lines_unlines [of "[''bad line'']" max_scan_token_size] by (simp add: bad_conns_def max_scan_token_size_def)

lemma interleaved_connections_keep_keylog_witness:
  "\<exists>s acts s' conns' ls. NewSocketServer sample_senv sample_server_cfg (NewLogger None) = (Inr s, acts)
    \<and> run server_step (s, bad_conns) [(0, ''bad line'', \<lparr>le_now = 0, le_gate = True, le_write = WriteOk\<rparr>)] (s', conns')
    \<and> kfile (sv_writer s') = unlines ls \<and> RejectedCount s' = int (malformed_count [''bad line''])"
proof -
  let ?le = "\<lparr>le_now = 0, le_gate = True, le_write = WriteOk\<rparr>"
  obtain s acts where s: "NewSocketServer sample_senv sample_server_cfg (NewLogger None) = (Inr s, acts)"
    using sample_server_starts by blast
  have "server_step (s, bad_conns) (0, ''bad line'', ?le) (fst (handle_line ?le ''bad line'' s), bad_conns(0 := []))"
    by (rule server_step.serve) (simp_all add: bad_conns_def)
  then have r: "run server_step (s, bad_conns) [(0, ''bad line'', ?le)]
      (fst (handle_line ?le ''bad line'' s), bad_conns(0 := []))"
    by (rule run_Cons) (rule run_Nil)
  have "\<exists>ls. kfile (sv_writer (fst (handle_line ?le ''bad line'' s))) = unlines ls
      \<and> RejectedCount (fst (handle_line ?le ''bad line'' s)) = int (malformed_count [''bad line''])"
  proof -
    obtain ws where "(\<forall>lab \<in> set [(0 :: nat, ''bad line'', ?le)]. whole_write lab) \<longrightarrow>
        kfile (sv_writer (fst (handle_line ?le ''bad line'' s))) = keylog_content sample_senv @ unlines (served ws)
        \<and> RejectedCount (fst (handle_line ?le ''bad line'' s)) = int (malformed_count (served [(0, ''bad line'', ?le)]))"
      using interleaved_connections_keep_keylog [OF s bad_conns_run r] by auto
    then show ?thesis by (auto simp: whole_write_def sample_senv_def)
  qed
  then obtain ls where "kfile (sv_writer (fst (handle_line ?le ''bad line'' s))) = unlines ls"
      "RejectedCount (fst (handle_line ?le ''bad line'' s)) = int (malformed_count [''bad line''])"
    by (elim exE conjE)
  with s r show ?thesis
    by (intro exI [of _ s] exI [of _ acts] exI [of _ "fst (handle_line ?le ''bad line'' s)"]
        exI [of _ "bad_conns(0 := [])"] exI [of _ ls] conjI)
qed

text \<open>
  The server starts only on a private directory and never leaks a socket. A socket
  directory that group or others may read or write is refused before anything listens, and
  a start that fails after listening closes the listener as its last act.
\<close>

lemma server_start_is_fail_safe:
  "(os_stat env = Inr perm \<and> perm AND 54 \<noteq> 0 \<longrightarrow>
      (\<exists>e. fst (NewSocketServer env cfg log) = Inl e) \<and> (\<forall>p. DoListen p \<notin> set (snd (NewSocketServer env cfg log))))
   \<and> (fst (NewSocketServer env cfg log) = Inl e \<and> DoListen p \<in> set (snd (NewSocketServer env cfg log)) \<and> os_listen env = None
      \<longrightarrow> last (snd (NewSocketServer env cfg log)) = DoCloseListener)"
  using NewSocketServer_refuses [of env perm cfg log]
    NewSocketServer_closes [of env cfg log e "snd (NewSocketServer env cfg log)" p]
  by (auto simp: prod_eq_iff)

lemma and_54_511: "(511 :: nat) AND 54 \<noteq> 0"
  by code_simp

lemma server_start_is_fail_safe_witness:
  "\<exists>e. fst (NewSocketServer (sample_senv\<lparr>os_stat := Inr 511\<rparr>) sample_server_cfg (NewLogger None)) = Inl e"
  using conjunct1 [OF server_start_is_fail_safe [of "sample_senv\<lparr>os_stat := Inr 511\<rparr>" 511]] and_54_511 by simp

end
