(* ===== verification/Bindings.thy ===== *)
theory Bindings
  imports Prelude
begin

text \<open>
  \<^verbatim>\<open>bpf/proxy_bpfel.go\<close> and \<^verbatim>\<open>bpf/proxy_bpfeb.go\<close>: the bindings \<^verbatim>\<open>bpf2go\<close> generates for the eBPF
  objects, one file per byte order with the same code. The object file, and the
  \<^verbatim>\<open>cilium/ebpf\<close> library that parses and loads it, are outside the repository; they are
  arguments here.
\<close>

section \<open>Objects\<close>

datatype bpf_prog = CgroupConnect4 | SockopsProg
datatype bpf_map_id = OrigdstByCookie | OrigdstByTuple
datatype bpf_object = Program bpf_prog | Map bpf_map_id

text \<open>The names the library finds the objects by.\<close>

fun object_name :: "bpf_object \<Rightarrow> string" where
  "object_name (Program CgroupConnect4) = ''cgroup_connect4''"
| "object_name (Program SockopsProg) = ''sockops_prog''"
| "object_name (Map OrigdstByCookie) = ''origdst_by_cookie''"
| "object_name (Map OrigdstByTuple) = ''origdst_by_tuple''"

definition ProxyPrograms :: "bpf_object list" where
  "ProxyPrograms = [Program CgroupConnect4, Program SockopsProg]"

definition ProxyMaps :: "bpf_object list" where
  "ProxyMaps = [Map OrigdstByCookie, Map OrigdstByTuple]"

definition ProxyObjects :: "bpf_object list" where
  "ProxyObjects = ProxyPrograms @ ProxyMaps"

section \<open>Loading\<close>

text \<open>
  \<open>read_spec\<close> is \<^verbatim>\<open>ebpf.LoadCollectionSpecFromReader\<close> and \<open>assign\<close> is
  \<^verbatim>\<open>CollectionSpec.LoadAndAssign\<close>.
\<close>

datatype 'e load_error = CantLoadProxy 'e | AssignError 'e

definition LoadProxy :: "('b \<Rightarrow> 'e + 'spec) \<Rightarrow> 'b \<Rightarrow> 'e load_error + 'spec" where
  "LoadProxy read_spec bytes =
     (case read_spec bytes of Inl e \<Rightarrow> Inl (CantLoadProxy e) | Inr spec \<Rightarrow> Inr spec)"

definition LoadProxyObjects ::
  "('b \<Rightarrow> 'e + 'spec) \<Rightarrow> ('spec \<Rightarrow> 'opts \<Rightarrow> 'e option) \<Rightarrow> 'b \<Rightarrow> 'opts \<Rightarrow> 'e load_error option" where
  "LoadProxyObjects read_spec assign bytes opts =
     (case LoadProxy read_spec bytes of
        Inl e \<Rightarrow> Some e
      | Inr spec \<Rightarrow> map_option AssignError (assign spec opts))"

section \<open>Closing\<close>

text \<open>
  \<^verbatim>\<open>_ProxyClose\<close> closes one after the other and returns at the first error. A closer takes
  what has been closed so far and returns its error, if any, and what has been closed then.
\<close>

type_synonym 'e closer = "bpf_object list \<Rightarrow> 'e option \<times> bpf_object list"

fun ProxyClose :: "'e closer list \<Rightarrow> 'e closer" where
  "ProxyClose [] done_so_far = (None, done_so_far)"
| "ProxyClose (c # cs) done_so_far =
     (case c done_so_far of
        (Some e, now_done) \<Rightarrow> (Some e, now_done)
      | (None, now_done) \<Rightarrow> ProxyClose cs now_done)"

text \<open>The library's own \<^verbatim>\<open>Close\<close> of one object; \<open>err\<close> is what it answers.\<close>

definition close_object :: "(bpf_object \<Rightarrow> 'e option) \<Rightarrow> bpf_object \<Rightarrow> 'e closer" where
  "close_object err obj done_so_far = (err obj, done_so_far @ [obj])"

definition ProxyPrograms_Close :: "(bpf_object \<Rightarrow> 'e option) \<Rightarrow> 'e closer" where
  "ProxyPrograms_Close err = ProxyClose (map (close_object err) ProxyPrograms)"

definition ProxyMaps_Close :: "(bpf_object \<Rightarrow> 'e option) \<Rightarrow> 'e closer" where
  "ProxyMaps_Close err = ProxyClose (map (close_object err) ProxyMaps)"

definition ProxyObjects_Close :: "(bpf_object \<Rightarrow> 'e option) \<Rightarrow> 'e closer" where
  "ProxyObjects_Close err = ProxyClose [ProxyPrograms_Close err, ProxyMaps_Close err]"

section \<open>What is closed\<close>

text \<open>The objects up to and including the first whose close fails.\<close>

fun upto_failure :: "(bpf_object \<Rightarrow> 'e option) \<Rightarrow> bpf_object list \<Rightarrow> bpf_object list" where
  "upto_failure err [] = []"
| "upto_failure err (obj # objs) = obj # (if err obj = None then upto_failure err objs else [])"

fun first_error :: "'e option list \<Rightarrow> 'e option" where
  "first_error [] = None"
| "first_error (None # es) = first_error es"
| "first_error (Some e # es) = Some e"

lemma ProxyClose_append:
  "ProxyClose (cs @ ds) s =
     (case ProxyClose cs s of (Some e, t) \<Rightarrow> (Some e, t) | (None, t) \<Rightarrow> ProxyClose ds t)"
  by (induction cs arbitrary: s) (auto split: prod.splits option.splits)

lemma ProxyClose_objects:
  "ProxyClose (map (close_object err) objs) s =
     (first_error (map err objs), s @ upto_failure err objs)"
  by (induction objs arbitrary: s) (auto simp: close_object_def split: option.splits)

text \<open>The nested closes are one pass over the four objects.\<close>

lemma ProxyObjects_Close_flat: "ProxyObjects_Close err = ProxyClose (map (close_object err) ProxyObjects)"
  by (rule ext)
    (simp add: ProxyObjects_Close_def ProxyObjects_def ProxyClose_append ProxyPrograms_Close_def ProxyMaps_Close_def
      split: prod.split option.split)

lemmas ProxyObjects_Close_result = ProxyClose_objects [of _ ProxyObjects, folded ProxyObjects_Close_flat]

lemma upto_failure_prefix: "prefix (upto_failure err objs) objs"
  by (induction objs) auto

lemma upto_failure_all: "(\<forall>obj \<in> set objs. err obj = None) \<Longrightarrow> upto_failure err objs = objs"
  by (induction objs) auto

lemma upto_failure_iff:
  assumes "distinct (pre @ obj # post)"
  shows "obj \<in> set (upto_failure err (pre @ obj # post)) \<longleftrightarrow> (\<forall>before \<in> set pre. err before = None)"
  using assms by (induction pre) (use upto_failure_prefix [THEN set_mono_prefix] in fastforce)+

lemma ProxyObjects_all: "set ProxyObjects = UNIV" "distinct ProxyObjects"
proof -
  have "obj \<in> set ProxyObjects" for obj
    by (cases obj rule: object_name.cases) (simp_all add: ProxyObjects_def ProxyPrograms_def ProxyMaps_def)
  then show "set ProxyObjects = UNIV" by blast
qed (simp add: ProxyObjects_def ProxyPrograms_def ProxyMaps_def)

lemma object_name_inj: "object_name a = object_name b \<Longrightarrow> a = b"
  by (cases a rule: object_name.cases; cases b rule: object_name.cases) simp_all

end
