(* ===== verification/Loader.thy ===== *)
theory Loader
  imports Go_Paths Bindings
begin

text \<open>
  \<^verbatim>\<open>internal/ebpf/loader.go\<close>: loading, attaching and closing the eBPF objects, through
  the generated bindings. The kernel and the \<^verbatim>\<open>cilium/ebpf\<close> library are outside the repository:
  what they answer is an argument, and what the loader asks of them is a list of actions.
\<close>

section \<open>Configuration\<close>

record loader_config =
  lc_CgroupPath :: string
  lc_PinDir :: string
  lc_ProxyUID :: nat
  lc_ProxyPort :: nat

definition ProxyUID :: nat where "ProxyUID = 1337"
definition ProxyPort :: nat where "ProxyPort = 15001"
definition DefaultPinDir :: string where "DefaultPinDir = ''/sys/fs/bpf/go-ebpf-proxy''"
definition bpffsPrefix :: string where "bpffsPrefix = ''/sys/fs/bpf''"

definition DefaultLoaderConfig :: loader_config where
  "DefaultLoaderConfig = \<lparr>lc_CgroupPath = [], lc_PinDir = DefaultPinDir, lc_ProxyUID = ProxyUID, lc_ProxyPort = ProxyPort\<rparr>"

datatype loader_error =
    CgroupPathUnset
  | PinDirOutside
  | ProxyUIDRoot
  | ProxyPortZero
  | MemlockError nat
  | PinDirError errno
  | LoadObjectsError "nat load_error"
  | AttachConnect4Error nat
  | AttachSockopsError nat

definition Validate :: "loader_config \<Rightarrow> loader_error option" where
  "Validate c =
     (if lc_CgroupPath c = [] then Some CgroupPathUnset
      else let cl = clean (lc_PinDir c) in
        if cl \<noteq> bpffsPrefix \<and> \<not> prefix (bpffsPrefix @ ''/'') cl then Some PinDirOutside
        else if lc_ProxyUID c = 0 then Some ProxyUIDRoot
        else if lc_ProxyPort c = 0 then Some ProxyPortZero
        else None)"

section \<open>Operations\<close>

datatype bpf_link = Connect4Link | SockOpsLink

datatype loader_action =
    RemoveMemlock
  | StatPinDir string
  | MkdirPinDir string
  | LoadObjects string
  | AttachCgroup bpf_link string
  | CloseLink bpf_link
  | Unpin bpf_map_id
  | CloseObject bpf_object
  | RemovePinDir string

record loader =
  ld_links :: "bpf_link list"
  ld_pinDir :: string
  ld_ownsPinDir :: bool

record loader_env =
  le_memlock :: "nat option"
  le_stat :: "errno option"
  le_mkdir :: "errno option"
  le_spec :: "nat option" \<comment> \<open>reading the embedded object file\<close>
  le_assign :: "string \<Rightarrow> nat option" \<comment> \<open>loading it, with its maps pinned in a directory\<close>

definition Load :: "loader_env \<Rightarrow> loader_config \<Rightarrow> (loader_error + loader) \<times> loader_action list" where
  "Load env cfg =
     (case Validate cfg of Some e \<Rightarrow> (Inl e, []) | None \<Rightarrow>
      case le_memlock env of Some e \<Rightarrow> (Inl (MemlockError e), [RemoveMemlock]) | None \<Rightarrow>
      let owns = (le_stat env = Some ENOENT);
          acts = [RemoveMemlock, StatPinDir (lc_PinDir cfg), MkdirPinDir (lc_PinDir cfg)] in
      case le_mkdir env of Some e \<Rightarrow> (Inl (PinDirError e), acts) | None \<Rightarrow>
      let acts = acts @ [LoadObjects (lc_PinDir cfg)] in
      case LoadProxyObjects (\<lambda>_. case le_spec env of Some e \<Rightarrow> Inl e | None \<Rightarrow> Inr ())
             (\<lambda>_ pinPath. le_assign env pinPath) () (lc_PinDir cfg) of Some e \<Rightarrow> (Inl (LoadObjectsError e), acts)
      | None \<Rightarrow> (Inr \<lparr>ld_links = [], ld_pinDir = lc_PinDir cfg, ld_ownsPinDir = owns\<rparr>, acts))"

definition Attach ::
  "nat option \<Rightarrow> nat option \<Rightarrow> string \<Rightarrow> loader \<Rightarrow> loader_error option \<times> loader \<times> loader_action list" where
  "Attach c4_err so_err cgroupPath l =
     (case c4_err of
        Some e \<Rightarrow> (Some (AttachConnect4Error e), l, [AttachCgroup Connect4Link cgroupPath])
      | None \<Rightarrow>
          let l1 = l\<lparr>ld_links := ld_links l @ [Connect4Link]\<rparr>;
              acts = [AttachCgroup Connect4Link cgroupPath, AttachCgroup SockOpsLink cgroupPath] in
          (case so_err of
             Some e \<Rightarrow> (Some (AttachSockopsError e), l1, acts)
           | None \<Rightarrow> (None, l1\<lparr>ld_links := ld_links l1 @ [SockOpsLink]\<rparr>, acts)))"

text \<open>\<open>err a\<close>: the error, if any, of the action \<open>a\<close>.\<close>

definition CloseLoader :: "(loader_action \<Rightarrow> nat option) \<Rightarrow> loader \<Rightarrow> nat list \<times> loader \<times> loader_action list" where
  "CloseLoader err l =
     (let acts = map CloseLink (ld_links l) @ map Unpin [OrigdstByCookie, OrigdstByTuple];
          (obj_err, objs) = ProxyObjects_Close (\<lambda>obj. err (CloseObject obj)) [];
          rm = (if ld_ownsPinDir l then [RemovePinDir (ld_pinDir l)] else [])
      in (errors_join (map err acts @ [obj_err] @ map err rm), l\<lparr>ld_links := []\<rparr>, acts @ map CloseObject objs @ rm))"

section \<open>The pin directory stays under bpffs\<close>

lemma split_slash_render:
  assumes "clean_list True xs" "xs \<noteq> []"
  shows "split_slash (render True xs) = [] # xs"
proof -
  have "\<forall>x \<in> set xs. slash \<notin> set x" using clean_list_no_slash [OF assms(1)] by blast
  then show ?thesis using assms(2) by (simp add: render_def Let_def split_slash_join)
qed

lemma render_rooted:
  assumes "clean_list rooted xs" "is_rooted (render rooted xs)"
  shows rooted
proof (rule ccontr)
  assume r: "\<not> rooted"
  have xs: "xs \<noteq> []" using assms(2) r by (auto simp: render_def is_rooted_def)
  then have h: "hd xs \<noteq> []" "slash \<notin> set (hd xs)" using clean_list_no_slash [OF assms(1), of "hd xs"] by simp_all
  have ne: "join xs [slash] \<noteq> []"
    using xs clean_list_no_slash [OF assms(1)] by (intro join_not_Nil) auto
  then have "hd (join xs [slash]) = slash" using assms(2) r by (simp add: render_def is_rooted_def Let_def)
  then have "hd (hd xs) = slash" using hd_join [OF xs h(1)] by simp
  then show False using h by (metis hd_in_set)
qed

definition bpffs_comps :: "string list" where "bpffs_comps = [''sys'', ''fs'', ''bpf'']"

lemma split_bpffs:
  "split_slash bpffsPrefix = [] # bpffs_comps"
  "split_slash (bpffsPrefix @ ''/'' @ rest) = [] # bpffs_comps @ split_slash rest"
  by (simp_all add: bpffsPrefix_def bpffs_comps_def)

lemma Validate_under_bpffs:
  assumes "Validate c = None"
  shows "is_rooted (lc_PinDir c) \<and> prefix bpffs_comps (clean_comps True [] (split_slash (lc_PinDir c)))"
proof -
  let ?p = "lc_PinDir c"
  let ?xs = "clean_comps (is_rooted ?p) [] (split_slash ?p)"
  have cl: "clean_list (is_rooted ?p) ?xs" by (rule clean_list_clean)
  have shape: "clean ?p = bpffsPrefix \<or> (\<exists>rest. clean ?p = bpffsPrefix @ ''/'' @ rest)"
    using assms by (auto simp: Validate_def Let_def prefix_def split: if_splits)
  then have "is_rooted (render (is_rooted ?p) ?xs)"
    unfolding clean_def [symmetric] by (auto simp: is_rooted_def bpffsPrefix_def)
  then have rooted: "is_rooted ?p" by (rule render_rooted [OF cl])
  have "?xs \<noteq> []" using shape rooted unfolding clean_def by (auto simp: render_def bpffsPrefix_def)
  then have "split_slash (clean ?p) = [] # ?xs"
    using split_slash_render cl rooted by (simp add: clean_def)
  then show ?thesis using shape rooted split_bpffs by (auto, metis prefixI)
qed

section \<open>Closing undoes what was done\<close>

lemma Attach_links:
  assumes "ld_links l = []" "Attach c4_err so_err path l = (err, l', acts)"
  shows "distinct (ld_links l')" "ld_pinDir l' = ld_pinDir l" "ld_ownsPinDir l' = ld_ownsPinDir l"
    "err = None \<longleftrightarrow> ld_links l' = [Connect4Link, SockOpsLink]"
  using assms by (auto simp: Attach_def Let_def split: option.splits)

section \<open>Properties\<close>

text \<open>
  C39: maps are pinned only under bpffs. A configuration that validates names a cgroup and a
  pin directory that is an absolute path whose components, once every \<^verbatim>\<open>.\<close>, \<^verbatim>\<open>..\<close> and
  repeated slash is resolved, begin with \<^verbatim>\<open>sys\<close>, \<^verbatim>\<open>fs\<close>, \<^verbatim>\<open>bpf\<close>; the user is not root and
  the port not zero.
\<close>

theorem validated_pin_dir_is_under_bpffs:
  assumes "Validate c = None"
  shows "lc_CgroupPath c \<noteq> [] \<and> is_rooted (lc_PinDir c)
    \<and> prefix [''sys'', ''fs'', ''bpf''] (clean_comps True [] (split_slash (lc_PinDir c)))
    \<and> lc_ProxyUID c \<noteq> 0 \<and> lc_ProxyPort c \<noteq> 0"
  using Validate_under_bpffs [OF assms] assms
  by (auto simp: Validate_def bpffs_comps_def Let_def split: if_splits)

lemma validated_pin_dir_is_under_bpffs_witness:
  "is_rooted DefaultPinDir \<and> prefix [''sys'', ''fs'', ''bpf''] (clean_comps True [] (split_slash DefaultPinDir))"
proof -
  have "Validate (DefaultLoaderConfig\<lparr>lc_CgroupPath := ''/c''\<rparr>) = None" by code_simp
  from validated_pin_dir_is_under_bpffs [OF this] show ?thesis by (simp add: DefaultLoaderConfig_def)
qed

lemma errors_join_concat: "errors_join es = concat (map (\<lambda>e. case e of None \<Rightarrow> [] | Some x \<Rightarrow> [x]) es)"
  by (induction es) (auto split: option.splits)

lemma first_error_upto:
  "errors_join [first_error (map err objs)] = errors_join (map err (upto_failure err objs))"
  by (induction objs) auto

lemma CloseLoader_acts:
  "snd (snd (CloseLoader err l)) = map CloseLink (ld_links l) @ map Unpin [OrigdstByCookie, OrigdstByTuple]
     @ map CloseObject (upto_failure (\<lambda>obj. err (CloseObject obj)) ProxyObjects)
     @ (if ld_ownsPinDir l then [RemovePinDir (ld_pinDir l)] else [])"
  "fst (snd (CloseLoader err l)) = l\<lparr>ld_links := []\<rparr>"
  by (simp_all add: CloseLoader_def ProxyObjects_Close_result Let_def)

lemma CloseLoader_errors: "fst (CloseLoader err l) = errors_join (map err (snd (snd (CloseLoader err l))))"
  using first_error_upto [of "\<lambda>obj. err (CloseObject obj)" ProxyObjects]
  by (simp add: CloseLoader_def ProxyObjects_Close_result Let_def comp_def errors_join_concat)

text \<open>
  C38: closing the loader undoes loading and attaching. However far attaching got and whatever
  fails while closing, every link that was attached is closed exactly once and before the
  maps are unpinned, both maps are unpinned, the pin directory is removed exactly when
  loading created it, and every error is reported. Of the programs and maps, in their order,
  each is closed exactly when the close of none before it failed: the generated close gives
  up at its first error.
\<close>

theorem loader_close_undoes_attach:
  assumes "Load env cfg = (Inr l, acts)" "Attach c4_err so_err path l = (err, l', acts')"
    "CloseLoader errs l' = (es, l2, closed)"
  shows "l2 = l'\<lparr>ld_links := []\<rparr> \<and> (err = None \<longleftrightarrow> ld_links l' = [Connect4Link, SockOpsLink]) \<and> distinct (ld_links l')
    \<and> (\<exists>tail. closed = map CloseLink (ld_links l') @ tail \<and> (\<forall>k. CloseLink k \<notin> set tail)
        \<and> {Unpin OrigdstByCookie, Unpin OrigdstByTuple} \<subseteq> set tail
        \<and> (RemovePinDir (lc_PinDir cfg) \<in> set tail \<longleftrightarrow> le_stat env = Some ENOENT))
    \<and> (\<forall>pre obj post. ProxyObjects = pre @ obj # post \<longrightarrow>
         (CloseObject obj \<in> set closed \<longleftrightarrow> (\<forall>before \<in> set pre. errs (CloseObject before) = None)))
    \<and> es = errors_join (map errs closed)"
proof -
  have l: "ld_links l = []" "ld_pinDir l = lc_PinDir cfg" "ld_ownsPinDir l \<longleftrightarrow> le_stat env = Some ENOENT"
    using assms(1) by (auto simp: Load_def Let_def split: option.splits)
  note at = Attach_links [OF l(1) assms(2)]
  have es: "es = errors_join (map errs closed)" using CloseLoader_errors [of errs l'] assms(3) by simp
  have closed: "closed = snd (snd (CloseLoader errs l'))" "l2 = fst (snd (CloseLoader errs l'))" using assms(3) by simp_all
  have objs: "CloseObject obj \<in> set closed \<longleftrightarrow> (\<forall>before \<in> set pre. errs (CloseObject before) = None)"
    if "ProxyObjects = pre @ obj # post" for pre obj post
    using upto_failure_iff [of pre obj post "\<lambda>obj. errs (CloseObject obj)"] ProxyObjects_all(2) that
    by (simp add: closed CloseLoader_acts image_iff)
  show ?thesis using at l es objs by (auto simp: closed CloseLoader_acts)
qed

lemma loader_close_undoes_attach_witness:
  "\<exists>l' acts closed. Attach None (Some 3) ''/c'' \<lparr>ld_links = [], ld_pinDir = DefaultPinDir, ld_ownsPinDir = True\<rparr>
       = (Some (AttachSockopsError 3), l', acts)
     \<and> CloseLoader (\<lambda>_. Some 1) l' = ([1, 1, 1, 1, 1], l'\<lparr>ld_links := []\<rparr>, closed)
     \<and> CloseLink Connect4Link \<in> set closed \<and> CloseObject (Program SockopsProg) \<notin> set closed"
proof -
  let ?cfg = "DefaultLoaderConfig\<lparr>lc_CgroupPath := ''/c''\<rparr>"
  let ?env = "\<lparr>le_memlock = None, le_stat = Some ENOENT, le_mkdir = None, le_spec = None, le_assign = \<lambda>_. None\<rparr>"
  let ?l = "\<lparr>ld_links = [], ld_pinDir = DefaultPinDir, ld_ownsPinDir = True\<rparr>"
  have v: "Validate ?cfg = None" by code_simp
  have ld: "Load ?env ?cfg = (Inr ?l, snd (Load ?env ?cfg))"
    by (simp add: Load_def v LoadProxyObjects_def LoadProxy_def) (simp add: DefaultLoaderConfig_def)
  obtain l' acts where at: "Attach None (Some 3) ''/c'' ?l = (Some (AttachSockopsError 3), l', acts)" "l' = ?l\<lparr>ld_links := [Connect4Link]\<rparr>"
    by (simp add: Attach_def Let_def)
  obtain es l2 closed where cl: "CloseLoader (\<lambda>_. Some 1) l' = (es, l2, closed)" by (metis surj_pair)
  note all = loader_close_undoes_attach [OF ld at(1) cl]
  have "CloseObject (Program SockopsProg) \<notin> set closed"
    using all [THEN conjunct2, THEN conjunct2, THEN conjunct2, THEN conjunct2, THEN conjunct1,
        rule_format, of "[Program CgroupConnect4]" "Program SockopsProg" ProxyMaps]
    by (simp add: ProxyObjects_def ProxyPrograms_def)
  moreover have "es = [1, 1, 1, 1, 1]"
    using cl at(2) by (auto simp: CloseLoader_def ProxyObjects_Close_result Let_def ProxyObjects_def ProxyPrograms_def)
  ultimately show ?thesis using all at cl by auto
qed

end
