(* ===== verification/Keylog_Tmpfs.thy ===== *)
theory Keylog_Tmpfs
  imports Go_Paths
begin

text \<open>
  \<^verbatim>\<open>cmd/app/keylog_tmpfs.go\<close>: the check that the keylog directory, or the nearest ancestor
  of it that exists, is on tmpfs. The loop walks up with \<^verbatim>\<open>filepath.Dir\<close>; it is given fuel,
  and the length of the path is always enough.
\<close>

section \<open>The parent of a clean path\<close>

lemma split_slash_trailing: "xs \<noteq> [] \<Longrightarrow> \<forall>x \<in> set xs. slash \<notin> set x \<Longrightarrow> split_slash (join xs [slash] @ [slash]) = xs @ [[]]"
  by (induction xs rule: induct_list012) (auto simp: split_slash_append)

lemma clean_comps_skip: "clean_comps rooted st (xs @ [[]]) = clean_comps rooted st xs"
  by (induction rooted st xs rule: clean_comps.induct) auto

lemma render_split:
  assumes "clean_list rooted (xs @ [x])"
  obtains p where "render rooted (xs @ [x]) = p @ x" "p = [] \<or> last p = slash" "clean p = render rooted xs"
proof -
  have cl: "clean_list rooted xs" by (rule clean_list_butlast [OF assms])
  have ns: "\<forall>y \<in> set xs. slash \<notin> set y \<and> y \<noteq> []" using clean_list_no_slash [OF cl] by blast
  define p where "p = (if rooted then [slash] else []) @ (if xs = [] then [] else join xs [slash] @ [slash])"
  have "x \<noteq> []" using clean_list_no_slash [OF assms, of x] by simp
  then have r: "render rooted (xs @ [x]) = p @ x"
    by (cases "xs = []") (auto simp: render_def Let_def join_snoc p_def)
  have rooted: "is_rooted p = rooted"
  proof (cases "rooted \<or> xs = []")
    case False
    have "hd (join xs [slash]) = hd (hd xs)" using False ns by (intro hd_join) auto
    moreover have "hd (hd xs) \<noteq> slash" using False ns by (metis hd_in_set)
    moreover have "join xs [slash] \<noteq> []" using False ns by (intro join_not_Nil) auto
    ultimately show ?thesis using False by (simp add: p_def is_rooted_def)
  qed (auto simp: p_def is_rooted_def)
  have "clean_comps rooted [] (split_slash p) = clean_comps rooted [] xs"
  proof (cases "xs = []")
    case False
    then have "split_slash (join xs [slash] @ [slash]) = xs @ [[]]" using ns by (intro split_slash_trailing) auto
    then show ?thesis using False by (simp add: p_def clean_comps_skip)
  qed (simp add: p_def)
  then have "clean p = render rooted xs"
    unfolding clean_def rooted using clean_comps_id [OF cl] by simp
  moreover have "p = [] \<or> last p = slash" by (simp add: p_def)
  ultimately show thesis using that r by blast
qed

lemma path_dir_render:
  assumes "clean_list rooted (xs @ [x])"
  shows "path_dir (render rooted (xs @ [x])) = render rooted xs"
proof -
  obtain p where p: "render rooted (xs @ [x]) = p @ x" "p = [] \<or> last p = slash" "clean p = render rooted xs"
    by (rule render_split [OF assms])
  have x: "slash \<notin> set x" using clean_list_no_slash [OF assms, of x] by simp
  have "dropWhile (\<lambda>c. c \<noteq> slash) (rev x @ rev p) = dropWhile (\<lambda>c. c \<noteq> slash) (rev p)"
    using x by (subst dropWhile_append2) auto
  also have "\<dots> = rev p" using p(2) by (cases p rule: rev_cases) auto
  finally show ?thesis using p(1,3) by (simp add: path_dir_def)
qed

lemma path_dir_top: "path_dir (render rooted []) = render rooted []"
  by (cases rooted) (simp_all add: render_def path_dir_def clean_def is_rooted_def)

lemma clean_list_not_dot: "clean_list rooted (xs @ [x]) \<Longrightarrow> x \<noteq> [] \<and> x \<noteq> ''.''"
proof -
  assume "clean_list rooted (xs @ [x])"
  then obtain us ps where "xs @ [x] = us @ ps" "\<forall>u \<in> set us. u = ''..''" "\<forall>p \<in> set ps. plain_comp p"
    by (auto simp: clean_list_def)
  then have "x = ''..'' \<or> plain_comp x" by (metis UnE in_set_conv_decomp set_append)
  then show ?thesis by (auto simp: plain_comp_def)
qed

lemma render_parent_differs:
  assumes "clean_list rooted (xs @ [x])"
  shows "render rooted xs \<noteq> render rooted (xs @ [x])"
proof (cases "xs = []")
  case True
  then show ?thesis using clean_list_not_dot [OF assms] by (cases rooted) (auto simp: render_def Let_def)
next
  case False
  have "\<forall>y \<in> set xs. y \<noteq> []" using clean_list_no_slash [OF clean_list_butlast [OF assms]] by blast
  then have "join xs [slash] \<noteq> []" using False by (intro join_not_Nil)
  then have "length (render rooted xs) < length (render rooted (xs @ [x]))"
    using False by (simp add: render_def Let_def join_snoc)
  then show ?thesis by auto
qed

section \<open>The check\<close>

definition TMPFS_MAGIC :: nat where "TMPFS_MAGIC = 0x01021994"

datatype tmpfs_error =
    StatfsError string errno
  | NotTmpfs string string nat
  | OutOfFuel

text \<open>\<open>statfs dir\<close> is an error or the filesystem's type.\<close>

fun nearest :: "nat \<Rightarrow> (string \<Rightarrow> errno + nat) \<Rightarrow> string \<Rightarrow> tmpfs_error + (string \<times> nat)" where
  "nearest 0 statfs dir = Inl OutOfFuel"
| "nearest (Suc n) statfs dir =
     (case statfs dir of
        Inr ty \<Rightarrow> Inr (dir, ty)
      | Inl e \<Rightarrow> if e \<noteq> ENOENT \<or> path_dir dir = dir then Inl (StatfsError dir e)
                 else nearest n statfs (path_dir dir))"

definition checkKeylogTmpfs :: "(string \<Rightarrow> errno + nat) \<Rightarrow> string \<Rightarrow> tmpfs_error option" where
  "checkKeylogTmpfs statfs keylogPath =
     (let keylogDir = path_dir keylogPath in
      case nearest (length keylogDir + 1) statfs keylogDir of
        Inl e \<Rightarrow> Some e
      | Inr (dir, ty) \<Rightarrow> if ty = TMPFS_MAGIC then None else Some (NotTmpfs keylogDir dir ty))"

section \<open>What it decides\<close>

text \<open>
  The ancestors of the clean path with components \<open>xs\<close>, itself first; the walk stops at
  the first that is not missing.
\<close>

definition ancestor :: "bool \<Rightarrow> string list \<Rightarrow> nat \<Rightarrow> string" where
  "ancestor rooted xs k = render rooted (take (length xs - k) xs)"

lemma ancestor_snoc [simp]: "ancestor rooted (xs @ [x]) (Suc k) = ancestor rooted xs k"
  by (simp add: ancestor_def)

lemma ancestor_0 [simp]: "ancestor rooted xs 0 = render rooted xs"
  by (simp add: ancestor_def)

lemma nearest_walk:
  assumes "clean_list rooted xs" "length xs < n"
  shows "\<exists>k \<le> length xs. (\<forall>j < k. statfs (ancestor rooted xs j) = Inl ENOENT)
    \<and> ((\<exists>ty. statfs (ancestor rooted xs k) = Inr ty \<and> nearest n statfs (render rooted xs) = Inr (ancestor rooted xs k, ty))
      \<or> (\<exists>e. statfs (ancestor rooted xs k) = Inl e \<and> (e \<noteq> ENOENT \<or> k = length xs)
          \<and> nearest n statfs (render rooted xs) = Inl (StatfsError (ancestor rooted xs k) e)))"
  using assms
proof (induction xs arbitrary: n rule: rev_induct)
  case Nil
  then obtain m where n: "n = Suc m" by (cases n) auto
  show ?case
    by (cases "statfs (render rooted [])") (auto simp: n ancestor_def path_dir_top)
next
  case (snoc x xs)
  then obtain m where n: "n = Suc m" by (cases n) auto
  have dir: "path_dir (render rooted (xs @ [x])) = render rooted xs" by (rule path_dir_render [OF snoc.prems(1)])
  have ne: "render rooted xs \<noteq> render rooted (xs @ [x])"
    by (rule render_parent_differs [OF snoc.prems(1)])
  show ?case
  proof (cases "statfs (render rooted (xs @ [x])) = Inl ENOENT")
    case False
    then show ?thesis
      by (cases "statfs (render rooted (xs @ [x]))") (auto simp: n intro!: exI [of _ 0])
  next
    case True
    have "nearest n statfs (render rooted (xs @ [x])) = nearest m statfs (render rooted xs)"
      using True ne by (simp add: n dir)
    moreover obtain k where "k \<le> length xs" "\<forall>j < k. statfs (ancestor rooted xs j) = Inl ENOENT"
      "(\<exists>ty. statfs (ancestor rooted xs k) = Inr ty \<and> nearest m statfs (render rooted xs) = Inr (ancestor rooted xs k, ty))
      \<or> (\<exists>e. statfs (ancestor rooted xs k) = Inl e \<and> (e \<noteq> ENOENT \<or> k = length xs)
          \<and> nearest m statfs (render rooted xs) = Inl (StatfsError (ancestor rooted xs k) e))"
      using snoc.IH [of m] clean_list_butlast [OF snoc.prems(1)] snoc.prems(2) n by auto
    ultimately show ?thesis
      using True by (intro exI [of _ "Suc k"]) (auto simp: less_Suc_eq_0_disj)
  qed
qed

text \<open>The fuel is enough: a path is at least as long as it has components.\<close>

lemma length_join_ge: "\<forall>x \<in> set xs. x \<noteq> [] \<Longrightarrow> length xs \<le> length (join xs [slash])"
proof (induction xs rule: induct_list012)
  case (2 x)
  then show ?case by (cases x) auto
qed auto

lemma length_render_ge:
  assumes "clean_list rooted xs"
  shows "length xs \<le> length (render rooted xs)"
proof -
  have "\<forall>x \<in> set xs. x \<noteq> []" using clean_list_no_slash [OF assms] by blast
  from length_join_ge [OF this] show ?thesis by (cases "join xs [slash] = []") (auto simp: render_def Let_def)
qed

lemma path_dir_clean:
  obtains rooted xs where "clean_list rooted xs" "path_dir p = render rooted xs"
proof -
  define d where "d = rev (dropWhile (\<lambda>c. c \<noteq> slash) (rev p))"
  show thesis
    by (rule that [OF clean_list_clean [of d]]) (simp add: path_dir_def clean_def d_def)
qed

text \<open>\<open>parents p k\<close>: the \<open>k\<close>th parent of \<open>p\<close>, as the loop computes it.\<close>

definition parents :: "string \<Rightarrow> nat \<Rightarrow> string" where
  "parents p k = (path_dir ^^ k) p"

lemma parents_render:
  "clean_list rooted xs \<Longrightarrow> k \<le> length xs \<Longrightarrow> parents (render rooted xs) k = ancestor rooted xs k"
proof (induction xs arbitrary: k rule: rev_induct)
  case (snoc x xs)
  show ?case
  proof (cases k)
    case (Suc m)
    have "parents (render rooted (xs @ [x])) k = parents (path_dir (render rooted (xs @ [x]))) m"
      by (simp add: Suc parents_def funpow_swap1)
    also have "\<dots> = parents (render rooted xs) m"
      by (simp add: path_dir_render [OF snoc.prems(1)])
    also have "\<dots> = ancestor rooted xs m"
      using snoc.IH [OF clean_list_butlast [OF snoc.prems(1)]] snoc.prems(2) Suc by simp
    finally show ?thesis by (simp add: Suc)
  qed (simp add: parents_def)
qed (simp add: parents_def)

lemma checkKeylogTmpfs_decides:
  "\<exists>k. (\<forall>j < k. statfs (parents (path_dir p) j) = Inl ENOENT) \<and>
     (case statfs (parents (path_dir p) k) of
        Inr ty \<Rightarrow> checkKeylogTmpfs statfs p =
          (if ty = TMPFS_MAGIC then None else Some (NotTmpfs (path_dir p) (parents (path_dir p) k) ty))
      | Inl e \<Rightarrow> checkKeylogTmpfs statfs p = Some (StatfsError (parents (path_dir p) k) e)
          \<and> (e \<noteq> ENOENT \<or> parents (path_dir p) (Suc k) = parents (path_dir p) k))"
proof -
  obtain rooted xs where d: "clean_list rooted xs" "path_dir p = render rooted xs"
    using path_dir_clean by blast
  let ?near = "nearest (length (path_dir p) + 1) statfs (path_dir p)"
  have "length xs < length (path_dir p) + 1" using length_render_ge [OF d(1)] d(2) by simp
  from nearest_walk [OF d(1) this, of statfs] obtain k where k: "k \<le> length xs"
    "\<forall>j < k. statfs (ancestor rooted xs j) = Inl ENOENT"
    "(\<exists>ty. statfs (ancestor rooted xs k) = Inr ty \<and> ?near = Inr (ancestor rooted xs k, ty))
      \<or> (\<exists>e. statfs (ancestor rooted xs k) = Inl e \<and> (e \<noteq> ENOENT \<or> k = length xs)
          \<and> ?near = Inl (StatfsError (ancestor rooted xs k) e))"
    unfolding d(2) by blast
  have anc: "ancestor rooted xs j = parents (path_dir p) j" if "j \<le> k" for j
    using parents_render [OF d(1)] k(1) that d(2) by simp
  have top: "parents (path_dir p) (Suc k) = parents (path_dir p) k" if "k = length xs"
  proof -
    have "parents (path_dir p) k = render rooted []" using anc [of k] that by (simp add: ancestor_def)
    moreover have "parents (path_dir p) (Suc k) = path_dir (parents (path_dir p) k)" by (simp add: parents_def)
    ultimately show ?thesis by (simp add: path_dir_top)
  qed
  have below: "\<forall>j < k. statfs (parents (path_dir p) j) = Inl ENOENT" using k(2) anc by simp
  consider ty where "statfs (ancestor rooted xs k) = Inr ty" "?near = Inr (ancestor rooted xs k, ty)"
    | e where "statfs (ancestor rooted xs k) = Inl e" "?near = Inl (StatfsError (ancestor rooted xs k) e)"
      "e \<noteq> ENOENT \<or> k = length xs"
    using k(3) by blast
  then show ?thesis
    using below anc [of k] top
    by cases (rule exI [of _ k], auto simp del: nearest.simps simp add: checkKeylogTmpfs_def Let_def)+
qed

section \<open>Properties\<close>

text \<open>
  C37: the keylog is only ever put on tmpfs. The check always ends. It walks up from the
  keylog's directory past the directories that do not exist, and accepts exactly when the
  first that can be examined is on tmpfs; when none can, or an examination fails otherwise,
  it refuses.
\<close>

theorem keylog_only_on_tmpfs:
  "\<exists>k. (\<forall>j < k. statfs (parents (path_dir p) j) = Inl ENOENT) \<and>
     (checkKeylogTmpfs statfs p = None \<longleftrightarrow> statfs (parents (path_dir p) k) = Inr TMPFS_MAGIC) \<and>
     (statfs (parents (path_dir p) k) = Inl ENOENT \<longrightarrow> parents (path_dir p) (Suc k) = parents (path_dir p) k)
     \<and> checkKeylogTmpfs statfs p \<noteq> Some OutOfFuel"
proof -
  obtain k where k: "\<forall>j < k. statfs (parents (path_dir p) j) = Inl ENOENT"
    "case statfs (parents (path_dir p) k) of
        Inr ty \<Rightarrow> checkKeylogTmpfs statfs p =
          (if ty = TMPFS_MAGIC then None else Some (NotTmpfs (path_dir p) (parents (path_dir p) k) ty))
      | Inl e \<Rightarrow> checkKeylogTmpfs statfs p = Some (StatfsError (parents (path_dir p) k) e)
          \<and> (e \<noteq> ENOENT \<or> parents (path_dir p) (Suc k) = parents (path_dir p) k)"
    using checkKeylogTmpfs_decides [of statfs p] by blast
  show ?thesis
    by (rule exI [of _ k], cases "statfs (parents (path_dir p) k)") (use k in auto)
qed

definition sample_statfs :: "string \<Rightarrow> errno + nat" where
  "sample_statfs d = (if d = ''/'' then Inr TMPFS_MAGIC else Inl ENOENT)"

lemma keylog_only_on_tmpfs_witness:
  "checkKeylogTmpfs sample_statfs ''/a/b.log'' \<noteq> Some OutOfFuel \<and> checkKeylogTmpfs sample_statfs ''/a/b.log'' = None"
proof -
  have "path_dir ''/a/b.log'' = ''/a''" "path_dir ''/a'' = ''/''" by code_simp+
  then have "checkKeylogTmpfs sample_statfs ''/a/b.log'' = None"
    by (simp add: checkKeylogTmpfs_def sample_statfs_def numeral_eq_Suc)
  moreover have "checkKeylogTmpfs sample_statfs ''/a/b.log'' \<noteq> Some OutOfFuel"
    using keylog_only_on_tmpfs [of sample_statfs "''/a/b.log''"] by blast
  ultimately show ?thesis by blast
qed

end
