(* ===== verification/Live.thy ===== *)
theory Live
  imports Capture_Order
begin

text \<open>
  \<^verbatim>\<open>internal/capture/live.go\<close>: the goroutine that copies packets from the interface into the
  capture writer until a read fails or the capture stops at its room.
\<close>

section \<open>Operations\<close>

datatype live_error = OpenIfaceError nat | CaptureLengthError nat | CloseIfaceError nat

datatype live_action = OpenHandle string | SetCaptureLength nat | CloseHandle | GoRun | AwaitRun

definition StartLive :: "nat option \<Rightarrow> nat option \<Rightarrow> string \<Rightarrow> live_error option \<times> live_action list" where
  "StartLive open_err len_err iface =
     (case open_err of
        Some e \<Rightarrow> (Some (OpenIfaceError e), [OpenHandle iface])
      | None \<Rightarrow>
          (case len_err of
             Some e \<Rightarrow> (Some (CaptureLengthError e), [OpenHandle iface, SetCaptureLength MaxCaptureLength, CloseHandle])
           | None \<Rightarrow> (None, [OpenHandle iface, SetCaptureLength MaxCaptureLength, GoRun])))"

text \<open>The error of closing the handle is reported only after the goroutine has exited.\<close>

definition StopLive :: "nat option \<Rightarrow> live_error option \<times> live_action list" where
  "StopLive close_err = (map_option CloseIfaceError close_err, [CloseHandle, AwaitRun])"

text \<open>
  The loop, on the packets the handle delivers before it fails, each with the clock's
  reading when it is written. The result says whether it left the loop at a stop.
\<close>

fun live_run ::
  "ng_io \<Rightarrow> (time \<times> capture_info \<times> string) list \<Rightarrow> cwriter \<Rightarrow> cwriter \<times> stop_info list \<times> bool" where
  "live_run io [] w = (w, [], False)"
| "live_run io ((now, ci, data) # reads) w =
     (let (err, w1, stops) = WritePacket io now ci data w in
      if err = Some ErrStopped then (w1, stops, True)
      else let (w2, stops', ended) = live_run io reads w1 in (w2, stops @ stops', ended))"

section \<open>What the copying does\<close>

text \<open>The loop is a run of the writer, one packet event per read it consumes.\<close>

definition packet_event :: "time \<times> capture_info \<times> string \<Rightarrow> wevent" where
  "packet_event r = EvPacket (fst r) (fst (snd r)) (snd (snd r))"

lemma ErrStopped_iff:
  assumes "queue_ok w" "WritePacket io now ci data w = (err, w1, stops)"
  shows "err = Some ErrStopped \<longleftrightarrow> stopped w1"
proof (cases rule: admit_cases [where n = "epbSize (length data)" and w = w])
  case accepted
  then show ?thesis
    using assms(2)
    by (auto simp: WritePacket_state writeHeld_state enqueue_def Let_def split: option.splits if_splits)
qed (use assms in \<open>auto simp: WritePacket_state\<close>)

lemma live_run_run:
  assumes "queue_ok w" "live_run io reads w = (w', stops, ended)"
  shows "\<exists>n evs. n \<le> length reads \<and> run (wstep io) w evs w' \<and> map fst evs = map packet_event (take n reads)
    \<and> concat (map snd evs) = stops \<and> (ended \<longleftrightarrow> n \<noteq> 0 \<and> stopped w') \<and> (\<not> ended \<longrightarrow> n = length reads)
    \<and> (\<forall>m. 0 < m \<and> m < n \<longrightarrow> (\<exists>v. run (wstep io) w (take m evs) v \<and> \<not> stopped v))"
  using assms
proof (induction reads arbitrary: w w' stops ended)
  case (Cons r reads)
  obtain now ci data where r: "r = (now, ci, data)" using prod_cases3 by blast
  obtain err w1 st where wp: "WritePacket io now ci data w = (err, w1, st)" using prod_cases3 by blast
  have step: "wstep io w (packet_event r, st) w1"
    unfolding packet_event_def r by (simp, rule wstep.packet [OF wp])
  note iff = ErrStopped_iff [OF Cons.prems(1) wp]
  show ?case
  proof (cases "err = Some ErrStopped")
    case True
    then have "w' = w1" "stops = st" ended using Cons.prems(2) wp r by simp_all
    then show ?thesis
      using step iff True by (intro exI [of _ "Suc 0"] exI [of _ "[(packet_event r, st)]"]) (auto intro: run_Cons)
  next
    case False
    then obtain st' where rest: "live_run io reads w1 = (w', st', ended)" "stops = st @ st'"
      using Cons.prems(2) wp r by (auto split: prod.splits)
    have "queue_ok w1" using WritePacket_queue [OF Cons.prems(1) wp] by simp
    from Cons.IH [OF this rest(1)] obtain n evs where ih: "n \<le> length reads" "run (wstep io) w1 evs w'"
      "map fst evs = map packet_event (take n reads)" "concat (map snd evs) = st'"
      "ended \<longleftrightarrow> n \<noteq> 0 \<and> stopped w'" "\<not> ended \<longrightarrow> n = length reads"
      "\<forall>m. 0 < m \<and> m < n \<longrightarrow> (\<exists>v. run (wstep io) w1 (take m evs) v \<and> \<not> stopped v)"
      by blast
    have "\<exists>v. run (wstep io) w (take m ((packet_event r, st) # evs)) v \<and> \<not> stopped v" if m: "0 < m" "m < Suc n" for m
    proof (cases "m = 1")
      case True
      then show ?thesis using iff \<open>err \<noteq> Some ErrStopped\<close> step by (intro exI [of _ w1]) (auto intro: run_Cons)
    next
      case False
      then obtain k where k: "m = Suc k" "0 < k" "k < n" using m by (cases m) auto
      then obtain v where "run (wstep io) w1 (take k evs) v" "\<not> stopped v" using ih(7) by blast
      then show ?thesis using k(1) step by (intro exI [of _ v]) (auto intro: run_Cons)
    qed
    note between = this
    have "ended \<longleftrightarrow> stopped w'"
    proof (cases "n = 0")
      case True
      then have "w' = w1" using ih(2,3) by auto
      with True ih(5) iff False show ?thesis by simp
    qed (use ih(5) in simp)
    then show ?thesis
      using ih(1-6) between rest(2) run_Cons [OF step ih(2)]
      by (intro exI [of _ "Suc n"] exI [of _ "(packet_event r, st) # evs"]) auto
  qed
qed (auto intro!: exI [of _ "[]"])

lemma StartLive_closes:
  "StartLive open_err len_err iface = (err, acts) \<Longrightarrow> err \<noteq> None \<Longrightarrow> GoRun \<notin> set acts
    \<and> (open_err = None \<longrightarrow> last acts = CloseHandle)"
  by (auto simp: StartLive_def split: option.splits)

section \<open>Properties\<close>

text \<open>
  C27: the capture goroutine copies every packet until capture stops. On a writer in any
  state it can reach, the loop hands over every packet the interface delivers, in order, up
  to and including the first at which capture has stopped; it leaves the loop early exactly
  when capture has stopped, and no other failed write ends it.
\<close>

theorem live_copies_until_stop:
  assumes "run (wstep io) (new_writer hdr path opts) evs w" "live_run io reads w = (w', stops, ended)"
  shows "\<exists>n more. n \<le> length reads \<and> run (wstep io) w more w' \<and> map fst more = map packet_event (take n reads)
    \<and> concat (map snd more) = stops \<and> (ended \<longleftrightarrow> n \<noteq> 0 \<and> stopped w') \<and> (\<not> ended \<longrightarrow> n = length reads)
    \<and> (\<forall>m. 0 < m \<and> m < n \<longrightarrow> (\<exists>v. run (wstep io) w (take m more) v \<and> \<not> stopped v))"
proof -
  have "queue_ok w"
    by (rule hold_queue.inv_from_init [OF _ assms(1), where hdr = hdr]) (auto simp: fresh_def)
  from live_run_run [OF this assms(2)] show ?thesis .
qed

lemma live_copies_until_stop_witness:
  "\<exists>n more. n \<le> 1 \<and> run (wstep sample_io) sample_writer more (fst (live_run sample_io [(5, sample_info, ''ab'')] sample_writer))
     \<and> map fst more = map packet_event (take n [(5, sample_info, ''ab'')])"
proof -
  let ?l = "live_run sample_io [(5, sample_info, ''ab'')] sample_writer"
  have "run (wstep sample_io) (new_writer (\<lambda>_. 100) ''c'' sample_options) [] sample_writer"
    by (simp add: sample_writer_def)
  from live_copies_until_stop [OF this, of "[(5, sample_info, ''ab'')]" "fst ?l" "fst (snd ?l)" "snd (snd ?l)"] show ?thesis
    by (simp only: prod.collapse length_Cons list.size One_nat_def [symmetric]) blast
qed

end
