(* ===== verification/Codec.thy ===== *)
theory Codec
  imports Prelude
begin

text \<open>
  \<^verbatim>\<open>internal/ebpf/codec.go\<close> and the map types of the generated bindings
  (\<^verbatim>\<open>bpf/proxy_bpfel.go\<close>, \<^verbatim>\<open>bpf/proxy_bpfeb.go\<close>): how an IPv4 address and a port
  become a key or a value of the kernel maps, and back. The byte order of the machine
  is an argument: the bindings are generated for both.
\<close>

unbundle bit_operations_syntax

type_synonym u8 = "8 word"
type_synonym u16 = "16 word"
type_synonym u32 = "32 word"
type_synonym u64 = "64 word"

section \<open>Native byte order\<close>

datatype endian = LittleEndian | BigEndian

text \<open>Four bytes in memory order.\<close>

record quad =
  b0 :: u8
  b1 :: u8
  b2 :: u8
  b3 :: u8

definition u32_of :: "u8 \<Rightarrow> u8 \<Rightarrow> u8 \<Rightarrow> u8 \<Rightarrow> u32" where
  "u32_of w x y z = push_bit 24 (ucast w) OR push_bit 16 (ucast x) OR push_bit 8 (ucast y) OR ucast z"

definition u8_at :: "nat \<Rightarrow> u32 \<Rightarrow> u8" where
  "u8_at n x = ucast (drop_bit n x)"

text \<open>\<^verbatim>\<open>binary.NativeEndian.Uint32\<close> and \<^verbatim>\<open>binary.NativeEndian.PutUint32\<close>.\<close>

fun native_uint32 :: "endian \<Rightarrow> quad \<Rightarrow> u32" where
  "native_uint32 LittleEndian q = u32_of (b3 q) (b2 q) (b1 q) (b0 q)"
| "native_uint32 BigEndian q = u32_of (b0 q) (b1 q) (b2 q) (b3 q)"

fun native_put_uint32 :: "endian \<Rightarrow> u32 \<Rightarrow> quad" where
  "native_put_uint32 LittleEndian x = \<lparr>b0 = u8_at 0 x, b1 = u8_at 8 x, b2 = u8_at 16 x, b3 = u8_at 24 x\<rparr>"
| "native_put_uint32 BigEndian x = \<lparr>b0 = u8_at 24 x, b1 = u8_at 16 x, b2 = u8_at 8 x, b3 = u8_at 0 x\<rparr>"

lemma bit_u32_of:
  "bit (u32_of w x y z) n \<longleftrightarrow>
     (if n < 8 then bit z n else if n < 16 then bit y (n - 8)
      else if n < 24 then bit x (n - 16) else bit w (n - 24) \<and> n < 32)"
  by (auto simp: u32_of_def bit_simps dest: bit_imp_le_length)

lemma bit_u8_at: "bit (u8_at k x) n \<longleftrightarrow> n < 8 \<and> bit x (k + n)"
  by (simp add: u8_at_def bit_simps)

lemma u8_at_u32_of [simp]:
  "u8_at 0 (u32_of w x y z) = z" "u8_at 8 (u32_of w x y z) = y"
  "u8_at 16 (u32_of w x y z) = x" "u8_at 24 (u32_of w x y z) = w"
  by (rule bit_word_eqI, auto simp: bit_u8_at bit_u32_of)+

lemma u32_of_u8_at [simp]: "u32_of (u8_at 24 x) (u8_at 16 x) (u8_at 8 x) (u8_at 0 x) = x"
  by (rule bit_word_eqI) (auto simp: bit_u8_at bit_u32_of)

lemma put_of_uint32 [simp]: "native_put_uint32 e (native_uint32 e q) = q"
  by (cases e) auto

lemma uint32_of_put [simp]: "native_uint32 e (native_put_uint32 e x) = x"
  by (cases e) auto

lemma native_uint32_inject [simp]: "native_uint32 e p = native_uint32 e q \<longleftrightarrow> p = q"
  by (metis put_of_uint32)

section \<open>Addresses\<close>

text \<open>
  A \<^verbatim>\<open>netip.Addr\<close>: the zero value, an IPv4 address, or an IPv6 address (its 16
  bytes). \<^verbatim>\<open>Unmap\<close> turns the IPv6 form \<^verbatim>\<open>::ffff:a.b.c.d\<close> into the IPv4 address.
\<close>

datatype addr = AddrZero | Addr4 quad | Addr6 "u8 list"

record addr_port =
  ap_addr :: addr
  ap_port :: u16

definition is4 :: "addr \<Rightarrow> bool" where
  "is4 a \<longleftrightarrow> (case a of Addr4 _ \<Rightarrow> True | _ \<Rightarrow> False)"

definition quad_of_list :: "u8 list \<Rightarrow> quad" where
  "quad_of_list bs = \<lparr>b0 = bs ! 0, b1 = bs ! 1, b2 = bs ! 2, b3 = bs ! 3\<rparr>"

definition addr_from_slice :: "u8 list \<Rightarrow> addr option" where
  "addr_from_slice bs =
     (if length bs = 4 then Some (Addr4 (quad_of_list bs))
      else if length bs = 16 then Some (Addr6 bs) else None)"

definition unmap :: "addr \<Rightarrow> addr" where
  "unmap a = (case a of
      Addr6 bs \<Rightarrow> (if take 12 bs = replicate 10 0 @ [0xFF, 0xFF] then Addr4 (quad_of_list (drop 12 bs)) else a)
    | _ \<Rightarrow> a)"

section \<open>Map keys and values\<close>

record tuple_key =
  tk_ip :: u32
  tk_port :: u16

record orig_dst =
  od_ip :: u32
  od_port :: u16

datatype codec_error = ErrNotIPv4

definition TupleKey :: "endian \<Rightarrow> addr \<Rightarrow> u16 \<Rightarrow> codec_error + tuple_key" where
  "TupleKey e srcIP srcPort =
     (case srcIP of
        Addr4 q \<Rightarrow> Inr \<lparr>tk_ip = native_uint32 e q, tk_port = srcPort\<rparr>
      | _ \<Rightarrow> Inl ErrNotIPv4)"

definition OrigDst :: "endian \<Rightarrow> addr \<Rightarrow> u16 \<Rightarrow> codec_error + orig_dst" where
  "OrigDst e dstIP dstPort =
     (case dstIP of
        Addr4 q \<Rightarrow> Inr \<lparr>od_ip = native_uint32 e q, od_port = dstPort\<rparr>
      | _ \<Rightarrow> Inl ErrNotIPv4)"

definition AddrPort :: "endian \<Rightarrow> orig_dst \<Rightarrow> addr_port" where
  "AddrPort e od = \<lparr>ap_addr = Addr4 (native_put_uint32 e (od_ip od)), ap_port = od_port od\<rparr>"

lemmas codec_defs = TupleKey_def OrigDst_def AddrPort_def

lemma TupleKey_error: "TupleKey e a p = Inl err \<longleftrightarrow> \<not> is4 a"
  by (cases a; cases err) (auto simp: codec_defs is4_def)

lemma TupleKey_inject:
  "TupleKey e a p = Inr k \<Longrightarrow> TupleKey e a' p' = Inr k \<Longrightarrow> a = a' \<and> p = p'"
  by (auto simp: codec_defs split: addr.splits)

lemma OrigDst_AddrPort [simp]: "OrigDst e (ap_addr (AddrPort e od)) (ap_port (AddrPort e od)) = Inr od"
  by (simp add: codec_defs)

section \<open>Properties\<close>

text \<open>
  C34: the map codec loses nothing, on either byte order. Every IPv4 destination has a map value,
  which decodes to the same address and port, and every map value is that of the destination it
  decodes to; every IPv4 source tuple has a key, which holds the address in memory order and
  the port, and every key is that of exactly one source tuple; and an address that is not
  IPv4 has neither.
\<close>

theorem codec_roundtrip:
  "(is4 a \<longrightarrow> (\<exists>od k q. OrigDst e a p = Inr od \<and> AddrPort e od = \<lparr>ap_addr = a, ap_port = p\<rparr>
      \<and> TupleKey e a p = Inr k \<and> a = Addr4 q \<and> native_put_uint32 e (tk_ip k) = q \<and> tk_port k = p))
   \<and> (\<not> is4 a \<longrightarrow> OrigDst e a p = Inl ErrNotIPv4 \<and> TupleKey e a p = Inl ErrNotIPv4)
   \<and> OrigDst e (ap_addr (AddrPort e od)) (ap_port (AddrPort e od)) = Inr od
   \<and> (\<exists>!ap :: addr_port. TupleKey e (ap_addr ap) (ap_port ap) = Inr k)"
proof (intro conjI)
  show "\<exists>!ap :: addr_port. TupleKey e (ap_addr ap) (ap_port ap) = Inr k"
  proof (rule ex1I)
    show own: "TupleKey e (ap_addr \<lparr>ap_addr = Addr4 (native_put_uint32 e (tk_ip k)), ap_port = tk_port k\<rparr>)
        (ap_port \<lparr>ap_addr = Addr4 (native_put_uint32 e (tk_ip k)), ap_port = tk_port k\<rparr>) = Inr k"
      by (simp add: TupleKey_def)
    show "ap = \<lparr>ap_addr = Addr4 (native_put_uint32 e (tk_ip k)), ap_port = tk_port k\<rparr>"
      if "TupleKey e (ap_addr ap) (ap_port ap) = Inr k" for ap :: addr_port
      using TupleKey_inject [OF that own] by (cases ap) simp
  qed
qed (cases a; simp add: codec_defs is4_def)+

lemma codec_roundtrip_witness:
  "\<exists>od k. OrigDst LittleEndian (Addr4 \<lparr>b0 = 93, b1 = 184, b2 = 216, b3 = 34\<rparr>) 443 = Inr od
     \<and> AddrPort LittleEndian od = \<lparr>ap_addr = Addr4 \<lparr>b0 = 93, b1 = 184, b2 = 216, b3 = 34\<rparr>, ap_port = 443\<rparr>
     \<and> TupleKey LittleEndian (Addr4 \<lparr>b0 = 93, b1 = 184, b2 = 216, b3 = 34\<rparr>) 443 = Inr k
     \<and> native_put_uint32 LittleEndian (tk_ip k) = \<lparr>b0 = 93, b1 = 184, b2 = 216, b3 = 34\<rparr> \<and> tk_port k = 443"
proof -
  let ?a = "Addr4 \<lparr>b0 = 93, b1 = 184, b2 = 216, b3 = 34\<rparr>"
  have "is4 ?a" by (simp add: is4_def)
  from mp [OF conjunct1 [OF codec_roundtrip [of ?a LittleEndian 443]] this] show ?thesis by auto
qed

end
