(* ===== verification/Redirect.thy ===== *)
theory Redirect
  imports Codec
begin

text \<open>
  \<^verbatim>\<open>bpf/proxy.bpf.c\<close>: the two kernel programs. \<open>cgroup_connect4\<close> records where an
  application wanted to connect under the socket's cookie and sends it to the relay
  instead; \<open>sockops_prog\<close> moves the record under the connection's source address once
  the kernel has chosen it. The maps are LRU hashes: an update may evict other entries
  and may fail, both chosen by the environment. Every interleaving of the two programs
  over any number of sockets is a run of \<open>kstep\<close>.
\<close>

unbundle bit_operations_syntax

section \<open>Kernel helpers\<close>

definition bswap32 :: "u32 \<Rightarrow> u32" where
  "bswap32 x = u32_of (u8_at 0 x) (u8_at 8 x) (u8_at 16 x) (u8_at 24 x)"

definition bswap16 :: "u16 \<Rightarrow> u16" where
  "bswap16 x = push_bit 8 x OR drop_bit 8 x"

text \<open>\<^verbatim>\<open>bpf_ntohl\<close>/\<^verbatim>\<open>bpf_htonl\<close> and \<^verbatim>\<open>bpf_ntohs\<close>/\<^verbatim>\<open>bpf_htons\<close>.\<close>

fun bpf_ntohl :: "endian \<Rightarrow> u32 \<Rightarrow> u32" where
  "bpf_ntohl LittleEndian x = bswap32 x"
| "bpf_ntohl BigEndian x = x"

fun bpf_ntohs :: "endian \<Rightarrow> u16 \<Rightarrow> u16" where
  "bpf_ntohs LittleEndian x = bswap16 x"
| "bpf_ntohs BigEndian x = x"

abbreviation "bpf_htonl \<equiv> bpf_ntohl"
abbreviation "bpf_htons \<equiv> bpf_ntohs"

lemma bit_bswap16: "bit (bswap16 x) n \<longleftrightarrow> (if n < 8 then bit x (n + 8) else n < 16 \<and> bit x (n - 8))"
  by (auto simp: bswap16_def bit_simps add.commute dest: bit_imp_le_length)

lemma bswap16_bswap16 [simp]: "bswap16 (bswap16 x) = x"
  by (rule bit_word_eqI) (auto simp: bit_bswap16)

lemma ntohs_htons [simp]: "bpf_ntohs e (bpf_htons e p) = p"
  by (cases e) auto

lemma ntohl_native: "bpf_ntohl e (native_uint32 e q) = u32_of (b0 q) (b1 q) (b2 q) (b3 q)"
  by (cases e) (auto simp: bswap32_def)

lemma htonl_native: "bpf_htonl e (u32_of w x y z) = native_uint32 e \<lparr>b0 = w, b1 = x, b2 = y, b3 = z\<rparr>"
  by (cases e) (auto simp: bswap32_def)

lemma ucast_ucast_u16 [simp]: "ucast (ucast (p :: u16) :: u32) = p"
  by (rule bit_word_eqI) (auto simp: bit_simps)

section \<open>LRU maps\<close>

text \<open>
  \<^verbatim>\<open>bpf_map_update_elem\<close> on an LRU hash: what the environment answers is whether the
  entry was stored and which other entries the kernel evicted to make room.
\<close>

datatype 'k update_outcome = Stored "'k list" | NotStored "'k list"

definition evict :: "'k list \<Rightarrow> ('k \<rightharpoonup> 'v) \<Rightarrow> ('k \<rightharpoonup> 'v)" where
  "evict ks m = (\<lambda>x. if x \<in> set ks then None else m x)"

fun bpf_map_update_elem :: "'k update_outcome \<Rightarrow> ('k \<rightharpoonup> 'v) \<Rightarrow> 'k \<Rightarrow> 'v \<Rightarrow> ('k \<rightharpoonup> 'v)" where
  "bpf_map_update_elem (Stored ks) m k v = (evict ks m)(k \<mapsto> v)"
| "bpf_map_update_elem (NotStored ks) m k v = evict ks m"

definition bpf_map_delete_elem :: "('k \<rightharpoonup> 'v) \<Rightarrow> 'k \<Rightarrow> ('k \<rightharpoonup> 'v)" where
  "bpf_map_delete_elem m k = m(k := None)"

fun spares :: "'k \<Rightarrow> 'k update_outcome \<Rightarrow> bool" where
  "spares k (Stored ks) \<longleftrightarrow> k \<notin> set ks"
| "spares k (NotStored ks) \<longleftrightarrow> k \<notin> set ks"

fun is_stored :: "'k update_outcome \<Rightarrow> bool" where
  "is_stored (Stored _) = True"
| "is_stored (NotStored _) = False"

text \<open>
  What both programs rely on of a kernel map, as an interface: a stored entry is found,
  an update never changes the value of another key (at worst it evicts it) and never
  invents one, and a deleted key is gone.
\<close>

locale kernel_map =
  fixes lookup :: "'m \<Rightarrow> 'k \<Rightarrow> 'v option"
    and update :: "'o \<Rightarrow> 'm \<Rightarrow> 'k \<Rightarrow> 'v \<Rightarrow> 'm"
    and delete :: "'m \<Rightarrow> 'k \<Rightarrow> 'm"
    and stored :: "'o \<Rightarrow> bool"
    and keeps_key :: "'k \<Rightarrow> 'o \<Rightarrow> bool"
  assumes lookup_stored: "stored out \<Longrightarrow> lookup (update out m k v) k = Some v"
    and lookup_other: "keeps_key x out \<Longrightarrow> x \<noteq> k \<Longrightarrow> lookup (update out m k v) x = lookup m x"
    and lookup_update_origin:
      "lookup (update out m k v) x = Some u \<Longrightarrow> lookup m x = Some u \<or> (x = k \<and> u = v)"
    and lookup_delete: "lookup (delete m k) x = (if x = k then None else lookup m x)"
begin

lemma delete_origin: "lookup (delete m k) x = Some u \<Longrightarrow> lookup m x = Some u"
  by (simp add: lookup_delete split: if_splits)

lemma update_delete_origin:
  "lookup (delete (update out m k v) j) x = Some u \<Longrightarrow> lookup m x = Some u \<or> (x = k \<and> u = v)"
  by (blast dest: delete_origin lookup_update_origin)

end

interpretation lru: kernel_map "\<lambda>m. m" bpf_map_update_elem bpf_map_delete_elem is_stored spares
proof unfold_locales
  show "bpf_map_update_elem out m k v k = Some v" if "is_stored out" for out :: "'k update_outcome" and m :: "'k \<rightharpoonup> 'v" and k v
    using that by (cases out) auto
  show "bpf_map_update_elem out m k v x = m x" if "spares x out" "x \<noteq> k"
    for x k :: 'k and out and m :: "'k \<rightharpoonup> 'v" and v
    using that by (cases out) (auto simp: evict_def)
  show "m x = Some u \<or> (x = k \<and> u = v)" if "bpf_map_update_elem out m k v x = Some u"
    for out :: "'k update_outcome" and m :: "'k \<rightharpoonup> 'v" and k v x u
    using that by (cases out) (auto simp: evict_def split: if_splits)
  show "bpf_map_delete_elem m k x = (if x = k then None else m x)"
    for m :: "'k \<rightharpoonup> 'v" and k x
    by (simp add: bpf_map_delete_elem_def)
qed

section \<open>The programs\<close>

definition PROXY_UID :: u32 where "PROXY_UID = 1337"
definition PROXY_PORT :: u16 where "PROXY_PORT = 15001"
definition PROXY_TCP :: u32 where "PROXY_TCP = 6"

definition BPF_SOCK_OPS_TCP_CONNECT_CB :: u32 where "BPF_SOCK_OPS_TCP_CONNECT_CB = 3"

record bpf_sock_addr =
  protocol :: u32
  user_ip4 :: u32
  user_port :: u32

record bpf_sock_ops =
  sk_op :: u32
  local_ip4 :: u32
  local_port :: u32

record bpf_maps =
  origdst_by_cookie :: "u64 \<rightharpoonup> orig_dst"
  origdst_by_tuple :: "tuple_key \<rightharpoonup> orig_dst"

text \<open>
  \<open>uid_gid\<close> and \<open>cookie\<close> are what the kernel helpers return, \<open>out\<close> what the map
  update answers. The result is the rewritten context, the maps and the verdict (1:
  let the connection proceed).
\<close>

definition cgroup_connect4 ::
  "endian \<Rightarrow> u64 \<Rightarrow> u64 \<Rightarrow> u64 update_outcome \<Rightarrow> bpf_sock_addr \<Rightarrow> bpf_maps \<Rightarrow> bpf_sock_addr \<times> bpf_maps \<times> int" where
  "cgroup_connect4 e uid_gid cookie out ctx maps =
     (if protocol ctx \<noteq> PROXY_TCP then (ctx, maps, 1)
      else if (ucast (uid_gid AND 0xffffffff) :: u32) = PROXY_UID then (ctx, maps, 1)
      else if drop_bit 24 (bpf_ntohl e (user_ip4 ctx)) = 127 then (ctx, maps, 1)
      else let od = \<lparr>od_ip = user_ip4 ctx, od_port = bpf_ntohs e (ucast (user_port ctx))\<rparr> in
        (ctx\<lparr>user_ip4 := bpf_htonl e 0x7F000001, user_port := ucast (bpf_htons e PROXY_PORT)\<rparr>,
         maps\<lparr>origdst_by_cookie := bpf_map_update_elem out (origdst_by_cookie maps) cookie od\<rparr>,
         1))"

definition sockops_prog ::
  "u64 \<Rightarrow> tuple_key update_outcome \<Rightarrow> bpf_sock_ops \<Rightarrow> bpf_maps \<Rightarrow> bpf_maps" where
  "sockops_prog cookie out ctx maps =
     (if sk_op ctx \<noteq> BPF_SOCK_OPS_TCP_CONNECT_CB then maps
      else case origdst_by_cookie maps cookie of
        None \<Rightarrow> maps
      | Some od \<Rightarrow>
          let key = \<lparr>tk_ip = local_ip4 ctx, tk_port = ucast (local_port ctx)\<rparr> in
          maps\<lparr>origdst_by_tuple := bpf_map_update_elem out (origdst_by_tuple maps) key od,
               origdst_by_cookie := bpf_map_delete_elem (origdst_by_cookie maps) cookie\<rparr>)"

section \<open>What a caller asked for\<close>

text \<open>The contexts the kernel builds for a \<open>connect()\<close> to \<open>dst : p\<close> and for a socket
  bound to \<open>src : p\<close>: addresses in network order, the destination port in network order
  in the low 16 bits, the local port in host order.\<close>

definition connect_ctx :: "endian \<Rightarrow> u32 \<Rightarrow> quad \<Rightarrow> u16 \<Rightarrow> bpf_sock_addr" where
  "connect_ctx e proto q p =
     \<lparr>protocol = proto, user_ip4 = native_uint32 e q, user_port = ucast (bpf_htons e p)\<rparr>"

definition sockops_ctx :: "endian \<Rightarrow> quad \<Rightarrow> u16 \<Rightarrow> bpf_sock_ops" where
  "sockops_ctx e q p =
     \<lparr>sk_op = BPF_SOCK_OPS_TCP_CONNECT_CB, local_ip4 = native_uint32 e q, local_port = ucast p\<rparr>"

definition uid_of :: "u64 \<Rightarrow> u32" where
  "uid_of uid_gid = ucast (uid_gid AND 0xffffffff)"

definition loopback :: "quad \<Rightarrow> bool" where
  "loopback q \<longleftrightarrow> b0 q = 127"

definition redirected :: "u32 \<Rightarrow> u64 \<Rightarrow> quad \<Rightarrow> bool" where
  "redirected proto uid_gid q \<longleftrightarrow> proto = PROXY_TCP \<and> uid_of uid_gid \<noteq> PROXY_UID \<and> \<not> loopback q"

definition relay_quad :: quad where "relay_quad = \<lparr>b0 = 127, b1 = 0, b2 = 0, b3 = 1\<rparr>"

lemma top_byte_u32_of: "drop_bit 24 (u32_of w x y z) = (ucast w :: u32)"
  by (rule bit_word_eqI) (auto simp: bit_simps bit_u32_of dest: bit_imp_le_length)

lemma ucast_eq_127: "(ucast (w :: u8) :: u32) = 127 \<longleftrightarrow> w = 127"
  by transfer simp

lemma loopback_test:
  "drop_bit 24 (bpf_ntohl e (native_uint32 e q)) = (127 :: u32) \<longleftrightarrow> loopback q"
  by (simp add: ntohl_native top_byte_u32_of ucast_eq_127 loopback_def)

lemma relay_word: "(0x7F000001 :: u32) = u32_of 127 0 0 1"
  by (simp add: u32_of_def)

text \<open>The whole program on the context of a \<open>connect()\<close>, on every branch.\<close>

lemma connect4_on_connect:
  "cgroup_connect4 e uid_gid cookie out (connect_ctx e proto q p) maps =
     (if redirected proto uid_gid q then
        (connect_ctx e proto relay_quad PROXY_PORT,
         maps\<lparr>origdst_by_cookie :=
           bpf_map_update_elem out (origdst_by_cookie maps) cookie \<lparr>od_ip = native_uint32 e q, od_port = p\<rparr>\<rparr>, 1)
      else (connect_ctx e proto q p, maps, 1))"
  by (simp add: cgroup_connect4_def connect_ctx_def loopback_test redirected_def uid_of_def
      relay_word htonl_native relay_quad_def)

lemma sockops_on_connect:
  "sockops_prog cookie out (sockops_ctx e q p) maps =
     (case origdst_by_cookie maps cookie of
        None \<Rightarrow> maps
      | Some od \<Rightarrow> maps\<lparr>origdst_by_tuple :=
            bpf_map_update_elem out (origdst_by_tuple maps) \<lparr>tk_ip = native_uint32 e q, tk_port = p\<rparr> od,
          origdst_by_cookie := bpf_map_delete_elem (origdst_by_cookie maps) cookie\<rparr>)"
  by (simp add: sockops_prog_def sockops_ctx_def split: option.splits)

section \<open>Runs of the kernel\<close>

datatype kevent =
    Connect (ev_uid: u64) (ev_cookie: u64) "u64 update_outcome" bpf_sock_addr
  | SockOps (ev_cookie: u64) "tuple_key update_outcome" bpf_sock_ops

inductive kstep :: "endian \<Rightarrow> bpf_maps \<Rightarrow> kevent \<Rightarrow> bpf_maps \<Rightarrow> bool" for e where
  connect: "cgroup_connect4 e uid_gid cookie out ctx m = (ctx', m', v) \<Longrightarrow>
    kstep e m (Connect uid_gid cookie out ctx) m'"
| sockops: "kstep e m (SockOps cookie out ctx) (sockops_prog cookie out ctx m)"

inductive_simps kstep_Connect: "kstep e m (Connect uid_gid cookie out ctx) m'"
inductive_simps kstep_SockOps: "kstep e m (SockOps cookie out ctx) m'"
lemmas kstep_simps = kstep_Connect kstep_SockOps

definition empty_maps :: bpf_maps where
  "empty_maps = \<lparr>origdst_by_cookie = Map.empty, origdst_by_tuple = Map.empty\<rparr>"

text \<open>The record \<open>cgroup_connect4\<close> makes for a context it redirects.\<close>

definition recorded :: "endian \<Rightarrow> u64 \<Rightarrow> bpf_sock_addr \<Rightarrow> orig_dst option" where
  "recorded e uid_gid ctx =
     (if protocol ctx = PROXY_TCP \<and> uid_of uid_gid \<noteq> PROXY_UID
         \<and> drop_bit 24 (bpf_ntohl e (user_ip4 ctx)) \<noteq> 127
      then Some \<lparr>od_ip = user_ip4 ctx, od_port = bpf_ntohs e (ucast (user_port ctx))\<rparr> else None)"

lemma connect4_maps:
  "fst (snd (cgroup_connect4 e uid_gid cookie out ctx m)) =
     (case recorded e uid_gid ctx of None \<Rightarrow> m
      | Some od \<Rightarrow> m\<lparr>origdst_by_cookie := bpf_map_update_elem out (origdst_by_cookie m) cookie od\<rparr>)"
  by (simp add: cgroup_connect4_def recorded_def uid_of_def Let_def)

lemma kstep_Connect_maps:
  "kstep e m (Connect uid_gid cookie out ctx) m' \<longleftrightarrow>
     m' = (case recorded e uid_gid ctx of None \<Rightarrow> m
           | Some od \<Rightarrow> m\<lparr>origdst_by_cookie := bpf_map_update_elem out (origdst_by_cookie m) cookie od\<rparr>)"
  unfolding kstep_Connect connect4_maps [symmetric]
  by (cases "cgroup_connect4 e uid_gid cookie out ctx m") auto

definition sockops_key :: "bpf_sock_ops \<Rightarrow> tuple_key" where
  "sockops_key ctx = \<lparr>tk_ip = local_ip4 ctx, tk_port = ucast (local_port ctx)\<rparr>"

text \<open>Where an entry can come from: one step, then a run.\<close>

definition connect_origin :: "endian \<Rightarrow> kevent list \<Rightarrow> u64 \<Rightarrow> orig_dst \<Rightarrow> bool" where
  "connect_origin e es cookie od \<longleftrightarrow>
     (\<exists>uid_gid out ctx. Connect uid_gid cookie out ctx \<in> set es \<and> recorded e uid_gid ctx = Some od)"

definition tuple_origin :: "endian \<Rightarrow> kevent list \<Rightarrow> tuple_key \<Rightarrow> u64 \<Rightarrow> bool" where
  "tuple_origin e es k cookie \<longleftrightarrow>
     (\<exists>out ctx. SockOps cookie out ctx \<in> set es \<and> sockops_key ctx = k)"

lemma kstep_cookie_origin:
  "kstep e m ev m' \<Longrightarrow> origdst_by_cookie m' c = Some od \<Longrightarrow>
   origdst_by_cookie m c = Some od \<or> connect_origin e [ev] c od"
  by (cases ev)
    (auto simp: kstep_Connect_maps kstep_SockOps sockops_prog_def connect_origin_def
      split: option.splits if_splits dest: lru.lookup_update_origin lru.delete_origin)

lemma kstep_tuple_origin:
  "kstep e m ev m' \<Longrightarrow> origdst_by_tuple m' k = Some od \<Longrightarrow>
   origdst_by_tuple m k = Some od \<or> (\<exists>c. origdst_by_cookie m c = Some od \<and> tuple_origin e [ev] k c)"
  by (cases ev)
    (auto simp: kstep_Connect_maps kstep_SockOps sockops_prog_def tuple_origin_def sockops_key_def
      split: option.splits if_splits dest!: lru.lookup_update_origin)

lemma connect_origin_Cons: "connect_origin e [ev] c od \<or> connect_origin e es c od \<Longrightarrow> connect_origin e (ev # es) c od"
  by (auto simp: connect_origin_def)

lemma tuple_origin_Cons: "tuple_origin e [ev] k c \<or> tuple_origin e es k c \<Longrightarrow> tuple_origin e (ev # es) k c"
  by (auto simp: tuple_origin_def)

lemma run_cookie_origin:
  "run (kstep e) m es m' \<Longrightarrow> origdst_by_cookie m' c = Some od \<Longrightarrow>
   origdst_by_cookie m c = Some od \<or> connect_origin e es c od"
  by (induction rule: run.induct) (auto dest: kstep_cookie_origin intro: connect_origin_Cons)

lemma run_tuple_origin:
  "run (kstep e) m es m' \<Longrightarrow> origdst_by_tuple m' k = Some od \<Longrightarrow>
   origdst_by_tuple m k = Some od \<or>
   (\<exists>c. (origdst_by_cookie m c = Some od \<or> connect_origin e es c od) \<and> tuple_origin e es k c)"
proof (induction rule: run.induct)
  case (run_Cons m ev m1 es m')
  then show ?case
    by (meson connect_origin_Cons tuple_origin_Cons kstep_cookie_origin kstep_tuple_origin)
qed simp

section \<open>One connection among others\<close>

text \<open>Events that leave the record under a cookie, or under a source tuple, alone.\<close>

fun quiet_cookie :: "u64 \<Rightarrow> kevent \<Rightarrow> bool" where
  "quiet_cookie c (Connect _ c' out _) \<longleftrightarrow> c' \<noteq> c \<and> spares c out"
| "quiet_cookie c (SockOps c' _ _) \<longleftrightarrow> c' \<noteq> c"

fun quiet_tuple :: "tuple_key \<Rightarrow> kevent \<Rightarrow> bool" where
  "quiet_tuple k (Connect _ _ _ _) \<longleftrightarrow> True"
| "quiet_tuple k (SockOps _ out ctx) \<longleftrightarrow> sockops_key ctx \<noteq> k \<and> spares k out"

lemma kstep_quiet_cookie:
  "kstep e m ev m' \<Longrightarrow> quiet_cookie c ev \<Longrightarrow> origdst_by_cookie m' c = origdst_by_cookie m c"
  by (cases ev) (auto simp: kstep_Connect_maps kstep_SockOps sockops_prog_def lru.lookup_other
      lru.lookup_delete split: option.splits)

lemma kstep_quiet_tuple:
  "kstep e m ev m' \<Longrightarrow> quiet_tuple k ev \<Longrightarrow> origdst_by_tuple m' k = origdst_by_tuple m k"
  by (cases ev) (auto simp: kstep_Connect_maps kstep_SockOps sockops_prog_def lru.lookup_other
      sockops_key_def split: option.splits)

lemma run_quiet_cookie:
  "run (kstep e) m es m' \<Longrightarrow> \<forall>ev \<in> set es. quiet_cookie c ev \<Longrightarrow>
   origdst_by_cookie m' c = origdst_by_cookie m c"
  by (induction rule: run.induct) (auto simp: kstep_quiet_cookie)

lemma run_quiet_tuple:
  "run (kstep e) m es m' \<Longrightarrow> \<forall>ev \<in> set es. quiet_tuple k ev \<Longrightarrow>
   origdst_by_tuple m' k = origdst_by_tuple m k"
  by (induction rule: run.induct) (auto simp: kstep_quiet_tuple)

section \<open>Properties\<close>

text \<open>
  C21: the connect hook on every branch. A TCP connect to a non-loopback address by another
  user than the sidecar is sent to the relay at 127.0.0.1:15001 with its destination
  recorded under the socket's cookie; every other connect (another protocol, the sidecar's
  own, or to loopback) keeps its destination and records nothing; none is ever refused.
\<close>

theorem connect4_redirects:
  "cgroup_connect4 e uid_gid cookie out (connect_ctx e proto q p) maps =
     (if proto = PROXY_TCP \<and> uid_of uid_gid \<noteq> PROXY_UID \<and> b0 q \<noteq> 127 then
        (connect_ctx e proto \<lparr>b0 = 127, b1 = 0, b2 = 0, b3 = 1\<rparr> 15001,
         maps\<lparr>origdst_by_cookie :=
           bpf_map_update_elem out (origdst_by_cookie maps) cookie \<lparr>od_ip = native_uint32 e q, od_port = p\<rparr>\<rparr>, 1)
      else (connect_ctx e proto q p, maps, 1))"
  unfolding connect4_on_connect by (simp add: redirected_def loopback_def relay_quad_def PROXY_PORT_def)

text \<open>
  Where a recorded destination comes from. Whatever connections the pod makes, in
  whatever order, and whatever the kernel evicts: an entry the relay can find under a source
  tuple was recorded by a redirected connect whose socket then reported that very tuple.
\<close>

theorem tuple_entries_are_connects:
  assumes "run (kstep e) empty_maps es m" "origdst_by_tuple m k = Some od"
  shows "\<exists>uid_gid cookie out ctx out' ctx'.
    Connect uid_gid cookie out ctx \<in> set es \<and> recorded e uid_gid ctx = Some od
    \<and> SockOps cookie out' ctx' \<in> set es \<and> sockops_key ctx' = k"
  using run_tuple_origin [OF assms] by (auto simp: empty_maps_def connect_origin_def tuple_origin_def) blast

definition sample_maps :: bpf_maps where
  "sample_maps =
     sockops_prog 7 (Stored []) (sockops_ctx LittleEndian \<lparr>b0 = 10, b1 = 0, b2 = 0, b3 = 5\<rparr> 40000)
       (fst (snd (cgroup_connect4 LittleEndian 1000 7 (Stored [])
          (connect_ctx LittleEndian PROXY_TCP \<lparr>b0 = 93, b1 = 184, b2 = 216, b3 = 34\<rparr> 443) empty_maps)))"

definition sample_run :: "kevent list" where
  "sample_run =
     [Connect 1000 7 (Stored []) (connect_ctx LittleEndian PROXY_TCP \<lparr>b0 = 93, b1 = 184, b2 = 216, b3 = 34\<rparr> 443),
      SockOps 7 (Stored []) (sockops_ctx LittleEndian \<lparr>b0 = 10, b1 = 0, b2 = 0, b3 = 5\<rparr> 40000)]"

definition sample_key :: tuple_key where
  "sample_key = \<lparr>tk_ip = native_uint32 LittleEndian \<lparr>b0 = 10, b1 = 0, b2 = 0, b3 = 5\<rparr>, tk_port = 40000\<rparr>"

definition sample_dst :: orig_dst where
  "sample_dst = \<lparr>od_ip = native_uint32 LittleEndian \<lparr>b0 = 93, b1 = 184, b2 = 216, b3 = 34\<rparr>, od_port = 443\<rparr>"

lemma uid_of_1000: "uid_of 1000 \<noteq> PROXY_UID"
  by (simp add: uid_of_def PROXY_UID_def)

lemma sample_maps_run: "run (kstep LittleEndian) empty_maps sample_run sample_maps"
proof -
  let ?c = "connect_ctx LittleEndian PROXY_TCP \<lparr>b0 = 93, b1 = 184, b2 = 216, b3 = 34\<rparr> 443"
  have "kstep LittleEndian empty_maps (Connect 1000 7 (Stored []) ?c)
      (fst (snd (cgroup_connect4 LittleEndian 1000 7 (Stored []) ?c empty_maps)))"
    by (rule kstep.connect [where ctx' = "fst (cgroup_connect4 LittleEndian 1000 7 (Stored []) ?c empty_maps)"
          and v = "snd (snd (cgroup_connect4 LittleEndian 1000 7 (Stored []) ?c empty_maps))"]) simp
  then show ?thesis
    unfolding sample_run_def sample_maps_def by (intro run_Cons run_Nil) (auto intro: kstep.sockops)
qed

lemma sample_maps_entry: "origdst_by_tuple sample_maps sample_key = Some sample_dst"
  by (simp add: sample_maps_def sample_key_def sample_dst_def connect4_on_connect sockops_on_connect
      redirected_def uid_of_1000 loopback_def empty_maps_def evict_def)

lemma tuple_entries_are_connects_witness:
  "\<exists>uid_gid cookie out ctx out' ctx'.
    Connect uid_gid cookie out ctx \<in> set sample_run \<and> recorded LittleEndian uid_gid ctx = Some sample_dst
    \<and> SockOps cookie out' ctx' \<in> set sample_run \<and> sockops_key ctx' = sample_key"
  by (rule tuple_entries_are_connects [OF sample_maps_run sample_maps_entry])

end
