(* ===== verification/Proxy.thy ===== *)
theory Proxy
  imports Redirect Go_Strings
begin

text \<open>
  \<^verbatim>\<open>internal/proxy\<close>: the resolver, which recovers a connection's original destination
  from the kernel map with a bounded retry, and the relay, which forwards a connection to
  that destination and to no other. Every effect outside the two (lookups, sleeps, dials,
  callbacks, closes) is an action of the result, in the order the code performs it.
\<close>

section \<open>The resolver\<close>

text \<open>What \<^verbatim>\<open>Lookuper.Lookup\<close> answers; any error but \<^verbatim>\<open>ErrKeyNotExist\<close> is opaque.\<close>

datatype lookup_result = Found orig_dst | KeyNotExist | LookupFailed nat

datatype resolve_error = NotIPv4 | LookupError nat | ErrNotFound

datatype resolver_action = Lookup tuple_key | Sleep duration | OnMiss addr_port

record resolver =
  retries :: int
  backoff :: duration
  misses :: u64
  onMiss :: bool \<comment> \<open>whether a callback is registered\<close>

definition ms_ns :: duration where "ms_ns = 1000000"

definition WithRetry :: "int \<Rightarrow> duration \<Rightarrow> resolver \<Rightarrow> resolver" where
  "WithRetry n d r = r\<lparr>retries := n, backoff := d\<rparr>"

definition WithOnMiss :: "resolver \<Rightarrow> resolver" where
  "WithOnMiss r = r\<lparr>onMiss := True\<rparr>"

definition NewResolver :: "(resolver \<Rightarrow> resolver) list \<Rightarrow> resolver" where
  "NewResolver opts = fold (\<lambda>opt r. opt r) opts \<lparr>retries = 3, backoff = ms_ns, misses = 0, onMiss = False\<rparr>"

text \<open>
  The retry loop. \<open>lk n k\<close> is what the \<open>n\<close>-th lookup of this call answers, since the
  kernel may store the entry between two attempts.
\<close>

function resolve_loop ::
  "(nat \<Rightarrow> tuple_key \<Rightarrow> lookup_result) \<Rightarrow> int \<Rightarrow> duration \<Rightarrow> tuple_key \<Rightarrow> nat
   \<Rightarrow> lookup_result \<times> resolver_action list" where
  "resolve_loop lk rt bo key attempt =
     (case lk attempt key of
        Found od \<Rightarrow> (Found od, [Lookup key])
      | LookupFailed n \<Rightarrow> (LookupFailed n, [Lookup key])
      | KeyNotExist \<Rightarrow>
          if rt \<le> int attempt then (KeyNotExist, [Lookup key])
          else let (r, acts) = resolve_loop lk rt bo key (Suc attempt)
               in (r, Lookup key # Sleep bo # acts))"
  by pat_completeness auto
termination
  by (relation "measure (\<lambda>(lk, rt, bo, key, attempt). nat (rt - int attempt))") auto

declare resolve_loop.simps [simp del]

definition Resolve ::
  "endian \<Rightarrow> (nat \<Rightarrow> tuple_key \<Rightarrow> lookup_result) \<Rightarrow> resolver \<Rightarrow> addr \<Rightarrow> u16
   \<Rightarrow> (resolve_error + addr_port) \<times> resolver \<times> resolver_action list" where
  "Resolve e lk r srcIP srcPort =
     (case TupleKey e srcIP srcPort of
        Inl _ \<Rightarrow> (Inl NotIPv4, r, [])
      | Inr key \<Rightarrow>
          (case resolve_loop lk (retries r) (backoff r) key 0 of
             (Found od, acts) \<Rightarrow> (Inr (AddrPort e od), r, acts)
           | (LookupFailed n, acts) \<Rightarrow> (Inl (LookupError n), r, acts)
           | (KeyNotExist, acts) \<Rightarrow>
               (Inl ErrNotFound, r\<lparr>misses := misses r + 1\<rparr>,
                acts @ (if onMiss r then [OnMiss \<lparr>ap_addr = srcIP, ap_port = srcPort\<rparr>] else []))))"

definition Misses :: "resolver \<Rightarrow> u64" where
  "Misses r = misses r"

subsection \<open>What the loop does\<close>

lemma resolve_loop_stop:
  "lk attempt key \<noteq> KeyNotExist \<or> rt \<le> int attempt \<Longrightarrow>
   resolve_loop lk rt bo key attempt = (lk attempt key, [Lookup key])"
  by (subst resolve_loop.simps) (auto split: lookup_result.splits)

lemma resolve_loop_retry:
  "lk attempt key = KeyNotExist \<Longrightarrow> \<not> rt \<le> int attempt \<Longrightarrow>
   resolve_loop lk rt bo key attempt =
     (fst (resolve_loop lk rt bo key (Suc attempt)),
      Lookup key # Sleep bo # snd (resolve_loop lk rt bo key (Suc attempt)))"
  by (subst resolve_loop.simps) (simp add: case_prod_beta)

lemma resolve_loop_answer:
  assumes "lk n key \<noteq> KeyNotExist" "\<forall>m. attempt \<le> m \<and> m < n \<longrightarrow> lk m key = KeyNotExist"
    "attempt \<le> n" "int n \<le> rt \<or> n = attempt"
  shows "fst (resolve_loop lk rt bo key attempt) = lk n key"
  using assms
proof (induction lk rt bo key attempt rule: resolve_loop.induct)
  case (1 lk rt bo key attempt)
  show ?case
  proof (cases "attempt = n")
    case True
    with 1(2) show ?thesis by (simp add: resolve_loop_stop)
  next
    case False
    with 1(3,4,5) have miss: "lk attempt key = KeyNotExist" and lt: "\<not> rt \<le> int attempt"
      and le: "Suc attempt \<le> n" by auto
    have "fst (resolve_loop lk rt bo key (Suc attempt)) = lk n key"
      using 1(1) [OF miss lt] 1(2-5) le False by auto
    with miss lt show ?thesis by (simp add: resolve_loop_retry)
  qed
qed

lemma resolve_loop_miss:
  assumes "\<forall>m. attempt \<le> m \<and> (int m \<le> rt \<or> m = attempt) \<longrightarrow> lk m key = KeyNotExist"
  shows "fst (resolve_loop lk rt bo key attempt) = KeyNotExist"
  using assms
proof (induction lk rt bo key attempt rule: resolve_loop.induct)
  case (1 lk rt bo key attempt)
  have miss: "lk attempt key = KeyNotExist" using 1(2) by simp
  show ?case
  proof (cases "rt \<le> int attempt")
    case True
    with miss show ?thesis by (simp add: resolve_loop_stop)
  next
    case False
    then have "\<forall>m. Suc attempt \<le> m \<and> (int m \<le> rt \<or> m = Suc attempt) \<longrightarrow> lk m key = KeyNotExist"
      using 1(2) by auto
    from 1(1) [OF miss False this] miss False show ?thesis
      by (simp add: resolve_loop_retry)
  qed
qed

definition lookups :: "resolver_action list \<Rightarrow> tuple_key list" where
  "lookups acts = List.map_filter (\<lambda>a. case a of Lookup k \<Rightarrow> Some k | _ \<Rightarrow> None) acts"

definition sleeps :: "resolver_action list \<Rightarrow> duration list" where
  "sleeps acts = List.map_filter (\<lambda>a. case a of Sleep d \<Rightarrow> Some d | _ \<Rightarrow> None) acts"

lemma lookups_simps [simp]:
  "lookups [] = []" "lookups (Lookup k # acts) = k # lookups acts"
  "lookups (Sleep d # acts) = lookups acts" "lookups (OnMiss s # acts) = lookups acts"
  "lookups (xs @ ys) = lookups xs @ lookups ys"
  by (simp_all add: lookups_def)

lemma sleeps_simps [simp]:
  "sleeps [] = []" "sleeps (Lookup k # acts) = sleeps acts"
  "sleeps (Sleep d # acts) = d # sleeps acts" "sleeps (OnMiss s # acts) = sleeps acts"
  "sleeps (xs @ ys) = sleeps xs @ sleeps ys"
  by (simp_all add: sleeps_def)

text \<open>At least one lookup, at most one more than the retries, all of the same key, with
  one sleep between two of them.\<close>

definition retry_trace :: "nat \<Rightarrow> duration \<Rightarrow> tuple_key \<Rightarrow> resolver_action list \<Rightarrow> bool" where
  "retry_trace n bo key acts \<longleftrightarrow>
     (\<exists>m \<le> n. lookups acts = replicate (Suc m) key \<and> sleeps acts = replicate m bo)"

lemma retry_trace_Cons:
  "retry_trace n bo key acts \<Longrightarrow> retry_trace (Suc n) bo key (Lookup key # Sleep bo # acts)"
  unfolding retry_trace_def by (metis Suc_le_mono lookups_simps(2,3) replicate_Suc sleeps_simps(2,3))

lemma resolve_loop_bounded:
  "retry_trace (nat (rt - int attempt)) bo key (snd (resolve_loop lk rt bo key attempt))"
proof (induction lk rt bo key attempt rule: resolve_loop.induct)
  case (1 lk rt bo key attempt)
  show ?case
  proof (cases "lk attempt key = KeyNotExist \<and> \<not> rt \<le> int attempt")
    case True
    have "nat (rt - int attempt) = Suc (nat (rt - int (Suc attempt)))"
      using True by linarith
    with 1 True show ?thesis
      by (simp add: resolve_loop_retry retry_trace_Cons)
  next
    case False
    then show ?thesis
      by (auto simp: resolve_loop_stop retry_trace_def)
  qed
qed

subsection \<open>Over a map\<close>

text \<open>
  The interface the resolver is written against (\<^verbatim>\<open>type Lookuper interface\<close>), with
  what it relies on: an answer is the content the map has at that attempt. The client's
  facts are proved from that alone.
\<close>

locale lookuper =
  fixes lookup :: "nat \<Rightarrow> tuple_key \<Rightarrow> lookup_result"
    and content :: "nat \<Rightarrow> tuple_key \<rightharpoonup> orig_dst"
  assumes lookup_content:
    "lookup n k = (case content n k of None \<Rightarrow> KeyNotExist | Some od \<Rightarrow> Found od)"
begin

lemma resolve_first:
  assumes "TupleKey e ip p = Inr key" "content n key = Some od"
    "\<And>m. m < n \<Longrightarrow> content m key = None" "int n \<le> retries r \<or> n = 0"
  shows "fst (Resolve e lookup r ip p) = Inr (AddrPort e od)"
proof -
  have "fst (resolve_loop lookup (retries r) (backoff r) key 0) = lookup n key"
    using assms by (intro resolve_loop_answer) (auto simp: lookup_content)
  then show ?thesis
    using assms(1,2) by (auto simp: Resolve_def lookup_content split: prod.splits)
qed

lemma resolve_none:
  assumes "TupleKey e ip p = Inr key" "\<And>m. int m \<le> retries r \<or> m = 0 \<Longrightarrow> content m key = None"
  shows "fst (Resolve e lookup r ip p) = Inl ErrNotFound"
proof -
  have "fst (resolve_loop lookup (retries r) (backoff r) key 0) = KeyNotExist"
    using assms by (intro resolve_loop_miss) (auto simp: lookup_content)
  then show ?thesis
    using assms(1) by (auto simp: Resolve_def split: prod.splits)
qed

text \<open>The result of resolving is decided by the first attempts alone.\<close>

lemma resolve_cases:
  assumes "TupleKey e ip p = Inr key"
  obtains (first) n od where "content n key = Some od" "\<And>m. m < n \<Longrightarrow> content m key = None"
      "int n \<le> retries r \<or> n = 0" "fst (Resolve e lookup r ip p) = Inr (AddrPort e od)"
    | (none) "\<And>m. int m \<le> retries r \<or> m = 0 \<Longrightarrow> content m key = None"
      "fst (Resolve e lookup r ip p) = Inl ErrNotFound"
proof (cases "\<exists>n. (int n \<le> retries r \<or> n = 0) \<and> content n key \<noteq> None")
  case True
  define n where "n = (LEAST n. (int n \<le> retries r \<or> n = 0) \<and> content n key \<noteq> None)"
  have n: "int n \<le> retries r \<or> n = 0" "content n key \<noteq> None"
    using LeastI_ex [OF True] unfolding n_def by (rule conjunct1, rule conjunct2)
  have least: "content m key = None" if "m < n" for m
    using not_less_Least [of m "\<lambda>n. (int n \<le> retries r \<or> n = 0) \<and> content n key \<noteq> None"] that n(1)
    unfolding n_def by auto
  obtain od where od: "content n key = Some od" using n(2) by auto
  show thesis
    by (rule first [OF od least n(1) resolve_first [OF assms od least n(1)]])
next
  case False
  then show thesis
    using none resolve_none [OF assms] by blast
qed

lemma resolve_origin:
  assumes "fst (Resolve e lookup r ip p) = Inr d"
  obtains key n od where "TupleKey e ip p = Inr key" "content n key = Some od" "d = AddrPort e od"
    "int n \<le> retries r \<or> n = 0"
proof -
  obtain key where key: "TupleKey e ip p = Inr key"
    using assms by (auto simp: Resolve_def split: sum.splits)
  from key show thesis
  proof (rule resolve_cases [where r = r])
    fix n od
    assume "content n key = Some od" "int n \<le> retries r \<or> n = 0"
      "fst (Resolve e lookup r ip p) = Inr (AddrPort e od)"
    with assms key that show thesis by simp
  next
    assume "fst (Resolve e lookup r ip p) = Inl ErrNotFound"
    with assms show thesis by simp
  qed
qed

end

text \<open>
  The production provider: the kernel's \<^verbatim>\<open>origdst_by_tuple\<close> map, which the programs
  keep changing; \<open>ms n\<close> is its state at the \<open>n\<close>-th attempt.
\<close>

definition tuple_lookup :: "(nat \<Rightarrow> bpf_maps) \<Rightarrow> nat \<Rightarrow> tuple_key \<Rightarrow> lookup_result" where
  "tuple_lookup ms n k =
     (case origdst_by_tuple (ms n) k of None \<Rightarrow> KeyNotExist | Some od \<Rightarrow> Found od)"

interpretation kernel: lookuper "tuple_lookup ms" "\<lambda>n. origdst_by_tuple (ms n)" for ms
  by unfold_locales (simp add: tuple_lookup_def)

section \<open>The relay\<close>

record relay =
  dialTimeout :: duration
  onDialErr :: bool
  onRelayed :: bool

definition WithDialTimeout :: "duration \<Rightarrow> relay \<Rightarrow> relay" where
  "WithDialTimeout d r = r\<lparr>dialTimeout := d\<rparr>"

definition WithOnDialErr :: "relay \<Rightarrow> relay" where
  "WithOnDialErr r = r\<lparr>onDialErr := True\<rparr>"

definition WithOnRelayed :: "relay \<Rightarrow> relay" where
  "WithOnRelayed r = r\<lparr>onRelayed := True\<rparr>"

definition NewRelay :: "(relay \<Rightarrow> relay) list \<Rightarrow> relay" where
  "NewRelay opts = fold (\<lambda>opt r. opt r) opts \<lparr>dialTimeout = 5 * ns_second, onDialErr = False, onRelayed = False\<rparr>"

text \<open>A client's \<^verbatim>\<open>RemoteAddr\<close>: a TCP address with its raw IP bytes and port, or another kind.\<close>

datatype remote_addr = TCPAddr "u8 list" int | OtherAddr

datatype relay_action =
    Resolving resolver_action
  | SetLinger int
  | CloseClient
  | DialTimeout addr_port duration
  | DialErr addr_port nat
  | Relayed addr_port
  | Splice

text \<open>\<open>tcp\<close>: whether the client is a \<^verbatim>\<open>*net.TCPConn\<close>.\<close>

definition reset :: "bool \<Rightarrow> relay_action list" where
  "reset tcp = (if tcp then [SetLinger 0] else []) @ [CloseClient]"

text \<open>\<open>dial d\<close>: the error \<^verbatim>\<open>net.DialTimeout\<close> returns for \<open>d\<close>, if any.\<close>

definition handle ::
  "endian \<Rightarrow> (nat \<Rightarrow> tuple_key \<Rightarrow> lookup_result) \<Rightarrow> (addr_port \<Rightarrow> nat option) \<Rightarrow> relay \<Rightarrow> resolver
   \<Rightarrow> bool \<Rightarrow> remote_addr \<Rightarrow> resolver \<times> relay_action list" where
  "handle e lk dial rl r tcp remote =
     (case remote of
        OtherAddr \<Rightarrow> (r, [CloseClient])
      | TCPAddr ip port \<Rightarrow>
          (case addr_from_slice ip of
             None \<Rightarrow> (r, [CloseClient])
           | Some srcIP \<Rightarrow>
               if port < 0 \<or> 0xFFFF < port then (r, [CloseClient])
               else (case Resolve e lk r (unmap srcIP) (word_of_int port) of
                 (Inl _, r', acts) \<Rightarrow> (r', map Resolving acts @ reset tcp)
               | (Inr dst, r', acts) \<Rightarrow>
                   (r', map Resolving acts @ [DialTimeout dst (dialTimeout rl)] @
                     (case dial dst of
                        Some err \<Rightarrow> (if onDialErr rl then [DialErr dst err] else []) @ [CloseClient]
                      | None \<Rightarrow> (if onRelayed rl then [Relayed dst] else []) @ [Splice])))))"

definition dialled :: "relay_action list \<Rightarrow> addr_port list" where
  "dialled acts = List.map_filter (\<lambda>a. case a of DialTimeout d _ \<Rightarrow> Some d | _ \<Rightarrow> None) acts"

definition reported :: "relay_action list \<Rightarrow> addr_port list" where
  "reported acts =
     List.map_filter (\<lambda>a. case a of DialErr d _ \<Rightarrow> Some d | Relayed d \<Rightarrow> Some d | _ \<Rightarrow> None) acts"

lemma dialled_simps [simp]:
  "dialled [] = []" "dialled (xs @ ys) = dialled xs @ dialled ys"
  "dialled (map Resolving rs) = []" "dialled (reset tcp) = []" "dialled [CloseClient] = []"
  "dialled (DialTimeout d t # acts) = d # dialled acts" "dialled (DialErr d n # acts) = dialled acts"
  "dialled (Relayed d # acts) = dialled acts" "dialled (Splice # acts) = dialled acts"
  by (simp_all add: dialled_def reset_def)

lemma reported_simps [simp]:
  "reported [] = []" "reported (xs @ ys) = reported xs @ reported ys"
  "reported (map Resolving rs) = []" "reported (reset tcp) = []" "reported [CloseClient] = []"
  "reported (DialTimeout d t # acts) = reported acts" "reported (DialErr d n # acts) = d # reported acts"
  "reported (Relayed d # acts) = d # reported acts" "reported (Splice # acts) = reported acts"
  by (simp_all add: reported_def reset_def)

text \<open>The source tuple the relay resolves for a client, if it gets that far.\<close>

definition client_source :: "remote_addr \<Rightarrow> (addr \<times> u16) option" where
  "client_source remote =
     (case remote of
        TCPAddr ip port \<Rightarrow>
          (case addr_from_slice ip of
             Some a \<Rightarrow> if port < 0 \<or> 0xFFFF < port then None else Some (unmap a, word_of_int port)
           | None \<Rightarrow> None)
      | OtherAddr \<Rightarrow> None)"

text \<open>The handler by what resolving said, the form the properties use.\<close>

lemma handle_unresolvable:
  "client_source remote = None \<Longrightarrow> handle e lk dial rl r tcp remote = (r, [CloseClient])"
  by (auto simp: handle_def client_source_def split: remote_addr.splits option.splits if_splits)

lemma handle_resolved:
  assumes "client_source remote = Some (ip, port)"
  shows "handle e lk dial rl r tcp remote =
    (case Resolve e lk r ip port of
       (Inl _, r', acts) \<Rightarrow> (r', map Resolving acts @ reset tcp)
     | (Inr dst, r', acts) \<Rightarrow>
         (r', map Resolving acts @ [DialTimeout dst (dialTimeout rl)] @
           (case dial dst of
              Some err \<Rightarrow> (if onDialErr rl then [DialErr dst err] else []) @ [CloseClient]
            | None \<Rightarrow> (if onRelayed rl then [Relayed dst] else []) @ [Splice])))"
  using assms
  by (auto simp: handle_def client_source_def split: remote_addr.splits option.splits if_splits)

lemma handle_dialled:
  "dialled (snd (handle e lk dial rl r tcp remote)) =
     (case client_source remote of None \<Rightarrow> []
      | Some (ip, port) \<Rightarrow> (case fst (Resolve e lk r ip port) of Inl _ \<Rightarrow> [] | Inr d \<Rightarrow> [d]))"
proof (cases "client_source remote")
  case None
  then show ?thesis by (simp add: handle_unresolvable)
next
  case (Some ip_port)
  then show ?thesis
    by (cases ip_port) (auto simp: handle_resolved split: prod.splits sum.splits option.splits)
qed

subsection \<open>The accept loop\<close>

text \<open>
  A client as the handler sees it: its lookups' answers, its dial's, and its address. Each
  handler runs on a goroutine of its own; what they share is the resolver, whose only
  changing part is the atomic miss counter, so that one after the other is one of the orders
  their increments may take, and the order does not matter to the count.
\<close>

record client =
  cl_lookup :: "nat \<Rightarrow> tuple_key \<Rightarrow> lookup_result"
  cl_dial :: "addr_port \<Rightarrow> nat option"
  cl_tcp :: bool
  cl_remote :: remote_addr

datatype accept = Accepted client | AcceptError nat

text \<open>The loop on what the listener has accepted so far: the error that ended it, if any, and
  what each handler did.\<close>

fun Serve :: "endian \<Rightarrow> relay \<Rightarrow> accept list \<Rightarrow> resolver \<Rightarrow> nat option \<times> resolver \<times> relay_action list list" where
  "Serve e rl [] r = (None, r, [])"
| "Serve e rl (AcceptError n # _) r = (Some n, r, [])"
| "Serve e rl (Accepted c # cs) r =
     (let (r1, acts) = handle e (cl_lookup c) (cl_dial c) rl r (cl_tcp c) (cl_remote c);
          (err, r2, rest) = Serve e rl cs r1
      in (err, r2, acts # rest))"

text \<open>The misses a handler reported.\<close>

definition miss_reports :: "relay_action list \<Rightarrow> nat" where
  "miss_reports acts = length (filter (\<lambda>a. case a of Resolving (OnMiss _) \<Rightarrow> True | _ \<Rightarrow> False) acts)"

lemma miss_reports_simps [simp]:
  "miss_reports [] = 0" "miss_reports (xs @ ys) = miss_reports xs + miss_reports ys"
  "miss_reports (reset tcp) = 0" "miss_reports (CloseClient # acts) = miss_reports acts"
  "miss_reports (DialTimeout d t # acts) = miss_reports acts" "miss_reports (DialErr d n # acts) = miss_reports acts"
  "miss_reports (Relayed d # acts) = miss_reports acts" "miss_reports (Splice # acts) = miss_reports acts"
  "miss_reports (Resolving (OnMiss a) # acts) = Suc (miss_reports acts)"
  by (simp_all add: miss_reports_def reset_def)

lemma resolve_loop_no_report: "miss_reports (map Resolving (snd (resolve_loop lk rt bo key attempt))) = 0"
proof (induction lk rt bo key attempt rule: resolve_loop.induct)
  case (1 lk rt bo key attempt)
  then show ?case
    by (cases "lk attempt key = KeyNotExist \<and> \<not> rt \<le> int attempt")
      (auto simp: resolve_loop_retry resolve_loop_stop miss_reports_def)
qed

lemma resolve_loop_quiet: "resolve_loop lk rt bo key n = (res, acts) \<Longrightarrow> miss_reports (map Resolving acts) = 0"
  using resolve_loop_no_report [of lk rt bo key n] by simp

lemma Resolve_counts:
  assumes "onMiss r" "Resolve e lk r ip port = (res, r', acts)"
  shows "onMiss r' \<and> misses r' = misses r + of_nat (miss_reports (map Resolving acts))"
  using assms
  by (auto simp: Resolve_def resolve_loop_quiet split: sum.splits prod.splits lookup_result.splits)

lemma handle_counts:
  assumes "onMiss r" "handle e lk dial rl r tcp remote = (r', acts)"
  shows "onMiss r' \<and> misses r' = misses r + of_nat (miss_reports acts)"
proof (cases "client_source remote")
  case None
  then show ?thesis using assms by (auto simp: handle_unresolvable)
next
  case (Some ip_port)
  then obtain ip port where src: "client_source remote = Some (ip, port)" by (cases ip_port) simp
  obtain res r1 racts where res: "Resolve e lk r ip port = (res, r1, racts)" using prod_cases3 by blast
  from Resolve_counts [OF assms(1) res] assms(2) show ?thesis
    unfolding handle_resolved [OF src] res by (auto split: sum.splits option.splits)
qed

lemma handle_reports:
  assumes "onRelayed rl" "onDialErr rl"
  shows "reported (snd (handle e lk dial rl r tcp remote)) = dialled (snd (handle e lk dial rl r tcp remote))
    \<and> length (dialled (snd (handle e lk dial rl r tcp remote))) \<le> 1"
proof (cases "client_source remote")
  case None
  then show ?thesis by (simp add: handle_unresolvable)
next
  case (Some ip_port)
  then show ?thesis
    using assms by (cases ip_port) (auto simp: handle_resolved split: prod.splits sum.splits option.splits)
qed

section \<open>Splicing\<close>

text \<open>
  One direction of \<open>splice\<close>: the bytes its source still delivers, the bytes written to
  its destination, and whether its \<^verbatim>\<open>io.Copy\<close> still runs.
\<close>

record copy_dir =
  unread :: string
  written :: string
  copying :: bool

record splice_state =
  a_to_b :: copy_dir
  b_to_a :: copy_dir
  closed_both :: bool

definition splice_init :: "string \<Rightarrow> string \<Rightarrow> splice_state" where
  "splice_init from_a from_b =
     \<lparr>a_to_b = \<lparr>unread = from_a, written = [], copying = True\<rparr>,
      b_to_a = \<lparr>unread = from_b, written = [], copying = True\<rparr>, closed_both = False\<rparr>"

datatype copy_event =
    Chunk nat \<comment> \<open>a read of some bytes, all written\<close>
  | EOF \<comment> \<open>the source ended: the copy returns and the write side is closed\<close>
  | ReadError
  | ShortWrite nat nat \<comment> \<open>a read of some bytes of which fewer were written before an error\<close>

inductive copy_step :: "copy_dir \<Rightarrow> copy_event \<Rightarrow> copy_dir \<Rightarrow> bool" where
  chunk: "copying d \<Longrightarrow> 0 < n \<Longrightarrow> n \<le> length (unread d) \<Longrightarrow>
    copy_step d (Chunk n) (d\<lparr>unread := drop n (unread d), written := written d @ take n (unread d)\<rparr>)"
| eof: "copying d \<Longrightarrow> unread d = [] \<Longrightarrow> copy_step d EOF (d\<lparr>copying := False\<rparr>)"
| read_error: "copying d \<Longrightarrow> copy_step d ReadError (d\<lparr>copying := False\<rparr>)"
| short_write: "copying d \<Longrightarrow> n \<le> length (unread d) \<Longrightarrow> k < n \<Longrightarrow>
    copy_step d (ShortWrite n k)
      (d\<lparr>unread := drop n (unread d), written := written d @ take k (unread d), copying := False\<rparr>)"

datatype splice_event = AToB copy_event | BToA copy_event | CloseBoth

inductive splice_step :: "splice_state \<Rightarrow> splice_event \<Rightarrow> splice_state \<Rightarrow> bool" where
  a_to_b: "copy_step (a_to_b s) ev d \<Longrightarrow> splice_step s (AToB ev) (s\<lparr>a_to_b := d\<rparr>)"
| b_to_a: "copy_step (b_to_a s) ev d \<Longrightarrow> splice_step s (BToA ev) (s\<lparr>b_to_a := d\<rparr>)"
| close_both: "\<not> copying (a_to_b s) \<Longrightarrow> \<not> copying (b_to_a s) \<Longrightarrow> \<not> closed_both s \<Longrightarrow>
    splice_step s CloseBoth (s\<lparr>closed_both := True\<rparr>)"

text \<open>While a copy runs nothing is missing; once it ended, what was written is a prefix.\<close>

definition copy_ok :: "string \<Rightarrow> copy_dir \<Rightarrow> bool" where
  "copy_ok src d \<longleftrightarrow> prefix (written d) src \<and> (copying d \<longrightarrow> written d @ unread d = src)"

definition splice_ok :: "string \<Rightarrow> string \<Rightarrow> splice_state \<Rightarrow> bool" where
  "splice_ok from_a from_b s \<longleftrightarrow> copy_ok from_a (a_to_b s) \<and> copy_ok from_b (b_to_a s)
     \<and> (closed_both s \<longrightarrow> \<not> copying (a_to_b s) \<and> \<not> copying (b_to_a s))"

lemma copy_step_ok: "copy_step d ev d' \<Longrightarrow> copy_ok src d \<Longrightarrow> copy_ok src d'"
  by (induction rule: copy_step.induct) (auto simp: copy_ok_def take_is_prefix)

lemma copy_step_copying: "copy_step d ev d' \<Longrightarrow> copying d"
  by (cases rule: copy_step.cases) auto

interpretation splicing: invariant_system "\<lambda>s. s = splice_init from_a from_b" splice_step
  "splice_ok from_a from_b" for from_a from_b
proof unfold_locales
  show "splice_ok from_a from_b s" if "s = splice_init from_a from_b" for s
    using that by (simp add: splice_ok_def splice_init_def copy_ok_def)
  show "splice_ok from_a from_b t" if "splice_step s e t" "splice_ok from_a from_b s" for s e t
    using that by cases (auto simp: splice_ok_def intro: copy_step_ok dest: copy_step_copying)
qed

text \<open>A direction whose copy ended at end of file delivered everything.\<close>

definition ended_by_eof :: "splice_event list \<Rightarrow> bool" where
  "ended_by_eof es \<longleftrightarrow> (\<forall>ev \<in> set es. case ev of
      AToB c \<Rightarrow> (case c of Chunk _ \<Rightarrow> True | EOF \<Rightarrow> True | _ \<Rightarrow> False)
    | BToA c \<Rightarrow> (case c of Chunk _ \<Rightarrow> True | EOF \<Rightarrow> True | _ \<Rightarrow> False)
    | CloseBoth \<Rightarrow> True)"

lemma splice_step_complete:
  "splice_step s ev t \<Longrightarrow> ended_by_eof [ev] \<Longrightarrow>
   written (a_to_b s) @ unread (a_to_b s) = x \<Longrightarrow> written (b_to_a s) @ unread (b_to_a s) = y \<Longrightarrow>
   (\<not> copying (a_to_b s) \<longrightarrow> unread (a_to_b s) = []) \<Longrightarrow> (\<not> copying (b_to_a s) \<longrightarrow> unread (b_to_a s) = []) \<Longrightarrow>
   written (a_to_b t) @ unread (a_to_b t) = x \<and> written (b_to_a t) @ unread (b_to_a t) = y
   \<and> (\<not> copying (a_to_b t) \<longrightarrow> unread (a_to_b t) = []) \<and> (\<not> copying (b_to_a t) \<longrightarrow> unread (b_to_a t) = [])"
  by (cases rule: splice_step.cases, assumption)
    (auto simp: ended_by_eof_def elim!: copy_step.cases split: copy_event.splits)

lemma run_splice_complete:
  "run splice_step s es t \<Longrightarrow> ended_by_eof es \<Longrightarrow>
   written (a_to_b s) @ unread (a_to_b s) = x \<Longrightarrow> written (b_to_a s) @ unread (b_to_a s) = y \<Longrightarrow>
   (\<not> copying (a_to_b s) \<longrightarrow> unread (a_to_b s) = []) \<Longrightarrow> (\<not> copying (b_to_a s) \<longrightarrow> unread (b_to_a s) = []) \<Longrightarrow>
   written (a_to_b t) @ unread (a_to_b t) = x \<and> written (b_to_a t) @ unread (b_to_a t) = y
   \<and> (\<not> copying (a_to_b t) \<longrightarrow> unread (a_to_b t) = []) \<and> (\<not> copying (b_to_a t) \<longrightarrow> unread (b_to_a t) = [])"
proof (induction rule: run.induct)
  case (run_Cons s e t es u)
  have "ended_by_eof [e]" "ended_by_eof es"
    using run_Cons.prems(1) by (simp_all add: ended_by_eof_def)
  then show ?case
    using splice_step_complete [OF run_Cons.hyps(1) _ run_Cons.prems(2-5)] run_Cons.IH by blast
qed simp

section \<open>Properties\<close>

text \<open>
  C1: a redirected connection is resolved to where it wanted to go. A process connects to
  \<open>q : p\<close>; the hook records that under its socket's cookie; other connections come and go,
  as long as none of them uses this cookie or has this entry evicted; the socket reports its
  source tuple; and the relay resolves that tuple, possibly looking before the entry is there.
  If the entry is there by one of the attempts the resolver makes, the answer is \<open>q : p\<close>.
\<close>

theorem resolve_finds_original_destination:
  assumes "redirected PROXY_TCP uid_gid q" "is_stored out"
    "kstep e m (Connect uid_gid cookie out (connect_ctx e PROXY_TCP q p)) m1"
    "run (kstep e) m1 es m2" "\<forall>ev \<in> set es. quiet_cookie cookie ev"
    "is_stored out'" "kstep e m2 (SockOps cookie out' (sockops_ctx e src sport)) m3"
    "\<forall>n \<ge> k. \<exists>es. run (kstep e) m3 es (ms n)
       \<and> (\<forall>ev \<in> set es. quiet_tuple \<lparr>tk_ip = native_uint32 e src, tk_port = sport\<rparr> ev)"
    "\<forall>n < k. origdst_by_tuple (ms n) \<lparr>tk_ip = native_uint32 e src, tk_port = sport\<rparr> = None"
    "int k \<le> retries r \<or> k = 0"
  shows "fst (Resolve e (tuple_lookup ms) r (Addr4 src) sport) = Inr \<lparr>ap_addr = Addr4 q, ap_port = p\<rparr>"
proof -
  let ?od = "\<lparr>od_ip = native_uint32 e q, od_port = p\<rparr>" and ?key = "\<lparr>tk_ip = native_uint32 e src, tk_port = sport\<rparr>"
  have "origdst_by_cookie m1 cookie = Some ?od"
    using assms(1-3) by (auto simp: kstep_Connect connect4_on_connect lru.lookup_stored)
  then have "origdst_by_cookie m2 cookie = Some ?od"
    using run_quiet_cookie [OF assms(4,5)] by simp
  then have m3: "origdst_by_tuple m3 ?key = Some ?od"
    using assms(6,7) by (simp add: kstep_SockOps sockops_on_connect lru.lookup_stored)
  obtain es' where "run (kstep e) m3 es' (ms k)" "\<forall>ev \<in> set es'. quiet_tuple ?key ev"
    using assms(8) by blast
  from run_quiet_tuple [OF this] m3 have found: "origdst_by_tuple (ms k) ?key = Some ?od" by simp
  have key: "TupleKey e (Addr4 src) sport = Inr ?key" by (simp add: TupleKey_def)
  have "fst (Resolve e (tuple_lookup ms) r (Addr4 src) sport) = Inr (AddrPort e ?od)"
    using assms(9,10) found by (intro kernel.resolve_first [OF key, where n = k]) auto
  then show ?thesis by (simp add: AddrPort_def)
qed

lemma resolve_finds_original_destination_witness:
  "fst (Resolve LittleEndian (tuple_lookup (\<lambda>_. sample_maps)) (NewResolver [WithOnMiss])
       (Addr4 \<lparr>b0 = 10, b1 = 0, b2 = 0, b3 = 5\<rparr>) 40000)
     = Inr \<lparr>ap_addr = Addr4 \<lparr>b0 = 93, b1 = 184, b2 = 216, b3 = 34\<rparr>, ap_port = 443\<rparr>"
proof (rule resolve_finds_original_destination [where uid_gid = 1000 and cookie = 7 and es = "[]" and k = 0
      and out = "Stored []" and out' = "Stored []" and m = empty_maps])
  let ?c = "connect_ctx LittleEndian PROXY_TCP \<lparr>b0 = 93, b1 = 184, b2 = 216, b3 = 34\<rparr> 443"
  show "kstep LittleEndian empty_maps (Connect 1000 7 (Stored []) ?c)
      (fst (snd (cgroup_connect4 LittleEndian 1000 7 (Stored []) ?c empty_maps)))"
    by (simp add: kstep_Connect prod_eq_iff)
  show "kstep LittleEndian (fst (snd (cgroup_connect4 LittleEndian 1000 7 (Stored []) ?c empty_maps)))
      (SockOps 7 (Stored []) (sockops_ctx LittleEndian \<lparr>b0 = 10, b1 = 0, b2 = 0, b3 = 5\<rparr> 40000)) sample_maps"
    by (simp add: kstep_SockOps sample_maps_def)
qed (auto simp: redirected_def uid_of_1000 loopback_def intro!: exI [of _ "[]"])

text \<open>
  C2: the relay dials only where a redirected connection asked to go. Whatever the pod does,
  if handling a client dials a destination, then some process other than the sidecar made a
  TCP connect to exactly that non-loopback destination, and the socket of that connect
  reported the client's source tuple.
\<close>

theorem relay_dials_only_requested:
  assumes "\<forall>n. run (kstep e) empty_maps (history n) (ms n)"
    "d \<in> set (dialled (snd (handle e (tuple_lookup ms) dial rl r tcp remote)))"
  shows "\<exists>ip port key n od uid_gid cookie out ctx out' ctx'.
    client_source remote = Some (ip, port) \<and> TupleKey e ip port = Inr key \<and> d = AddrPort e od
    \<and> Connect uid_gid cookie out ctx \<in> set (history n) \<and> recorded e uid_gid ctx = Some od
    \<and> SockOps cookie out' ctx' \<in> set (history n) \<and> sockops_key ctx' = key"
proof -
  obtain ip port where src: "client_source remote = Some (ip, port)"
    and res: "fst (Resolve e (tuple_lookup ms) r ip port) = Inr d"
    using assms(2) that unfolding handle_dialled
    by (cases "client_source remote") (auto split: sum.splits prod.splits)
  obtain key n od where o: "TupleKey e ip port = Inr key" "origdst_by_tuple (ms n) key = Some od" "d = AddrPort e od"
    using res by (rule kernel.resolve_origin)
  have "run (kstep e) empty_maps (history n) (ms n)" using assms(1) by blast
  from run_tuple_origin [OF this o(2)] obtain cookie where
    "connect_origin e (history n) cookie od" "tuple_origin e (history n) key cookie"
    by (auto simp: empty_maps_def)
  with src o(1,3) show ?thesis
    unfolding connect_origin_def tuple_origin_def by blast
qed

lemma sample_handle:
  "dialled (snd (handle LittleEndian (tuple_lookup (\<lambda>_. sample_maps)) (\<lambda>_. None) (NewRelay []) (NewResolver [WithOnMiss]) True
     (TCPAddr [10, 0, 0, 5] 40000))) = [AddrPort LittleEndian sample_dst]"
proof -
  have src: "client_source (TCPAddr [10, 0, 0, 5] 40000) = Some (Addr4 \<lparr>b0 = 10, b1 = 0, b2 = 0, b3 = 5\<rparr>, 40000)"
    by (simp add: client_source_def addr_from_slice_def quad_of_list_def unmap_def)
  have key: "TupleKey LittleEndian (Addr4 \<lparr>b0 = 10, b1 = 0, b2 = 0, b3 = 5\<rparr>) 40000 = Inr sample_key"
    by (simp add: TupleKey_def sample_key_def)
  have "fst (Resolve LittleEndian (tuple_lookup (\<lambda>_. sample_maps)) (NewResolver [WithOnMiss])
      (Addr4 \<lparr>b0 = 10, b1 = 0, b2 = 0, b3 = 5\<rparr>) 40000) = Inr (AddrPort LittleEndian sample_dst)"
    by (rule kernel.resolve_first [OF key, where n = 0]) (simp_all add: sample_maps_entry)
  then show ?thesis unfolding handle_dialled src by simp
qed

lemma relay_dials_only_requested_witness:
  "\<exists>ip port key n od uid_gid cookie out ctx out' ctx'.
    client_source (TCPAddr [10, 0, 0, 5] 40000) = Some (ip, port) \<and> TupleKey LittleEndian ip port = Inr key
    \<and> AddrPort LittleEndian sample_dst = AddrPort LittleEndian od
    \<and> Connect uid_gid cookie out ctx \<in> set ((\<lambda>_. sample_run) (n :: nat)) \<and> recorded LittleEndian uid_gid ctx = Some od
    \<and> SockOps cookie out' ctx' \<in> set ((\<lambda>_. sample_run) n) \<and> sockops_key ctx' = key"
  using sample_maps_run sample_handle
  by (intro relay_dials_only_requested [where ms = "\<lambda>_. sample_maps" and dial = "\<lambda>_. None" and rl = "NewRelay []"
        and r = "NewResolver [WithOnMiss]" and tcp = True]) simp_all

text \<open>
  C16: fail closed. When resolving a client fails, for whatever reason, nothing is dialled and
  nothing is reported as relayed: the client is closed, and reset when it is a TCP
  connection. A miss, and nothing else, adds one to the miss counter.
\<close>

theorem relay_fails_closed:
  assumes "client_source remote = Some (ip, port)" "fst (Resolve e lk r ip port) = Inl err"
  shows "dialled (snd (handle e lk dial rl r tcp remote)) = []
    \<and> reported (snd (handle e lk dial rl r tcp remote)) = []
    \<and> last (snd (handle e lk dial rl r tcp remote)) = CloseClient
    \<and> (tcp \<longrightarrow> SetLinger 0 \<in> set (snd (handle e lk dial rl r tcp remote)))
    \<and> misses (fst (handle e lk dial rl r tcp remote)) = (if err = ErrNotFound then misses r + 1 else misses r)"
proof -
  obtain r' acts where res: "Resolve e lk r ip port = (Inl err, r', acts)"
    using assms(2) by (cases "Resolve e lk r ip port") auto
  have "misses r' = (if err = ErrNotFound then misses r + 1 else misses r)"
    using res by (auto simp: Resolve_def split: sum.splits prod.splits lookup_result.splits)
  then show ?thesis
    unfolding handle_resolved [OF assms(1)] res by (simp add: reset_def dialled_def reported_def)
qed

lemma relay_fails_closed_witness:
  "dialled (snd (handle LittleEndian (tuple_lookup (\<lambda>_. empty_maps)) (\<lambda>_. None) (NewRelay []) (NewResolver [WithOnMiss]) True
     (TCPAddr [10, 0, 0, 5] 40000))) = []
   \<and> misses (fst (handle LittleEndian (tuple_lookup (\<lambda>_. empty_maps)) (\<lambda>_. None) (NewRelay []) (NewResolver [WithOnMiss]) True
     (TCPAddr [10, 0, 0, 5] 40000))) = 1"
proof -
  have src: "client_source (TCPAddr [10, 0, 0, 5] 40000) = Some (Addr4 \<lparr>b0 = 10, b1 = 0, b2 = 0, b3 = 5\<rparr>, 40000)"
    by (simp add: client_source_def addr_from_slice_def quad_of_list_def unmap_def)
  have key: "TupleKey LittleEndian (Addr4 \<lparr>b0 = 10, b1 = 0, b2 = 0, b3 = 5\<rparr>) 40000 = Inr sample_key"
    by (simp add: TupleKey_def sample_key_def)
  have "fst (Resolve LittleEndian (tuple_lookup (\<lambda>_. empty_maps)) (NewResolver [WithOnMiss])
      (Addr4 \<lparr>b0 = 10, b1 = 0, b2 = 0, b3 = 5\<rparr>) 40000) = Inl ErrNotFound"
    by (rule kernel.resolve_none [OF key]) (simp add: empty_maps_def)
  from relay_fails_closed [OF src this, of "\<lambda>_. None" "NewRelay []" True] show ?thesis
    by (simp add: NewResolver_def WithOnMiss_def)
qed

text \<open>
  Resolving is bounded. It looks the client's key up at least once and at most once more
  than the configured retries, sleeping the backoff between two lookups and never
  otherwise; an address that is not IPv4 is refused with no lookup at all.
\<close>

lemma resolve_is_bounded:
  "(\<forall>key. TupleKey e ip port = Inr key \<longrightarrow>
      (\<exists>n. int n \<le> max 0 (retries r) \<and> lookups (snd (snd (Resolve e lk r ip port))) = replicate (Suc n) key
         \<and> sleeps (snd (snd (Resolve e lk r ip port))) = replicate n (backoff r)))
   \<and> (\<not> is4 ip \<longrightarrow> Resolve e lk r ip port = (Inl NotIPv4, r, []))"
proof (intro conjI allI impI)
  fix key assume key: "TupleKey e ip port = Inr key"
  obtain n where n: "n \<le> nat (retries r)" "lookups (snd (resolve_loop lk (retries r) (backoff r) key 0)) = replicate (Suc n) key"
    "sleeps (snd (resolve_loop lk (retries r) (backoff r) key 0)) = replicate n (backoff r)"
    using resolve_loop_bounded [of "retries r" 0 "backoff r" key lk] by (auto simp: retry_trace_def)
  have "lookups (snd (snd (Resolve e lk r ip port))) = lookups (snd (resolve_loop lk (retries r) (backoff r) key 0))"
    "sleeps (snd (snd (Resolve e lk r ip port))) = sleeps (snd (resolve_loop lk (retries r) (backoff r) key 0))"
    using key by (auto simp: Resolve_def split: prod.splits lookup_result.splits)
  with n show "\<exists>n. int n \<le> max 0 (retries r) \<and> lookups (snd (snd (Resolve e lk r ip port))) = replicate (Suc n) key
      \<and> sleeps (snd (snd (Resolve e lk r ip port))) = replicate n (backoff r)"
    by (intro exI [of _ n]) auto
next
  assume "\<not> is4 ip"
  then show "Resolve e lk r ip port = (Inl NotIPv4, r, [])"
    by (cases ip) (auto simp: Resolve_def TupleKey_def is4_def)
qed

lemma resolve_is_bounded_witness:
  "\<exists>n. int n \<le> 3 \<and> lookups (snd (snd (Resolve LittleEndian (\<lambda>_ _. KeyNotExist) (NewResolver []) (Addr4 relay_quad) 5)))
     = replicate (Suc n) \<lparr>tk_ip = native_uint32 LittleEndian relay_quad, tk_port = 5\<rparr>"
  using conjunct1 [OF resolve_is_bounded [of LittleEndian "Addr4 relay_quad" 5 "NewResolver []" "\<lambda>_ _. KeyNotExist"]]
  by (auto simp: TupleKey_def NewResolver_def)

text \<open>
  C36: nothing the relay does goes unreported. However many clients it serves, each is dialled
  at most once, each dial is reported exactly once with its original destination, as relayed
  or as failed, and nothing is reported that was not dialled; and the miss counter grows by
  exactly the misses reported.
\<close>

theorem every_dial_reported_once:
  assumes "onRelayed rl" "onDialErr rl" "onMiss r" "Serve e rl cs r = (err, r', acts)"
  shows "(\<forall>as \<in> set acts. reported as = dialled as \<and> length (dialled as) \<le> 1)
    \<and> misses r' = misses r + of_nat (sum_list (map miss_reports acts))"
  using assms(3,4)
proof (induction cs arbitrary: r acts)
  case (Cons x cs)
  show ?case
  proof (cases x)
    case (Accepted c)
    obtain r1 as where h: "handle e (cl_lookup c) (cl_dial c) rl r (cl_tcp c) (cl_remote c) = (r1, as)" by fastforce
    obtain rest where rest: "Serve e rl cs r1 = (err, r', rest)" "acts = as # rest"
      using Cons.prems(2) h by (auto simp: Accepted split: prod.splits)
    have c: "onMiss r1" "misses r1 = misses r + of_nat (miss_reports as)"
      using handle_counts [OF Cons.prems(1) h] by simp_all
    have "reported as = dialled as \<and> length (dialled as) \<le> 1"
      using handle_reports [OF assms(1,2), of e "cl_lookup c" "cl_dial c" r "cl_tcp c" "cl_remote c"] h by simp
    with Cons.IH [OF c(1) rest(1)] c(2) show ?thesis unfolding rest(2) by (simp add: add.assoc)
  qed (use Cons.prems in auto)
qed auto

definition sample_client :: client where
  "sample_client = \<lparr>cl_lookup = tuple_lookup (\<lambda>_. sample_maps), cl_dial = (\<lambda>_. None), cl_tcp = True,
     cl_remote = TCPAddr [10, 0, 0, 5] 40000\<rparr>"

lemma every_dial_reported_once_witness:
  "\<exists>r' as. Serve LittleEndian (NewRelay [WithOnRelayed, WithOnDialErr]) [Accepted sample_client] (NewResolver [WithOnMiss]) = (None, r', [as])
     \<and> reported as = dialled as \<and> misses r' = of_nat (miss_reports as)"
proof -
  obtain r' as where s: "Serve LittleEndian (NewRelay [WithOnRelayed, WithOnDialErr]) [Accepted sample_client]
      (NewResolver [WithOnMiss]) = (None, r', [as])"
    by (simp only: Serve.simps Let_def case_prod_beta fst_conv snd_conv)
  from every_dial_reported_once [OF _ _ _ s] s show ?thesis
    by (auto simp: NewRelay_def WithOnRelayed_def WithOnDialErr_def NewResolver_def WithOnMiss_def)
qed

text \<open>
  C35: splicing passes bytes through. In any interleaving of the two directions, what has
  reached each side is a prefix of what the other sent, in order; and once both copies ended
  at end of file and both connections are closed, all of it did.
\<close>

theorem splice_passes_bytes_through:
  assumes "run splice_step (splice_init from_a from_b) es t"
  shows "prefix (written (a_to_b t)) from_a \<and> prefix (written (b_to_a t)) from_b
    \<and> (ended_by_eof es \<and> closed_both t \<longrightarrow> written (a_to_b t) = from_a \<and> written (b_to_a t) = from_b)"
proof -
  have ok: "splice_ok from_a from_b t" by (rule splicing.inv_from_init [OF refl assms])
  have "ended_by_eof es \<Longrightarrow> written (a_to_b t) @ unread (a_to_b t) = from_a \<and> written (b_to_a t) @ unread (b_to_a t) = from_b
      \<and> (\<not> copying (a_to_b t) \<longrightarrow> unread (a_to_b t) = []) \<and> (\<not> copying (b_to_a t) \<longrightarrow> unread (b_to_a t) = [])"
    by (rule run_splice_complete [OF assms]) (simp_all add: splice_init_def)
  with ok show ?thesis by (auto simp: splice_ok_def copy_ok_def)
qed

lemma splice_passes_bytes_through_witness:
  "\<exists>t. run splice_step (splice_init ''hi'' []) [AToB (Chunk 2), AToB EOF, BToA EOF, CloseBoth] t
     \<and> written (a_to_b t) = ''hi'' \<and> written (b_to_a t) = []"
proof -
  define t where "t = \<lparr>a_to_b = \<lparr>unread = [], written = ''hi'', copying = False\<rparr>,
    b_to_a = \<lparr>unread = [], written = [], copying = False\<rparr>, closed_both = True\<rparr>"
  have "run splice_step (splice_init ''hi'' []) [AToB (Chunk 2), AToB EOF, BToA EOF, CloseBoth] t"
    unfolding t_def splice_init_def
    by (rule run_Cons, rule splice_step.a_to_b, rule copy_step.chunk, simp_all,
        rule run_Cons, rule splice_step.a_to_b, rule copy_step.eof, simp_all,
        rule run_Cons, rule splice_step.b_to_a, rule copy_step.eof, simp_all,
        rule run_Cons, rule splice_step.close_both, simp_all)
  then show ?thesis
    using splice_passes_bytes_through [of "''hi''" "[]" "[AToB (Chunk 2), AToB EOF, BToA EOF, CloseBoth]" t]
    by (intro exI [of _ t]) (auto simp: ended_by_eof_def t_def)
qed

end
