(* ===== verification/App.thy ===== *)
theory App
  imports Retention Keylog_Server Loader Keylog_Tmpfs Live Proxy
begin

text \<open>
  \<^verbatim>\<open>cmd/app/app.go\<close>: one run of the sidecar. \<open>Start\<close> brings the subsystems up in order and
  tears down what it started on any failure; \<open>CloseApp\<close> takes everything down; between them
  the retention tick, the stats line and the keylog's gate. The subsystems are the
  definitions of the other theories; what the operating system answers is the argument
  \<open>env\<close>, and what the run holds of it is the record \<open>world\<close>.
\<close>

section \<open>Configuration and state\<close>

record config =
  c_CgroupPath :: string
  c_RelayListen :: string
  c_PinDir :: string
  c_KeylogSocketPath :: string
  c_KeylogPath :: string
  c_CaptureIface :: string
  c_CapturePath :: string
  c_Retain :: bool
  c_MaxBytes :: int
  c_MaxAge :: duration
  c_RetentionTick :: duration
  c_StatsInterval :: duration
  c_LogLevel :: int

definition DefaultConfig :: config where
  "DefaultConfig =
     \<lparr>c_CgroupPath = [], c_RelayListen = ''127.0.0.1:15001'', c_PinDir = lc_PinDir DefaultLoaderConfig,
      c_KeylogSocketPath = ''/var/run/sidecar/keylog.sock'',
      c_KeylogPath = ''/var/log/sidecar-keylog-tmpfs/keylog/sslkeylog.log'',
      c_CaptureIface = ''eth0'', c_CapturePath = ''/var/log/sidecar/dump.pcapng'', c_Retain = False,
      c_MaxBytes = 100 * 1024 * 1024, c_MaxAge = 24 * 3600 * ns_second, c_RetentionTick = 5 * 60 * ns_second,
      c_StatsInterval = 60 * ns_second, c_LogLevel = LevelInfo\<rparr>"

record app =
  a_cfg :: config
  a_loader :: "loader option"
  a_ln :: bool
  a_resolver :: resolver
  a_keylogSrv :: "socket_server option"
  a_capW :: "cwriter option"
  a_live :: bool
  a_retention :: retention
  a_stopTick :: bool

datatype app_log =
    LogCaptureNotStarted string int int
  | LogCaptureStarted string
  | LogCaptureStop string int int int
  | LogStats u64 int string

text \<open>
  What the process holds of the operating system. A descriptor is gone once its close was
  called, whether or not that reported an error; a pin or a file that cannot be removed stays.
\<close>

record world =
  wd_fs :: filesystem
  wd_links :: "bpf_link list"
  wd_objects :: "bpf_object list" \<comment> \<open>open\<close>
  wd_pins :: "bpf_map_id list"
  wd_pinDir :: bool
  wd_relay :: bool
  wd_keylog :: bool
  wd_capture :: bool
  wd_live :: bool
  wd_log :: "app_log list"

datatype app_error =
    TmpfsFailed tmpfs_error
  | LeftoverKeylog errno
  | LoadFailed loader_error
  | AttachFailed loader_error
  | RelayListenFailed errno
  | CaptureTarget target_error
  | RoomFailed errno
  | CreateFailed create_error
  | KeylogServerFailed server_error
  | LiveFailed live_error

datatype close_error =
    CloseLiveError live_error
  | CloseCaptureError nat
  | CloseKeylogError "errno list"
  | CloseRelayError errno
  | CloseLoaderError "nat list"
  | CleanupError errno
  | DeleteKeylogError errno

record env =
  e_statfs :: "string \<Rightarrow> errno + nat"
  e_remove :: fault
  e_loader :: loader_env
  e_attach4 :: "nat option"
  e_attachSockops :: "nat option"
  e_listen :: "errno option"
  e_captureDir :: "errno + nat"
  e_readDir :: "filesystem \<Rightarrow> listing"
  e_enforceAt :: time
  e_now :: time
  e_create :: create_env
  e_header :: "nat \<Rightarrow> nat"
  e_server :: server_env
  e_liveOpen :: "nat option"
  e_liveLength :: "nat option"
  e_logger :: logger
  e_ng :: ng_io
  e_closeLive :: "nat option"
  e_closeSocket :: "errno option"
  e_closeKeylog :: "errno option"
  e_removeSocket :: "errno option"
  e_closeRelay :: "errno option"
  e_closeLoader :: "loader_action \<Rightarrow> nat option"
  e_addrText :: "addr_port \<Rightarrow> string"
  e_errText :: "nat \<Rightarrow> string"

section \<open>Capture state, retention and statistics\<close>

definition captureState :: "app \<Rightarrow> capture_state" where
  "captureState a = (case a_capW a of None \<Rightarrow> StateNotStartedMaxBytes | Some w \<Rightarrow> State w)"

definition captureActive :: "app \<Rightarrow> bool" where
  "captureActive a \<longleftrightarrow> captureState a = StateActive"

definition logCaptureStop :: "app \<Rightarrow> stop_info \<Rightarrow> app_log" where
  "logCaptureStop a s =
     LogCaptureStop (stop_path s) (stop_bytes s)
       (i64 (i64 (c_MaxBytes (a_cfg a) - stop_room s) + stop_bytes s)) (c_MaxBytes (a_cfg a))"

definition logStats :: "app \<Rightarrow> app_log" where
  "logStats a =
     LogStats (Misses (a_resolver a))
       (case a_keylogSrv a of Some s \<Rightarrow> RejectedCount s | None \<Rightarrow> 0) (state_string (captureState a))"

definition enforceRetention :: "env \<Rightarrow> time \<Rightarrow> app \<times> world \<Rightarrow> app \<times> world" where
  "enforceRetention env now aw =
     (let (a, w) = aw;
          fs = snd (Enforce (e_remove env) now (a_retention a) (e_readDir env (wd_fs w)) (wd_fs w));
          w1 = w\<lparr>wd_fs := fs\<rparr> in
      case a_capW a of
        None \<Rightarrow> (a, w1)
      | Some cw \<Rightarrow>
          (case RetentionRoom (a_retention a) (e_readDir env fs) of
             (left, None) \<Rightarrow> (a\<lparr>a_capW := Some (SetRoom left cw)\<rparr>, w1)
           | (_, Some _) \<Rightarrow> (a, w1)))"

text \<open>
  The two tickers, on what their select has received so far: a tick, at a time, or the
  closing of \<^verbatim>\<open>stopTick\<close>, which ends them. The result says whether it did.
\<close>

datatype tick = Tick time | StopTick

fun enforceRetentionPeriodically :: "env \<Rightarrow> tick list \<Rightarrow> app \<times> world \<Rightarrow> bool \<times> app \<times> world" where
  "enforceRetentionPeriodically env [] aw = (False, aw)"
| "enforceRetentionPeriodically env (StopTick # _) aw = (True, aw)"
| "enforceRetentionPeriodically env (Tick now # ts) aw = enforceRetentionPeriodically env ts (enforceRetention env now aw)"

fun logStatsPeriodically :: "tick list \<Rightarrow> app \<times> world \<Rightarrow> bool \<times> app \<times> world" where
  "logStatsPeriodically [] aw = (False, aw)"
| "logStatsPeriodically (StopTick # _) aw = (True, aw)"
| "logStatsPeriodically (Tick now # ts) (a, w) = logStatsPeriodically ts (a, w\<lparr>wd_log := wd_log w @ [logStats a]\<rparr>)"

definition deleteKeylog :: "fault \<Rightarrow> string \<Rightarrow> filesystem \<Rightarrow> errno option \<times> filesystem" where
  "deleteKeylog flt path fs =
     (if path = [] then (None, fs)
      else let (err, fs1) = os_remove flt path fs in (if err = Some ENOENT then None else err, fs1))"

section \<open>Taking everything down\<close>

text \<open>
  \<^verbatim>\<open>Close\<close> is a sequence of steps, none of which keeps the next from running: each gives its
  error, if any, to be joined at the end.
\<close>

type_synonym closing = "app \<times> world \<Rightarrow> close_error option \<times> app \<times> world"

definition close_ticks :: closing where
  "close_ticks = (\<lambda>(a, w).
     if a_stopTick a then
       (None, a\<lparr>a_stopTick := False\<rparr>, if c_StatsInterval (a_cfg a) > 0 then w\<lparr>wd_log := wd_log w @ [logStats a]\<rparr> else w)
     else (None, a, w))"

definition close_live :: "env \<Rightarrow> closing" where
  "close_live env = (\<lambda>(a, w).
     if a_live a then (map_option CloseLiveError (fst (StopLive (e_closeLive env))), a, w\<lparr>wd_live := False\<rparr>)
     else (None, a, w))"

definition close_capture :: "env \<Rightarrow> closing" where
  "close_capture env = (\<lambda>(a, w).
     case a_capW a of
       None \<Rightarrow> (None, a, w)
     | Some cw \<Rightarrow>
         (let (err, cw') = Close (e_ng env) (cw\<lparr>stop_signalled := True, drained := True\<rparr>)
          in (map_option CloseCaptureError err, a\<lparr>a_capW := Some cw'\<rparr>, w\<lparr>wd_capture := False\<rparr>)))"

definition close_keylog :: "env \<Rightarrow> closing" where
  "close_keylog env = (\<lambda>(a, w).
     case a_keylogSrv a of
       None \<Rightarrow> (None, a, w)
     | Some s \<Rightarrow>
         (let errs = fst (CloseServer (e_closeSocket env) (e_closeKeylog env) (e_removeSocket env) s)
          in (if errs = [] then None else Some (CloseKeylogError errs), a, w\<lparr>wd_keylog := False\<rparr>)))"

definition close_relay :: "env \<Rightarrow> closing" where
  "close_relay env = (\<lambda>(a, w).
     if a_ln a then (map_option CloseRelayError (e_closeRelay env), a, w\<lparr>wd_relay := False\<rparr>) else (None, a, w))"

definition close_loader :: "env \<Rightarrow> closing" where
  "close_loader env = (\<lambda>(a, w).
     case a_loader a of
       None \<Rightarrow> (None, a, w)
     | Some l \<Rightarrow>
         (let (errs, l', acts) = CloseLoader (e_closeLoader env) l;
              removed = (RemovePinDir (ld_pinDir l) \<in> set acts \<and> e_closeLoader env (RemovePinDir (ld_pinDir l)) = None)
          in (if errs = [] then None else Some (CloseLoaderError errs), a\<lparr>a_loader := Some l'\<rparr>,
              w\<lparr>wd_links := filter (\<lambda>k. CloseLink k \<notin> set acts) (wd_links w),
                wd_objects := filter (\<lambda>obj. CloseObject obj \<notin> set acts) (wd_objects w),
                wd_pins := filter (\<lambda>m. Unpin m \<notin> set acts \<or> e_closeLoader env (Unpin m) \<noteq> None) (wd_pins w),
                wd_pinDir := (wd_pinDir w \<and> \<not> removed)\<rparr>)))"

definition close_cleanup :: "env \<Rightarrow> closing" where
  "close_cleanup env = (\<lambda>(a, w).
     let (err, fs) = Cleanup (e_remove env) (a_retention a) (wd_fs w) in (map_option CleanupError err, a, w\<lparr>wd_fs := fs\<rparr>))"

definition close_keylogFile :: "env \<Rightarrow> closing" where
  "close_keylogFile env = (\<lambda>(a, w).
     let (err, fs) = deleteKeylog (e_remove env) (c_KeylogPath (a_cfg a)) (wd_fs w)
     in (map_option DeleteKeylogError err, a, w\<lparr>wd_fs := fs\<rparr>))"

definition closings :: "env \<Rightarrow> closing list" where
  "closings env =
     [close_ticks, close_live env, close_capture env, close_keylog env, close_relay env, close_loader env,
      close_cleanup env, close_keylogFile env]"

fun close_all :: "closing list \<Rightarrow> app \<times> world \<Rightarrow> close_error option list \<times> app \<times> world" where
  "close_all [] aw = ([], aw)"
| "close_all (c # cs) aw = (let (err, aw1) = c aw; (errs, aw2) = close_all cs aw1 in (err # errs, aw2))"

definition CloseApp :: "env \<Rightarrow> app \<Rightarrow> world \<Rightarrow> close_error list \<times> app \<times> world" where
  "CloseApp env a w = (let (errs, aw) = close_all (closings env) (a, w) in (errors_join errs, aw))"

section \<open>Bringing it up\<close>

text \<open>Each stage takes and gives the run so far and the world, and may fail.\<close>

type_synonym stage = "app \<times> world \<Rightarrow> app_error option \<times> app \<times> world"

definition start_loader :: "env \<Rightarrow> stage" where
  "start_loader env = (\<lambda>(a, w).
     let cfg = a_cfg a;
         lcfg = \<lparr>lc_CgroupPath = c_CgroupPath cfg, lc_PinDir = c_PinDir cfg, lc_ProxyUID = ProxyUID, lc_ProxyPort = ProxyPort\<rparr>;
         (res, acts) = Load (e_loader env) lcfg;
         made = (MkdirPinDir (c_PinDir cfg) \<in> set acts \<and> le_mkdir (e_loader env) = None \<and> le_stat (e_loader env) = Some ENOENT);
         w1 = w\<lparr>wd_pinDir := (wd_pinDir w \<or> made)\<rparr> in
     (case res of
        Inl e \<Rightarrow> (Some (LoadFailed e), a, w1)
      | Inr l \<Rightarrow> (None, a\<lparr>a_loader := Some l\<rparr>,
          w1\<lparr>wd_objects := ProxyObjects, wd_pins := [OrigdstByCookie, OrigdstByTuple]\<rparr>)))"

definition start_attach :: "env \<Rightarrow> stage" where
  "start_attach env = (\<lambda>(a, w).
     case a_loader a of
       None \<Rightarrow> (None, a, w)
     | Some l \<Rightarrow>
         (let (err, l', acts) = Attach (e_attach4 env) (e_attachSockops env) (c_CgroupPath (a_cfg a)) l
          in (map_option AttachFailed err, a\<lparr>a_loader := Some l'\<rparr>, w\<lparr>wd_links := ld_links l'\<rparr>)))"

text \<open>
  The resolver and the relay of a run report through callbacks: a miss to a logger limited
  for misses, what becomes of a resolved connection to the run's own. \<open>log_relay\<close> is what they
  log of one action, with the miss logger after it.
\<close>

definition missLogBurst :: int where "missLogBurst = 10"
definition missLogInterval :: duration where "missLogInterval = 60 * ns_second"

definition missLog :: "logger \<Rightarrow> logger" where
  "missLog log = Limited missLogInterval missLogBurst log"

definition newResolver :: resolver where
  "newResolver = NewResolver [WithOnMiss]"

definition newRelay :: relay where
  "newRelay = NewRelay [WithOnRelayed, WithOnDialErr]"

fun log_relay :: "env \<Rightarrow> time \<Rightarrow> relay_action \<Rightarrow> logger \<Rightarrow> leaf list option \<times> logger" where
  "log_relay env now (Resolving (OnMiss src)) ml =
     Warn now ''connection reset: no original destination (fail-closed)'' [(''src'', VString (e_addrText env src))] ml"
| "log_relay env now (Relayed dst) ml =
     (fst (Info now ''connection relayed'' [(''orig_dst'', VString (e_addrText env dst))] (e_logger env)), ml)"
| "log_relay env now (DialErr dst err) ml =
     (fst (Warn now ''upstream dial failed''
        [(''orig_dst'', VString (e_addrText env dst)), (''error'', VString (e_errText env err))] (e_logger env)), ml)"
| "log_relay env now act ml = (None, ml)"

definition start_relay :: "env \<Rightarrow> stage" where
  "start_relay env = (\<lambda>(a, w).
     case e_listen env of
       Some e \<Rightarrow> (Some (RelayListenFailed e), a, w)
     | None \<Rightarrow> (None, a\<lparr>a_ln := True, a_resolver := newResolver\<rparr>, w\<lparr>wd_relay := True\<rparr>))"

definition openCapture :: "env \<Rightarrow> stage" where
  "openCapture env = (\<lambda>(a, w).
     let cfg = a_cfg a in
     case CheckTarget (e_captureDir env) of
       Some e \<Rightarrow> (Some (CaptureTarget e), a, w)
     | None \<Rightarrow>
         (let ret = \<lparr>Template = c_CapturePath cfg, Run = [], MaxBytes = c_MaxBytes cfg, MaxAge = c_MaxAge cfg, Retain = c_Retain cfg\<rparr>;
              a1 = a\<lparr>a_retention := ret\<rparr>;
              fs = snd (Enforce (e_remove env) (e_enforceAt env) ret (e_readDir env (wd_fs w)) (wd_fs w));
              w1 = w\<lparr>wd_fs := fs\<rparr> in
          case RetentionRoom ret (e_readDir env fs) of
            (_, Some e) \<Rightarrow> (Some (RoomFailed e), a1, w1)
          | (left, None) \<Rightarrow>
              (let opts = \<lparr>LinkType = 0, Room = left, OnStop = True\<rparr> in
               if c_MaxBytes cfg > 0 \<and> left < HeaderSize (e_header env) opts
               then (None, a1, w1\<lparr>wd_log := wd_log w1
                       @ [LogCaptureNotStarted (path_dir (c_CapturePath cfg)) (i64 (c_MaxBytes cfg - left)) (c_MaxBytes cfg)]\<rparr>)
               else (case CreateRunCapture (e_create env) (e_header env) (e_now env) (c_CapturePath cfg) opts fs of
                   (Inl e, fs1) \<Rightarrow> (Some (CreateFailed e), a1, w1\<lparr>wd_fs := fs1\<rparr>)
                 | (Inr cw, fs1) \<Rightarrow>
                     (None, a1\<lparr>a_capW := Some cw, a_retention := ret\<lparr>Run := w_path cw\<rparr>\<rparr>,
                      w1\<lparr>wd_fs := fs1, wd_capture := True, wd_log := wd_log w1 @ [LogCaptureStarted (w_path cw)]\<rparr>)))))"

definition startKeylog :: "env \<Rightarrow> stage" where
  "startKeylog env = (\<lambda>(a, w).
     let cfg = \<lparr>SocketPath = c_KeylogSocketPath (a_cfg a), KeylogPath = c_KeylogPath (a_cfg a),
                cfg_Sink = (a_capW a \<noteq> None), cfg_Gate = True\<rparr> in
     (case fst (NewSocketServer (e_server env) cfg (e_logger env)) of
        Inl e \<Rightarrow> (Some (KeylogServerFailed e), a, w)
      | Inr s \<Rightarrow> (None, a\<lparr>a_keylogSrv := Some s\<rparr>,
          w\<lparr>wd_keylog := True, wd_fs := (wd_fs w)(c_KeylogPath (a_cfg a) \<mapsto> Regular 0 (e_now env))\<rparr>)))"

definition start_live :: "env \<Rightarrow> stage" where
  "start_live env = (\<lambda>(a, w).
     case a_capW a of
       None \<Rightarrow> (None, a, w)
     | Some _ \<Rightarrow>
         (case StartLive (e_liveOpen env) (e_liveLength env) (c_CaptureIface (a_cfg a)) of
            (Some e, _) \<Rightarrow> (Some (LiveFailed e), a, w)
          | (None, _) \<Rightarrow> (None, a\<lparr>a_live := True\<rparr>, w\<lparr>wd_live := True\<rparr>)))"

text \<open>The stages after the eBPF objects are loaded: the first that fails takes the run down.\<close>

fun start_stages :: "env \<Rightarrow> stage list \<Rightarrow> app \<times> world \<Rightarrow> (app_error + app) \<times> world" where
  "start_stages env [] (a, w) = (Inr (a\<lparr>a_stopTick := True\<rparr>), w)"
| "start_stages env (st # sts) (a, w) =
     (case st (a, w) of
        (None, a1, w1) \<Rightarrow> start_stages env sts (a1, w1)
      | (Some e, a1, w1) \<Rightarrow> (Inl e, snd (snd (CloseApp env a1 w1))))"

definition new_app :: "config \<Rightarrow> app" where
  "new_app cfg =
     \<lparr>a_cfg = cfg, a_loader = None, a_ln = False, a_resolver = newResolver, a_keylogSrv = None, a_capW = None,
      a_live = False, a_retention = \<lparr>Template = [], Run = [], MaxBytes = 0, MaxAge = 0, Retain = False\<rparr>,
      a_stopTick = False\<rparr>"

definition Start :: "env \<Rightarrow> config \<Rightarrow> world \<Rightarrow> (app_error + app) \<times> world" where
  "Start env cfg w =
     (case checkKeylogTmpfs (e_statfs env) (c_KeylogPath cfg) of
        Some e \<Rightarrow> (Inl (TmpfsFailed e), w)
      | None \<Rightarrow>
          (case deleteKeylog (e_remove env) (c_KeylogPath cfg) (wd_fs w) of
             (Some e, fs) \<Rightarrow> (Inl (LeftoverKeylog e), w\<lparr>wd_fs := fs\<rparr>)
           | (None, fs) \<Rightarrow>
               (case start_loader env (new_app cfg, w\<lparr>wd_fs := fs\<rparr>) of
                  (Some e, _, w1) \<Rightarrow> (Inl e, w1)
                | (None, a, w1) \<Rightarrow>
                    start_stages env
                      [start_attach env, start_relay env, openCapture env, startKeylog env, start_live env] (a, w1))))"

end
