(* ===== verification/Config.thy ===== *)
theory Config
  imports Complex_Main App
begin

text \<open>
  \<^verbatim>\<open>cmd/app/config.go\<close>: how the sidecar's configuration is put together from its defaults, a
  file, the environment and the command line. The command line is parsed as the standard
  library's \<^verbatim>\<open>flag\<close> package does. The packages that read files and merge the sources
  (\<^verbatim>\<open>koanf\<close>) and decode the result (\<^verbatim>\<open>mapstructure\<close>) are the argument \<open>K\<close>, a record of the
  calls the code makes; what is relied on of them is stated where it is.
\<close>

section \<open>Values and types\<close>

text \<open>A \<^verbatim>\<open>float64\<close>: a rational, an infinity, or not a number.\<close>

datatype gofloat = Fin rat | PosInf | NegInf | NotANumber

text \<open>
  A value of a configuration source, by its dynamic type, as the decode hooks see it; the
  integers of \<open>CInt\<close> are those of an \<^verbatim>\<open>int64\<close>, of \<open>CUint\<close> those of a \<^verbatim>\<open>uint64\<close>.
\<close>

datatype cval =
    CString string
  | CBool bool
  | CInt int
  | CUint int
  | CFloat gofloat
  | CDuration duration
  | CLevel int
  | CLevelPtr int
  | COther nat

text \<open>The types of the fields of \<^verbatim>\<open>Config\<close>.\<close>

datatype ctype = TString | TBool | TInt64 | TDuration | TLevel

datatype hook_error = NoUnit cval | NotWhole cval | OutsideRange cval | NotAName cval | LibraryError nat

type_synonym hook = "ctype \<Rightarrow> cval \<Rightarrow> hook_error + cval"

section \<open>The decode hooks\<close>

definition go_trunc :: "rat \<Rightarrow> int" where
  "go_trunc q = (if 0 \<le> q then \<lfloor>q\<rfloor> else \<lceil>q\<rceil>)"

definition isInt64 :: "gofloat \<Rightarrow> bool" where
  "isInt64 f = (case f of Fin q \<Rightarrow> q = of_int (go_trunc q) \<and> - (2 ^ 63) \<le> q \<and> q < 2 ^ 63 | _ \<Rightarrow> False)"

definition is_float :: "cval \<Rightarrow> bool" where
  "is_float v = (case v of CFloat _ \<Rightarrow> True | _ \<Rightarrow> False)"

definition is_number :: "cval \<Rightarrow> bool" where
  "is_number v = (case v of CFloat _ \<Rightarrow> True | CInt _ \<Rightarrow> True | CUint _ \<Rightarrow> True | CLevel _ \<Rightarrow> True | _ \<Rightarrow> False)"

definition is_zero :: "cval \<Rightarrow> bool" where
  "is_zero v = (case v of CFloat f \<Rightarrow> f = Fin 0 | CInt i \<Rightarrow> i = 0 | CUint i \<Rightarrow> i = 0 | CLevel i \<Rightarrow> i = 0 | _ \<Rightarrow> False)"

text \<open>Both \<^verbatim>\<open>int64\<close> and \<^verbatim>\<open>time.Duration\<close> are of kind \<^verbatim>\<open>Int64\<close>; \<^verbatim>\<open>slog.Level\<close> is not.\<close>

definition kind_int64 :: "ctype \<Rightarrow> bool" where
  "kind_int64 t \<longleftrightarrow> t = TInt64 \<or> t = TDuration"

definition strictNumbers :: hook where
  "strictNumbers to v =
     (case v of
        CDuration _ \<Rightarrow> Inr v
      | _ \<Rightarrow>
          if to = TDuration \<and> is_number v \<and> \<not> is_zero v then Inl (NoUnit v)
          else if kind_int64 to \<and> is_float v \<and> \<not> (case v of CFloat f \<Rightarrow> isInt64 f | _ \<Rightarrow> False) then Inl (NotWhole v)
          else if kind_int64 to \<and> (case v of CUint n \<Rightarrow> max_i64 < n | _ \<Rightarrow> False) then Inl (OutsideRange v)
          else Inr v)"

definition levelByName :: hook where
  "levelByName to v =
     (if to = TLevel \<and> (case v of CLevel _ \<Rightarrow> False | CLevelPtr _ \<Rightarrow> False | _ \<Rightarrow> True) then Inl (NotAName v) else Inr v)"

section \<open>Names\<close>

definition envPrefix :: string where "envPrefix = ''GOEBPF_SIDECAR_''"
definition configFlag :: string where "configFlag = ''config''"

text \<open>\<^verbatim>\<open>strings.ToLower\<close>: by bytes on ASCII, and \<open>uni\<close>, the Unicode mapping, on anything else.\<close>

definition ToLower :: "(string \<Rightarrow> string) \<Rightarrow> string \<Rightarrow> string" where
  "ToLower uni s = (if ascii s then map to_lower s else uni s)"

definition replace_char :: "char \<Rightarrow> char \<Rightarrow> string \<Rightarrow> string" where
  "replace_char a b s = map (\<lambda>c. if c = a then b else c) s"

definition envKey :: "(string \<Rightarrow> string) \<Rightarrow> string \<Rightarrow> string \<Rightarrow> string \<times> string" where
  "envKey uni name val = (replace_char CHR ''_'' CHR ''-'' (ToLower uni (trim_prefix name envPrefix)), val)"

definition skipConfigFlag :: "string \<Rightarrow> string \<Rightarrow> string \<times> string option" where
  "skipConfigFlag key val = (if key = configFlag then ([], None) else (key, Some val))"

datatype parser = YamlParser | TomlParser | JsonParser

definition parserFor :: "(string \<Rightarrow> string) \<Rightarrow> string \<Rightarrow> parser option" where
  "parserFor uni path =
     (let ext = ToLower uni (path_ext path) in
      if ext = ''.yaml'' \<or> ext = ''.yml'' then Some YamlParser
      else if ext = ''.toml'' then Some TomlParser
      else if ext = ''.json'' then Some JsonParser
      else None)"

section \<open>The command line\<close>

datatype fval = FString string | FBool bool | FInt64 int | FDuration duration | FLevel int

text \<open>The flags \<^verbatim>\<open>loadConfig\<close> registers, with their defaults.\<close>

definition sidecar_flags :: "(string \<times> fval) list" where
  "sidecar_flags =
     (let d = DefaultConfig in
      [(''cgroup-path'', FString (c_CgroupPath d)),
       (''relay-listen'', FString (c_RelayListen d)),
       (''pin-dir'', FString (c_PinDir d)),
       (''keylog-socket'', FString (c_KeylogSocketPath d)),
       (''keylog-path'', FString (c_KeylogPath d)),
       (''capture-iface'', FString (c_CaptureIface d)),
       (''capture-path'', FString (c_CapturePath d)),
       (''retain'', FBool (c_Retain d)),
       (''max-bytes'', FInt64 (c_MaxBytes d)),
       (''max-age'', FDuration (c_MaxAge d)),
       (''retention-interval'', FDuration (c_RetentionTick d)),
       (''stats-interval'', FDuration (c_StatsInterval d)),
       (''log-level'', FLevel (c_LogLevel d)),
       (configFlag, FString [])])"

text \<open>
  The standard library's readers and printers of a flag's value: integers, durations and
  levels, and what \<^verbatim>\<open>Value.String\<close> gives.
\<close>

record flag_text =
  ft_int64 :: "string \<Rightarrow> int option"
  ft_duration :: "string \<Rightarrow> duration option"
  ft_level :: "string \<Rightarrow> int option"
  ft_string :: "fval \<Rightarrow> string"

definition parse_bool :: "string \<Rightarrow> bool option" where
  "parse_bool s =
     (if s \<in> {''1'', ''t'', ''T'', ''TRUE'', ''true'', ''True''} then Some True
      else if s \<in> {''0'', ''f'', ''F'', ''FALSE'', ''false'', ''False''} then Some False
      else None)"

fun set_value :: "flag_text \<Rightarrow> fval \<Rightarrow> string \<Rightarrow> fval option" where
  "set_value ft (FString _) s = Some (FString s)"
| "set_value ft (FBool _) s = map_option FBool (parse_bool s)"
| "set_value ft (FInt64 _) s = map_option FInt64 (ft_int64 ft s)"
| "set_value ft (FDuration _) s = map_option FDuration (ft_duration ft s)"
| "set_value ft (FLevel _) s = map_option FLevel (ft_level ft s)"

datatype flag_error = BadSyntax string | ErrHelp | NotDefined string | NeedsArgument string | InvalidValue string string

text \<open>A flag's name and value at the first equals sign past its first byte.\<close>

definition split_flag :: "string \<Rightarrow> string \<times> string option" where
  "split_flag s =
     (case s of
        [] \<Rightarrow> ([], None)
      | c # cs \<Rightarrow>
          (case dropWhile (\<lambda>x. x \<noteq> CHR ''='') cs of
             [] \<Rightarrow> (s, None)
           | _ # v \<Rightarrow> (c # takeWhile (\<lambda>x. x \<noteq> CHR ''='') cs, Some v)))"

text \<open>\<open>strip_minus arg\<close>: the flag an argument names, \<open>None\<close> when it ends the flags.\<close>

definition strip_minus :: "string \<Rightarrow> string option" where
  "strip_minus s =
     (case s of
        x # y # rest \<Rightarrow> if x \<noteq> CHR ''-'' then None else if y \<noteq> CHR ''-'' then Some (y # rest)
                        else if rest = [] then None else Some rest
      | _ \<Rightarrow> None)"

text \<open>\<^verbatim>\<open>FlagSet.Parse\<close>: the flags set, the last of each, or the first error.\<close>

fun parse_flags :: "flag_text \<Rightarrow> (string \<times> fval) list \<Rightarrow> string list \<Rightarrow> (string \<rightharpoonup> fval) \<Rightarrow> flag_error + (string \<rightharpoonup> fval)" where
  "parse_flags ft flags [] m = Inr m"
| "parse_flags ft flags (s # rest) m =
     (case strip_minus s of
        None \<Rightarrow> Inr m
      | Some f \<Rightarrow>
          if hd f = CHR ''-'' \<or> hd f = CHR ''='' then Inl (BadSyntax s)
          else
            (case split_flag f of (name, given) \<Rightarrow>
             (case map_of flags name of
                None \<Rightarrow> Inl (if name = ''help'' \<or> name = ''h'' then ErrHelp else NotDefined name)
              | Some d \<Rightarrow>
                  (case (d, given, rest) of
                     (FBool _, None, _) \<Rightarrow> parse_flags ft flags rest (m(name \<mapsto> FBool True))
                   | (_, Some v, _) \<Rightarrow>
                       (case set_value ft d v of
                          None \<Rightarrow> Inl (InvalidValue name v)
                        | Some x \<Rightarrow> parse_flags ft flags rest (m(name \<mapsto> x)))
                   | (_, None, v # rest') \<Rightarrow>
                       (case set_value ft d v of
                          None \<Rightarrow> Inl (InvalidValue name v)
                        | Some x \<Rightarrow> parse_flags ft flags rest' (m(name \<mapsto> x)))
                   | (_, None, []) \<Rightarrow> Inl (NeedsArgument name)))))"

section \<open>Putting it together\<close>

text \<open>
  The calls on \<^verbatim>\<open>koanf\<close>, on an instance of type \<open>'k\<close>, and the decode hooks of
  \<^verbatim>\<open>mapstructure\<close>. A flag is handed over with its text and whether it was set; \<open>k_get\<close> is
  \<open>None\<close> for nil.
\<close>

record 'k koanf =
  k_new :: 'k
  k_load_file :: "string \<Rightarrow> parser \<Rightarrow> 'k \<Rightarrow> nat + 'k"
  k_load_env :: "string \<Rightarrow> (string \<Rightarrow> string \<Rightarrow> string \<times> string) \<Rightarrow> string list \<Rightarrow> 'k \<Rightarrow> nat + 'k"
  k_load_flags :: "(string \<times> string \<times> bool) list \<Rightarrow> (string \<Rightarrow> string \<Rightarrow> string \<times> string option) \<Rightarrow> 'k \<Rightarrow> nat + 'k"
  k_keys :: "'k \<Rightarrow> string list"
  k_get :: "'k \<Rightarrow> string \<Rightarrow> cval option"
  k_unmarshal :: "hook list \<Rightarrow> 'k \<Rightarrow> nat + config"
  ms_duration :: hook
  ms_int64 :: hook
  ms_bool :: hook
  ms_text :: hook

datatype config_error =
    FlagError flag_error
  | UnsupportedExtension string string
  | FileError string nat
  | EnvError nat
  | FlagsError nat
  | NoValue string
  | DecodeError nat

definition load_file :: "'k koanf \<Rightarrow> (string \<Rightarrow> string) \<Rightarrow> string \<Rightarrow> 'k \<Rightarrow> config_error + 'k" where
  "load_file K uni path k =
     (if path = [] then Inr k
      else case parserFor uni path of
        None \<Rightarrow> Inl (UnsupportedExtension path (path_ext path))
      | Some p \<Rightarrow> (case k_load_file K path p k of Inl e \<Rightarrow> Inl (FileError path e) | Inr k' \<Rightarrow> Inr k'))"

text \<open>Every registered flag, as the flag provider visits it.\<close>

definition visit_flags :: "flag_text \<Rightarrow> (string \<rightharpoonup> fval) \<Rightarrow> (string \<times> string \<times> bool) list" where
  "visit_flags ft m =
     map (\<lambda>(name, d). (name, ft_string ft (case m name of Some v \<Rightarrow> v | None \<Rightarrow> d), m name \<noteq> None)) sidecar_flags"

definition config_path :: "(string \<rightharpoonup> fval) \<Rightarrow> string" where
  "config_path m = (case m configFlag of Some (FString p) \<Rightarrow> p | _ \<Rightarrow> [])"

text \<open>The sources merged, lowest precedence first.\<close>

definition merge_sources :: "'k koanf \<Rightarrow> flag_text \<Rightarrow> (string \<Rightarrow> string) \<Rightarrow> (string \<rightharpoonup> fval) \<Rightarrow> string list \<Rightarrow> config_error + 'k" where
  "merge_sources K ft uni m environ =
     (case load_file K uni (config_path m) (k_new K) of
        Inl e \<Rightarrow> Inl e
      | Inr k1 \<Rightarrow>
          (case k_load_env K envPrefix (envKey uni) environ k1 of
             Inl e \<Rightarrow> Inl (EnvError e)
           | Inr k2 \<Rightarrow>
               (case k_load_flags K (visit_flags ft m) skipConfigFlag k2 of
                  Inl e \<Rightarrow> Inl (FlagsError e)
                | Inr k3 \<Rightarrow> Inr k3)))"

definition decode_hooks :: "'k koanf \<Rightarrow> hook list" where
  "decode_hooks K = [ms_duration K, ms_int64 K, ms_bool K, ms_text K, strictNumbers, levelByName]"

definition loadConfig :: "'k koanf \<Rightarrow> flag_text \<Rightarrow> (string \<Rightarrow> string) \<Rightarrow> string list \<Rightarrow> string list \<Rightarrow> config_error + config" where
  "loadConfig K ft uni args environ =
     (case parse_flags ft sidecar_flags args Map.empty of
        Inl e \<Rightarrow> Inl (FlagError e)
      | Inr m \<Rightarrow>
          (case merge_sources K ft uni m environ of
             Inl e \<Rightarrow> Inl e
           | Inr k \<Rightarrow>
               (case find (\<lambda>key. k_get K k key = None) (k_keys K k) of
                  Some key \<Rightarrow> Inl (NoValue key)
                | None \<Rightarrow>
                    (case k_unmarshal K (decode_hooks K) k of
                       Inl e \<Rightarrow> Inl (DecodeError e)
                     | Inr cfg \<Rightarrow> Inr cfg))))"

section \<open>Numbers keep their value\<close>

text \<open>What a number means, and what decoding it into an \<^verbatim>\<open>int64\<close> makes of it.\<close>

definition num_value :: "cval \<Rightarrow> gofloat option" where
  "num_value v = (case v of CInt i \<Rightarrow> Some (Fin (of_int i)) | CUint i \<Rightarrow> Some (Fin (of_int i)) | CLevel i \<Rightarrow> Some (Fin (of_int i))
     | CFloat f \<Rightarrow> Some f | _ \<Rightarrow> None)"

definition as_int64 :: "cval \<Rightarrow> int" where
  "as_int64 v = (case v of CFloat (Fin q) \<Rightarrow> i64 (go_trunc q) | CInt i \<Rightarrow> i64 i | CUint i \<Rightarrow> i64 i | CLevel i \<Rightarrow> i64 i | _ \<Rightarrow> 0)"

text \<open>The values the dynamic types can hold.\<close>

definition cval_ok :: "cval \<Rightarrow> bool" where
  "cval_ok v = (case v of CInt i \<Rightarrow> min_i64 \<le> i \<and> i \<le> max_i64 | CLevel i \<Rightarrow> min_i64 \<le> i \<and> i \<le> max_i64
     | CUint i \<Rightarrow> 0 \<le> i \<and> i < 2 ^ 64 | _ \<Rightarrow> True)"

lemma isInt64_iff: "isInt64 f \<longleftrightarrow> (\<exists>i. f = Fin (of_int i) \<and> min_i64 \<le> i \<and> i \<le> max_i64)"
proof (cases f)
  case (Fin q)
  have "q = of_int (go_trunc q) \<and> - (2 ^ 63) \<le> q \<and> q < 2 ^ 63 \<longleftrightarrow> (\<exists>i. q = of_int i \<and> min_i64 \<le> i \<and> i \<le> max_i64)" (is "?l \<longleftrightarrow> ?r")
  proof
    assume ?l
    then have "- (2 ^ 63) \<le> (of_int (go_trunc q) :: rat)" "(of_int (go_trunc q) :: rat) < 2 ^ 63" by auto
    then have "- (2 ^ 63) \<le> go_trunc q \<and> go_trunc q < 2 ^ 63" by simp
    with \<open>?l\<close> show ?r by (intro exI [of _ "go_trunc q"]) auto
  next
    assume ?r
    then obtain i where i: "q = of_int i" "min_i64 \<le> i" "i \<le> max_i64" by blast
    then have "go_trunc q = i" by (simp add: go_trunc_def)
    moreover have "- (2 ^ 63) \<le> (of_int i :: rat)" "(of_int i :: rat) < 2 ^ 63" using i(2,3) by simp_all
    ultimately show ?l using i(1) by simp
  qed
  then show ?thesis using Fin by (simp add: isInt64_def)
qed (simp_all add: isInt64_def)

section \<open>Where a setting comes from\<close>

text \<open>The variable that names a setting in the environment.\<close>

definition env_name :: "string \<Rightarrow> string" where
  "env_name name = envPrefix @ map to_upper (replace_char CHR ''-'' CHR ''_'' name)"

lemma setting_names:
  "map fst sidecar_flags =
    [''cgroup-path'', ''relay-listen'', ''pin-dir'', ''keylog-socket'', ''keylog-path'', ''capture-iface'', ''capture-path'',
     ''retain'', ''max-bytes'', ''max-age'', ''retention-interval'', ''stats-interval'', ''log-level'', ''config'']"
  by (simp add: sidecar_flags_def Let_def configFlag_def)

definition name_ok :: "string \<Rightarrow> bool" where
  "name_ok name \<longleftrightarrow> name \<noteq> [] \<and> dot \<notin> set name \<and> ascii (map to_upper (replace_char CHR ''-'' CHR ''_'' name))
     \<and> replace_char CHR ''_'' CHR ''-'' (map to_lower (map to_upper (replace_char CHR ''-'' CHR ''_'' name))) = name"

lemma setting_names_ok: "list_all name_ok (map fst sidecar_flags)"
  unfolding setting_names by code_simp

lemma setting_ok: "(name, d) \<in> set sidecar_flags \<Longrightarrow> name_ok name"
  using setting_names_ok by (force simp: list_all_iff)

lemma distinct_settings: "distinct (map fst sidecar_flags)"
  unfolding setting_names by simp

lemma envKey_env_name: "name_ok name \<Longrightarrow> envKey uni (env_name name) v = (name, v)"
  by (simp add: envKey_def env_name_def name_ok_def ToLower_def)

text \<open>
  What is relied on of \<^verbatim>\<open>koanf\<close>, as it documents it, for keys without its delimiter. The
  environment provider reads the variables with the prefix, under the key and value the
  transformation gives, and what it reads replaces what was there. The flag provider drops a
  flag whose callback gives no key; a flag that was set replaces what was there, and any
  other only fills a key that was not.
\<close>

definition env_pairs :: "string \<Rightarrow> (string \<Rightarrow> string \<Rightarrow> string \<times> string) \<Rightarrow> string list \<Rightarrow> (string \<times> string) list" where
  "env_pairs pre tr environ =
     filter (\<lambda>kv. fst kv \<noteq> [])
       (map (\<lambda>s. tr (takeWhile (\<lambda>c. c \<noteq> CHR ''='') s) (tl (dropWhile (\<lambda>c. c \<noteq> CHR ''='') s))) (filter (prefix pre) environ))"

definition env_value :: "string \<Rightarrow> (string \<Rightarrow> string \<Rightarrow> string \<times> string) \<Rightarrow> string list \<Rightarrow> string \<Rightarrow> string option" where
  "env_value pre tr environ = map_of (rev (env_pairs pre tr environ))"

definition flat :: "'k koanf \<Rightarrow> 'k \<Rightarrow> bool" where
  "flat K k \<longleftrightarrow> (\<forall>key \<in> set (k_keys K k). dot \<notin> set key)"

definition undotted :: "(string \<times> 'v) list \<Rightarrow> bool" where
  "undotted kvs \<longleftrightarrow> (\<forall>kv \<in> set kvs. dot \<notin> set (fst kv))"

definition env_law :: "'k koanf \<Rightarrow> bool" where
  "env_law K \<longleftrightarrow>
     (\<forall>pre tr environ k k'. flat K k \<and> undotted (env_pairs pre tr environ) \<and> k_load_env K pre tr environ k = Inr k' \<longrightarrow>
        flat K k' \<and>
        (\<forall>key. (key \<in> set (k_keys K k') \<longleftrightarrow> key \<in> set (k_keys K k) \<or> env_value pre tr environ key \<noteq> None) \<and>
           k_get K k' key = (case env_value pre tr environ key of Some v \<Rightarrow> Some (CString v) | None \<Rightarrow> k_get K k key)))"

definition flag_law :: "'k koanf \<Rightarrow> bool" where
  "flag_law K \<longleftrightarrow>
     (\<forall>flags cb k k'. flat K k \<and> distinct (map fst flags) \<and> k_load_flags K flags cb k = Inr k' \<longrightarrow>
        (\<forall>name str given v. (name, str, given) \<in> set flags \<and> cb name str = (name, Some v) \<and> name \<noteq> [] \<and> dot \<notin> set name
            \<and> (\<forall>f \<in> set flags. fst (cb (fst f) (fst (snd f))) = name \<longrightarrow> fst f = name) \<longrightarrow>
           k_get K k' name = (if given \<or> name \<notin> set (k_keys K k) then Some (CString v) else k_get K k name)))"

lemma merged_setting:
  assumes "env_law K" "flag_law K" "flat K k1" "undotted (env_pairs envPrefix (envKey uni) environ)"
    "load_file K uni (config_path m) (k_new K) = Inr k1" "merge_sources K ft uni m environ = Inr k"
    "(name, d) \<in> set sidecar_flags" "name \<noteq> configFlag"
  shows "k_get K k name =
    (case m name of
       Some v \<Rightarrow> Some (CString (ft_string ft v))
     | None \<Rightarrow>
         (case env_value envPrefix (envKey uni) environ name of
            Some s \<Rightarrow> Some (CString s)
          | None \<Rightarrow> if name \<in> set (k_keys K k1) then k_get K k1 name else Some (CString (ft_string ft d))))"
proof -
  obtain k2 where k2: "k_load_env K envPrefix (envKey uni) environ k1 = Inr k2"
      "k_load_flags K (visit_flags ft m) skipConfigFlag k2 = Inr k"
    using assms(5,6) by (auto simp: merge_sources_def split: sum.splits)
  have env: "flat K k2" "name \<in> set (k_keys K k2) \<longleftrightarrow> name \<in> set (k_keys K k1) \<or> env_value envPrefix (envKey uni) environ name \<noteq> None"
      "k_get K k2 name = (case env_value envPrefix (envKey uni) environ name of Some v \<Rightarrow> Some (CString v) | None \<Rightarrow> k_get K k1 name)"
    using assms(1,3,4) k2(1) unfolding env_law_def by blast+
  define str where "str = ft_string ft (case m name of Some v \<Rightarrow> v | None \<Rightarrow> d)"
  have mem: "(name, str, m name \<noteq> None) \<in> set (visit_flags ft m)"
    using assms(7) by (force simp: visit_flags_def str_def)
  have names: "map fst (visit_flags ft m) = map fst sidecar_flags"
    by (auto simp: visit_flags_def)
  then have dist: "distinct (map fst (visit_flags ft m))" using distinct_settings by simp
  have ok: "name \<noteq> []" "dot \<notin> set name" using setting_ok [OF assms(7)] by (simp_all add: name_ok_def)
  have cb: "skipConfigFlag name str = (name, Some str)" using assms(8) by (simp add: skipConfigFlag_def)
  have own: "\<forall>f \<in> set (visit_flags ft m). fst (skipConfigFlag (fst f) (fst (snd f))) = name \<longrightarrow> fst f = name"
    using ok by (auto simp: skipConfigFlag_def)
  have "k_get K k name = (if m name \<noteq> None \<or> name \<notin> set (k_keys K k2) then Some (CString str) else k_get K k2 name)"
    using assms(2) env(1) dist k2(2) mem cb ok own unfolding flag_law_def by blast
  then show ?thesis using env(2,3) by (auto simp: str_def split: option.splits)
qed

text \<open>Lists of pairs, the first of a key counting, keep these laws.\<close>

definition list_koanf :: "(string \<times> cval option) list \<Rightarrow> config \<Rightarrow> (string \<times> cval option) list koanf" where
  "list_koanf content cfg =
     \<lparr>k_new = [], k_load_file = (\<lambda>_ _ _. Inr content),
      k_load_env = (\<lambda>pre tr environ k. Inr (map (\<lambda>kv. (fst kv, Some (CString (snd kv)))) (rev (env_pairs pre tr environ)) @ k)),
      k_load_flags = (\<lambda>flags cb k. Inr (concat (map (\<lambda>(name, str, given).
          case cb name str of
            (key, Some v) \<Rightarrow> if key \<noteq> [] \<and> (given \<or> key \<notin> fst ` set k) then [(key, Some (CString v))] else []
          | (_, None) \<Rightarrow> []) flags) @ k)),
      k_keys = map fst, k_get = (\<lambda>k key. case map_of k key of Some v \<Rightarrow> v | None \<Rightarrow> None),
      k_unmarshal = (\<lambda>_ _. Inr cfg),
      ms_duration = (\<lambda>_ v. Inr v), ms_int64 = (\<lambda>_ v. Inr v), ms_bool = (\<lambda>_ v. Inr v), ms_text = (\<lambda>_ v. Inr v)\<rparr>"

lemma list_koanf_env: "env_law (list_koanf content cfg)"
  unfolding env_law_def
proof (intro allI impI, elim conjE)
  fix pre tr environ k k'
  assume k: "flat (list_koanf content cfg) k" "undotted (env_pairs pre tr environ)"
    "k_load_env (list_koanf content cfg) pre tr environ k = Inr k'"
  define f where "f = (\<lambda>kv :: string \<times> string. (fst kv, Some (CString (snd kv))))"
  have k': "k' = map f (rev (env_pairs pre tr environ)) @ k"
    using k(3) by (simp add: list_koanf_def f_def)
  have m: "map_of (map f xs) key = map_option (\<lambda>v. Some (CString v)) (map_of xs key)" for xs key
    by (induction xs) (auto simp: f_def)
  have keys: "fst ` set k' = fst ` set (env_pairs pre tr environ) \<union> fst ` set k"
    by (force simp: k' f_def)
  have d: "key \<in> fst ` set (env_pairs pre tr environ) \<longleftrightarrow> env_value pre tr environ key \<noteq> None" for key
    by (simp add: env_value_def map_of_eq_None_iff)
  have "flat (list_koanf content cfg) k'"
    using k(1,2) keys by (force simp: flat_def undotted_def list_koanf_def)
  moreover have "k_get (list_koanf content cfg) k' key =
      (case env_value pre tr environ key of Some v \<Rightarrow> Some (CString v) | None \<Rightarrow> k_get (list_koanf content cfg) k key)" for key
    unfolding k' by (simp add: list_koanf_def map_add_def m env_value_def split: option.split)
  moreover have "key \<in> set (k_keys (list_koanf content cfg) k') \<longleftrightarrow>
      key \<in> set (k_keys (list_koanf content cfg) k) \<or> env_value pre tr environ key \<noteq> None" for key
    using keys d [of key] by (auto simp: list_koanf_def)
  ultimately show "flat (list_koanf content cfg) k' \<and>
      (\<forall>key. (key \<in> set (k_keys (list_koanf content cfg) k') \<longleftrightarrow>
           key \<in> set (k_keys (list_koanf content cfg) k) \<or> env_value pre tr environ key \<noteq> None) \<and>
         k_get (list_koanf content cfg) k' key =
           (case env_value pre tr environ key of Some v \<Rightarrow> Some (CString v) | None \<Rightarrow> k_get (list_koanf content cfg) k key))"
    by blast
qed

lemma map_of_unique: "(k, v) \<in> set xs \<Longrightarrow> \<forall>w. (k, w) \<in> set xs \<longrightarrow> w = v \<Longrightarrow> map_of xs k = Some v"
  by (metis map_of_SomeD map_of_eq_None_iff not_None_eq fst_conv image_eqI)

lemma list_koanf_flags: "flag_law (list_koanf content cfg)"
  unfolding flag_law_def
proof (intro allI impI, elim conjE)
  fix flags cb k k' name str given v
  assume fl: "distinct (map fst flags)" "k_load_flags (list_koanf content cfg) flags cb k = Inr k'"
    "(name, str, given) \<in> set flags" "cb name str = (name, Some v)" "name \<noteq> []"
    "\<forall>f \<in> set flags. fst (cb (fst f) (fst (snd f))) = name \<longrightarrow> fst f = name"
  define f where "f = (\<lambda>(n, s, g). case cb n s of
      (key, Some v) \<Rightarrow> if key \<noteq> [] \<and> (g \<or> key \<notin> fst ` set k) then [(key, Some (CString v))] else []
    | (_, None) \<Rightarrow> [])"
  have k': "k' = concat (map f flags) @ k" using fl(2) by (simp add: list_koanf_def f_def)
  have only: "w = Some (CString v) \<and> (given \<or> name \<notin> fst ` set k)" if w: "(name, w) \<in> set (concat (map f flags))" for w
  proof -
    obtain n s g where n: "(n, s, g) \<in> set flags" "(name, w) \<in> set (f (n, s, g))" using w by auto
    then have "fst (cb n s) = name" by (cases "cb n s") (auto simp: f_def split: option.splits if_splits)
    then have "n = name" using fl(6) n(1) by force
    with n(1) fl(1,3) have "(n, s, g) = (name, str, given)" by (metis eq_key_imp_eq_value)
    with n(2) fl(4) show ?thesis by (auto simp: f_def split: if_splits)
  qed
  have "map_of (concat (map f flags)) name = (if given \<or> name \<notin> fst ` set k then Some (Some (CString v)) else None)"
  proof (cases "given \<or> name \<notin> fst ` set k")
    case True
    have "(name, Some (CString v)) \<in> set (concat (map f flags))"
      using fl(3,4,5) True by (force simp: f_def)
    then have "map_of (concat (map f flags)) name = Some (Some (CString v))" by (rule map_of_unique) (use only in blast)
    with True show ?thesis by simp
  next
    case False
    then have "name \<notin> fst ` set (concat (map f flags))" using only by (metis imageE prod.collapse)
    then show ?thesis using False by (simp add: map_of_eq_None_iff)
  qed
  then show "k_get (list_koanf content cfg) k' name = (if given \<or> name \<notin> set (k_keys (list_koanf content cfg) k)
      then Some (CString v) else k_get (list_koanf content cfg) k name)"
    by (cases "given \<or> name \<notin> fst ` set k") (simp_all add: list_koanf_def k' map_add_def)
qed

section \<open>Properties\<close>

text \<open>
  C18: every setting comes from the source that takes precedence. Once the sources are merged, a
  setting has the value of its flag if that was set, or else that of its environment
  variable, or else that of the file, or else its default; the variable \<open>env_name\<close> names is
  the setting's; and a configuration is only ever made from settings that have a value.
\<close>

theorem config_precedence:
  assumes "env_law K" "flag_law K" "flat K k1" "undotted (env_pairs envPrefix (envKey uni) environ)"
    "parse_flags ft sidecar_flags args Map.empty = Inr m"
    "load_file K uni (config_path m) (k_new K) = Inr k1" "merge_sources K ft uni m environ = Inr k"
    "(name, d) \<in> set sidecar_flags" "name \<noteq> configFlag"
  shows "k_get K k name =
      (case m name of
         Some v \<Rightarrow> Some (CString (ft_string ft v))
       | None \<Rightarrow>
           (case env_value envPrefix (envKey uni) environ name of
              Some s \<Rightarrow> Some (CString s)
            | None \<Rightarrow> if name \<in> set (k_keys K k1) then k_get K k1 name else Some (CString (ft_string ft d))))
    \<and> envKey uni (env_name name) x = (name, x)
    \<and> (loadConfig K ft uni args environ = Inr cfg \<longrightarrow> (\<forall>key \<in> set (k_keys K k). k_get K k key \<noteq> None))"
  using merged_setting [OF assms(1-4,6-9)] envKey_env_name [OF setting_ok [OF assms(8)]] assms(5,7)
  by (auto simp: loadConfig_def find_None_iff split: option.splits sum.splits)

definition sample_text :: flag_text where
  "sample_text = \<lparr>ft_int64 = (\<lambda>_. None), ft_duration = (\<lambda>_. None), ft_level = (\<lambda>_. None), ft_string = (\<lambda>_. ''default'')\<rparr>"

lemma config_precedence_witness:
  "\<exists>k. merge_sources (list_koanf [] DefaultConfig) sample_text id Map.empty [''GOEBPF_SIDECAR_MAX_AGE=1h''] = Inr k
     \<and> k_get (list_koanf [] DefaultConfig) k ''max-age'' = Some (CString ''1h'')"
proof -
  let ?K = "list_koanf [] DefaultConfig" and ?env = "[''GOEBPF_SIDECAR_MAX_AGE=1h'']"
  obtain k where k: "merge_sources ?K sample_text id Map.empty ?env = Inr k"
    by (simp add: merge_sources_def load_file_def config_path_def list_koanf_def)
  have pairs: "env_pairs envPrefix (envKey id) ?env = [(''max-age'', ''1h'')]" by code_simp
  have f: "load_file ?K id (config_path Map.empty) (k_new ?K) = Inr []"
    by (simp add: load_file_def config_path_def list_koanf_def)
  have mem: "(''max-age'', FDuration (c_MaxAge DefaultConfig)) \<in> set sidecar_flags" by (simp add: sidecar_flags_def Let_def)
  have "k_get ?K k ''max-age'' = Some (CString ''1h'')"
    using conjunct1 [OF config_precedence [OF list_koanf_env list_koanf_flags _ _ _ f k mem, of "[]"]] pairs
    by (simp add: flat_def undotted_def list_koanf_def configFlag_def env_value_def)
  with k show ?thesis by blast
qed

text \<open>
  C19: no number changes its value silently. For an \<^verbatim>\<open>int64\<close> setting, a number is accepted exactly
  when decoding it gives the number that was written: no fraction is cut off and nothing
  wraps around. For a duration, the only bare number accepted is zero. A hook that accepts a
  value changes nothing about it, and a log level is never taken from anything but a level.
\<close>

theorem numbers_keep_their_value:
  assumes "cval_ok v"
  shows "(strictNumbers TInt64 v = Inr v \<longleftrightarrow> (\<forall>f. num_value v = Some f \<longrightarrow> f = Fin (of_int (as_int64 v))))
    \<and> (is_number v \<longrightarrow> (strictNumbers TDuration v = Inr v \<longleftrightarrow> num_value v = Some (Fin 0)))
    \<and> (strictNumbers t v = Inr v' \<longrightarrow> v' = v)
    \<and> (levelByName TLevel v = Inr v \<longleftrightarrow> (\<exists>l. v = CLevel l \<or> v = CLevelPtr l))"
proof -
  have float: "isInt64 f \<longleftrightarrow> f = Fin (of_int (as_int64 (CFloat f)))" for f
  proof
    assume "isInt64 f"
    then obtain i where i: "f = Fin (of_int i)" "min_i64 \<le> i" "i \<le> max_i64" using isInt64_iff by blast
    then show "f = Fin (of_int (as_int64 (CFloat f)))" by (simp add: as_int64_def go_trunc_def i64_id)
  next
    assume f: "f = Fin (of_int (as_int64 (CFloat f)))"
    have "min_i64 \<le> as_int64 (CFloat f) \<and> as_int64 (CFloat f) \<le> max_i64"
      by (cases f) (use i64_range in \<open>simp_all add: as_int64_def\<close>)
    with f show "isInt64 f" using isInt64_iff by blast
  qed
  have uint: "n \<le> max_i64 \<longleftrightarrow> (of_int n :: rat) = of_int (i64 n)" if "0 \<le> n" for n
    using i64_id [of n] i64_range [of n] that by (auto simp: not_le)
  have "strictNumbers TInt64 v = Inr v \<longleftrightarrow> (\<forall>f. num_value v = Some f \<longrightarrow> f = Fin (of_int (as_int64 v)))"
  proof (cases v)
    case (CUint n)
    then have "strictNumbers TInt64 v = Inr v \<longleftrightarrow> n \<le> max_i64"
      by (simp add: strictNumbers_def kind_int64_def is_float_def not_less)
    then show ?thesis using uint [of n] assms by (simp add: CUint num_value_def as_int64_def cval_ok_def)
  next
    case (CFloat f)
    then have "strictNumbers TInt64 v = Inr v \<longleftrightarrow> isInt64 f"
      by (simp add: strictNumbers_def kind_int64_def is_float_def)
    then show ?thesis using float [of f] by (simp add: CFloat num_value_def)
  qed (use assms in \<open>simp_all add: strictNumbers_def kind_int64_def is_float_def num_value_def as_int64_def cval_ok_def i64_id\<close>)
  moreover have "is_number v \<longrightarrow> (strictNumbers TDuration v = Inr v \<longleftrightarrow> num_value v = Some (Fin 0))"
    by (cases v) (auto simp: strictNumbers_def kind_int64_def is_float_def is_number_def is_zero_def num_value_def isInt64_def go_trunc_def)
  moreover have "strictNumbers t v = Inr v' \<longrightarrow> v' = v"
    by (auto simp: strictNumbers_def split: cval.splits if_splits)
  moreover have "levelByName TLevel v = Inr v \<longleftrightarrow> (\<exists>l. v = CLevel l \<or> v = CLevelPtr l)"
    by (cases v) (simp_all add: levelByName_def)
  ultimately show ?thesis by blast
qed

lemma numbers_keep_their_value_witness:
  "strictNumbers TInt64 (CUint (2 ^ 63)) \<noteq> Inr (CUint (2 ^ 63)) \<and> strictNumbers TInt64 (CUint 5) = Inr (CUint 5)"
  using conjunct1 [OF numbers_keep_their_value [of "CUint (2 ^ 63)"]] conjunct1 [OF numbers_keep_their_value [of "CUint 5"]]
    i64_range [of "2 ^ 63"]
  by (auto simp: cval_ok_def num_value_def as_int64_def i64_id)

end
