(* ===== verification/Lifecycle.thy ===== *)
theory Lifecycle
  imports App
begin

text \<open>
  What holds of a run of the sidecar as a whole: a failed start leaves nothing running and
  no file behind, a close takes everything down whatever fails, the keylog does not outlive
  the run, and the captures together stay within \<^verbatim>\<open>max-bytes\<close>.
\<close>

section \<open>What the process holds\<close>

definition pristine :: "world \<Rightarrow> bool" where
  "pristine w \<longleftrightarrow> wd_links w = [] \<and> wd_objects w = [] \<and> wd_pins w = []
     \<and> \<not> wd_relay w \<and> \<not> wd_keylog w \<and> \<not> wd_capture w \<and> \<not> wd_live w"

text \<open>
  What a close leaves: nothing attached, listening or capturing; an eBPF object only when the
  close of one before it failed, and a pin only when it could not be removed.
\<close>

definition released :: "env \<Rightarrow> world \<Rightarrow> bool" where
  "released env w \<longleftrightarrow> wd_links w = [] \<and> \<not> wd_relay w \<and> \<not> wd_keylog w \<and> \<not> wd_capture w \<and> \<not> wd_live w
     \<and> (\<forall>obj \<in> set (wd_objects w). obj \<notin> set (upto_failure (\<lambda>obj. e_closeLoader env (CloseObject obj)) ProxyObjects))
     \<and> (\<forall>m \<in> set (wd_pins w). e_closeLoader env (Unpin m) \<noteq> None)"

lemma pristine_released: "pristine w \<Longrightarrow> released env w"
  by (simp add: pristine_def released_def)

lemma released_pristine:
  assumes "released env w" "\<forall>act. e_closeLoader env act = None"
  shows "pristine w"
proof -
  have "upto_failure (\<lambda>obj. e_closeLoader env (CloseObject obj)) ProxyObjects = ProxyObjects"
    using assms(2) by (intro upto_failure_all) simp
  then show ?thesis using assms ProxyObjects_all(1) by (auto simp: released_def pristine_def)
qed

text \<open>Whatever the world holds, the run knows of, so that closing the run releases it.\<close>

definition tracked :: "app \<Rightarrow> world \<Rightarrow> bool" where
  "tracked a w \<longleftrightarrow>
     (a_loader a = None \<longrightarrow> wd_links w = [] \<and> wd_objects w = [] \<and> wd_pins w = [])
     \<and> (\<forall>l. a_loader a = Some l \<longrightarrow> set (wd_links w) \<subseteq> set (ld_links l))
     \<and> (wd_relay w \<longrightarrow> a_ln a) \<and> (wd_keylog w \<longrightarrow> a_keylogSrv a \<noteq> None)
     \<and> (wd_capture w \<longrightarrow> a_capW a \<noteq> None) \<and> (wd_live w \<longrightarrow> a_live a)"

text \<open>What each step of a close does to the run and the world.\<close>

definition final_stats :: "app \<Rightarrow> app_log list" where
  "final_stats a = (if a_stopTick a \<and> 0 < c_StatsInterval (a_cfg a) then [logStats a] else [])"

definition closed_writer :: "env \<Rightarrow> cwriter \<Rightarrow> cwriter" where
  "closed_writer env cw = snd (Close (e_ng env) (cw\<lparr>stop_signalled := True, drained := True\<rparr>))"

definition own_links :: "app \<Rightarrow> bpf_link set" where
  "own_links a = (case a_loader a of None \<Rightarrow> {} | Some l \<Rightarrow> set (ld_links l))"

definition own_objects :: "env \<Rightarrow> app \<Rightarrow> bpf_object set" where
  "own_objects env a =
     (if a_loader a = None then {} else set (upto_failure (\<lambda>obj. e_closeLoader env (CloseObject obj)) ProxyObjects))"

definition own_pins :: "env \<Rightarrow> app \<Rightarrow> bpf_map_id set" where
  "own_pins env a = (if a_loader a = None then {} else {m. e_closeLoader env (Unpin m) = None})"

lemma CloseLoader_acts_iff:
  "CloseLink k \<in> set (snd (snd (CloseLoader err l))) \<longleftrightarrow> k \<in> set (ld_links l)"
  "CloseObject obj \<in> set (snd (snd (CloseLoader err l))) \<longleftrightarrow> obj \<in> set (upto_failure (\<lambda>obj. err (CloseObject obj)) ProxyObjects)"
  "Unpin m \<in> set (snd (snd (CloseLoader err l)))"
  by (use bpf_map_id.exhaust [of m] in \<open>auto simp: CloseLoader_acts\<close>)

lemma closing_results:
  "snd (close_ticks (a, w)) = (a\<lparr>a_stopTick := False\<rparr>, w\<lparr>wd_log := wd_log w @ final_stats a\<rparr>)"
  "snd (close_live env (a, w)) = (a, w\<lparr>wd_live := (wd_live w \<and> \<not> a_live a)\<rparr>)"
  "snd (close_capture env (a, w)) =
     (a\<lparr>a_capW := map_option (closed_writer env) (a_capW a)\<rparr>, w\<lparr>wd_capture := (wd_capture w \<and> a_capW a = None)\<rparr>)"
  "snd (close_keylog env (a, w)) = (a, w\<lparr>wd_keylog := (wd_keylog w \<and> a_keylogSrv a = None)\<rparr>)"
  "snd (close_relay env (a, w)) = (a, w\<lparr>wd_relay := (wd_relay w \<and> \<not> a_ln a)\<rparr>)"
  "snd (close_cleanup env (a, w)) = (a, w\<lparr>wd_fs := snd (Cleanup (e_remove env) (a_retention a) (wd_fs w))\<rparr>)"
  "snd (close_keylogFile env (a, w)) =
     (a, w\<lparr>wd_fs := snd (deleteKeylog (e_remove env) (c_KeylogPath (a_cfg a)) (wd_fs w))\<rparr>)"
  by (simp_all add: close_ticks_def close_live_def close_capture_def close_keylog_def close_relay_def close_cleanup_def
      close_keylogFile_def final_stats_def closed_writer_def Let_def case_prod_beta split: option.split)

lemma close_loader_result:
  "\<exists>dir. snd (close_loader env (a, w)) =
     (a\<lparr>a_loader := map_option (\<lambda>l. l\<lparr>ld_links := []\<rparr>) (a_loader a)\<rparr>,
      w\<lparr>wd_links := filter (\<lambda>k. k \<notin> own_links a) (wd_links w),
        wd_objects := filter (\<lambda>obj. obj \<notin> own_objects env a) (wd_objects w),
        wd_pins := filter (\<lambda>m. m \<notin> own_pins env a) (wd_pins w), wd_pinDir := dir\<rparr>)"
proof (cases "a_loader a")
  case None
  then show ?thesis by (intro exI [of _ "wd_pinDir w"]) (simp add: close_loader_def own_links_def own_objects_def own_pins_def)
next
  case (Some l)
  then show ?thesis
    by (simp add: close_loader_def own_links_def own_objects_def own_pins_def Let_def case_prod_beta CloseLoader_acts_iff
        CloseLoader_acts(2)) blast
qed

lemma close_all_fold: "snd (close_all cs aw) = fold (\<lambda>c aw. snd (c aw)) cs aw"
  by (induction cs arbitrary: aw) (simp_all add: Let_def case_prod_beta)

text \<open>The run and the world after a close.\<close>

lemma CloseApp_result:
  "\<exists>dir. snd (CloseApp env a w) =
     (a\<lparr>a_stopTick := False, a_capW := map_option (closed_writer env) (a_capW a),
        a_loader := map_option (\<lambda>l. l\<lparr>ld_links := []\<rparr>) (a_loader a)\<rparr>,
      w\<lparr>wd_log := wd_log w @ final_stats a, wd_live := (wd_live w \<and> \<not> a_live a), wd_capture := (wd_capture w \<and> a_capW a = None),
        wd_keylog := (wd_keylog w \<and> a_keylogSrv a = None), wd_relay := (wd_relay w \<and> \<not> a_ln a),
        wd_links := filter (\<lambda>k. k \<notin> own_links a) (wd_links w),
        wd_objects := filter (\<lambda>obj. obj \<notin> own_objects env a) (wd_objects w),
        wd_pins := filter (\<lambda>m. m \<notin> own_pins env a) (wd_pins w), wd_pinDir := dir,
        wd_fs := snd (deleteKeylog (e_remove env) (c_KeylogPath (a_cfg a))
          (snd (Cleanup (e_remove env) (a_retention a) (wd_fs w))))\<rparr>)"
proof -
  have own: "own_links (a\<lparr>a_stopTick := b, a_capW := c\<rparr>) = own_links a" "own_objects env (a\<lparr>a_stopTick := b, a_capW := c\<rparr>) = own_objects env a"
    "own_pins env (a\<lparr>a_stopTick := b, a_capW := c\<rparr>) = own_pins env a" for b c
    by (simp_all add: own_links_def own_objects_def own_pins_def)
  define a1 where "a1 = a\<lparr>a_stopTick := False, a_capW := map_option (closed_writer env) (a_capW a)\<rparr>"
  define w1 where "w1 = w\<lparr>wd_log := wd_log w @ final_stats a, wd_live := (wd_live w \<and> \<not> a_live a),
    wd_capture := (wd_capture w \<and> a_capW a = None), wd_keylog := (wd_keylog w \<and> a_keylogSrv a = None), wd_relay := (wd_relay w \<and> \<not> a_ln a)\<rparr>"
  have steps: "snd (CloseApp env a w) =
      snd (close_keylogFile env (snd (close_cleanup env (snd (close_loader env (a1, w1))))))"
    by (simp add: CloseApp_def case_prod_beta close_all_fold closings_def closing_results a1_def w1_def)
  obtain dir where "snd (close_loader env (a1, w1)) =
     (a1\<lparr>a_loader := map_option (\<lambda>l. l\<lparr>ld_links := []\<rparr>) (a_loader a1)\<rparr>,
      w1\<lparr>wd_links := filter (\<lambda>k. k \<notin> own_links a1) (wd_links w1),
        wd_objects := filter (\<lambda>obj. obj \<notin> own_objects env a1) (wd_objects w1),
        wd_pins := filter (\<lambda>m. m \<notin> own_pins env a1) (wd_pins w1), wd_pinDir := dir\<rparr>)"
    using close_loader_result by blast
  then show ?thesis
    by (intro exI [of _ dir]) (simp add: steps closing_results own a1_def w1_def)
qed

lemma CloseApp_world:
  "wd_relay (snd (snd (CloseApp env a w))) = (wd_relay w \<and> \<not> a_ln a)"
  "wd_keylog (snd (snd (CloseApp env a w))) = (wd_keylog w \<and> a_keylogSrv a = None)"
  "wd_capture (snd (snd (CloseApp env a w))) = (wd_capture w \<and> a_capW a = None)"
  "wd_live (snd (snd (CloseApp env a w))) = (wd_live w \<and> \<not> a_live a)"
  "wd_links (snd (snd (CloseApp env a w))) = filter (\<lambda>k. k \<notin> own_links a) (wd_links w)"
  "wd_objects (snd (snd (CloseApp env a w))) = filter (\<lambda>obj. obj \<notin> own_objects env a) (wd_objects w)"
  "wd_pins (snd (snd (CloseApp env a w))) = filter (\<lambda>m. m \<notin> own_pins env a) (wd_pins w)"
  using CloseApp_result [of env a w] by auto

lemma CloseApp_fs:
  "wd_fs (snd (snd (CloseApp env a w))) =
     snd (deleteKeylog (e_remove env) (c_KeylogPath (a_cfg a))
       (snd (Cleanup (e_remove env) (a_retention a) (wd_fs w))))"
  using CloseApp_result [of env a w] by auto

lemma tracked_links: "tracked a w \<Longrightarrow> set (wd_links w) \<subseteq> own_links a"
  by (cases "a_loader a") (auto simp: tracked_def own_links_def)

lemma CloseApp_released: "tracked a w \<Longrightarrow> released env (snd (snd (CloseApp env a w)))"
  using tracked_links [of a w]
  by (auto simp: released_def CloseApp_world filter_empty_conv) (auto simp: tracked_def own_objects_def own_pins_def split: if_splits)

section \<open>A failed start\<close>

text \<open>
  What the stages keep: the run knows what the world holds, and the only entries of the
  file system that were not there before are this run's capture and its keylog.
\<close>

definition started_from :: "config \<Rightarrow> filesystem \<Rightarrow> app \<times> world \<Rightarrow> bool" where
  "started_from cfg fs aw \<longleftrightarrow> a_cfg (fst aw) = cfg \<and> tracked (fst aw) (snd aw)
     \<and> (\<forall>p. wd_fs (snd aw) p = fs p \<or> wd_fs (snd aw) p = None
          \<or> (p = Run (a_retention (fst aw)) \<and> p \<noteq> []) \<or> p = c_KeylogPath cfg)
     \<and> (Retain (a_retention (fst aw)) \<longrightarrow> c_Retain cfg)"

lemma started_fromI:
  "a_cfg a = cfg \<Longrightarrow> tracked a w \<Longrightarrow> (Retain (a_retention a) \<longrightarrow> c_Retain cfg) \<Longrightarrow>
   (\<And>p. wd_fs w p = fs p \<or> wd_fs w p = None \<or> (p = Run (a_retention a) \<and> p \<noteq> []) \<or> p = c_KeylogPath cfg) \<Longrightarrow>
   started_from cfg fs (a, w)"
  by (simp add: started_from_def)

lemma start_attach_ok: "started_from cfg fs aw \<Longrightarrow> started_from cfg fs (snd (start_attach env aw))"
  by (cases aw) (auto simp: started_from_def start_attach_def tracked_def Let_def case_prod_beta split: option.splits)

lemma start_relay_ok: "started_from cfg fs aw \<Longrightarrow> started_from cfg fs (snd (start_relay env aw))"
  by (cases aw) (auto simp: started_from_def start_relay_def tracked_def split: option.splits)

lemma start_live_ok: "started_from cfg fs aw \<Longrightarrow> started_from cfg fs (snd (start_live env aw))"
  by (cases aw) (auto simp: started_from_def start_live_def tracked_def split: option.splits prod.splits)

lemma startKeylog_ok: "started_from cfg fs aw \<Longrightarrow> started_from cfg fs (snd (startKeylog env aw))"
  by (cases aw) (auto simp: started_from_def startKeylog_def tracked_def Let_def split: sum.splits)

lemma Enforce_only: "snd (Enforce flt now r lst fs) p = fs p \<or> snd (Enforce flt now r lst fs) p = None"
proof (cases "finished r lst")
  case (Inr fls)
  then show ?thesis using remove_expired_only [of flt now "MaxAge r" fls fs p] by (auto simp: Enforce_def)
qed (simp add: Enforce_def)

text \<open>With an encoder that writes its header, a capture that is not created leaves no file.\<close>

definition header_ok :: "create_env \<Rightarrow> bool" where
  "header_ok env \<longleftrightarrow> (\<forall>p. ng_new_err env p = None \<and> ng_flush_err env p = None)"

lemma run_path_not_Nil: "base \<noteq> [] \<Longrightarrow> run_path base ext n \<noteq> []"
  by (simp add: run_path_def)

lemma try_names_header_ok:
  assumes "header_ok env" "base \<noteq> []" "try_names env hdr base ext opts ns fs = (r, fs')"
  shows "(\<exists>e. r = Inl e \<and> fs' = fs) \<or> (\<exists>w. r = Inr w \<and> w_path w \<noteq> [] \<and> (\<forall>p. p \<noteq> w_path w \<longrightarrow> fs' p = fs p))"
  using assms(3)
proof (induction ns arbitrary: fs)
  case Nil
  then have "Inl (NoFreeName base) = r \<and> fs' = fs" by simp
  then show ?case by blast
next
  case (Cons n ns)
  show ?case
  proof (cases rule: NewWriter_cases [where env = env and hdr = hdr and path = "run_path base ext n" and opts = opts and fs = fs])
    case (failed e)
    show ?thesis
    proof (cases "is_exist e")
      case True
      then show ?thesis using failed Cons.prems by (intro Cons.IH) simp
    next
      case False
      then have "Inl e = r \<and> fs' = fs" using failed Cons.prems by auto
      then show ?thesis by blast
    qed
  next
    case (header e)
    then show ?thesis using assms(1) by (simp add: header_ok_def)
  next
    case created
    then have "r = Inr (new_writer hdr (run_path base ext n) opts)"
      "fs' = fs(run_path base ext n \<mapsto> Regular 0 (created_at env))"
      using Cons.prems by simp_all
    then show ?thesis using run_path_not_Nil [OF assms(2)] by (simp add: new_writer_def)
  qed
qed

lemma CreateRunCapture_header_ok:
  assumes "header_ok env" "CreateRunCapture env hdr now template opts fs = (r, fs')"
  shows "(\<exists>e. r = Inl e \<and> fs' = fs) \<or> (\<exists>w. r = Inr w \<and> w_path w \<noteq> [] \<and> (\<forall>p. p \<noteq> w_path w \<longrightarrow> fs' p = fs p))"
proof -
  obtain dir stem ext where t: "splitTemplate template = (dir, stem, ext)" using prod_cases3 by blast
  have "path_join dir (stem @ ''-'' @ itoa (time_unix now)) \<noteq> []"
    by (simp add: path_join_def clean_not_Nil)
  from try_names_header_ok [OF assms(1) this] assms(2) show ?thesis
    unfolding CreateRunCapture_def t prod.case Let_def by blast
qed

text \<open>Opening the capture once its directory is allowed: the age pass, then by the room it leaves.\<close>

definition capture_retention :: "config \<Rightarrow> retention" where
  "capture_retention cfg = \<lparr>Template = c_CapturePath cfg, Run = [], MaxBytes = c_MaxBytes cfg, MaxAge = c_MaxAge cfg, Retain = c_Retain cfg\<rparr>"

definition swept :: "env \<Rightarrow> config \<Rightarrow> filesystem \<Rightarrow> filesystem" where
  "swept env cfg fs = snd (Enforce (e_remove env) (e_enforceAt env) (capture_retention cfg) (e_readDir env fs) fs)"

abbreviation capture_options :: "int \<Rightarrow> options" where
  "capture_options left \<equiv> \<lparr>LinkType = 0, Room = left, OnStop = True\<rparr>"

lemma openCapture_unfold:
  "openCapture env (a, w) =
     (case CheckTarget (e_captureDir env) of
        Some e \<Rightarrow> (Some (CaptureTarget e), a, w)
      | None \<Rightarrow>
          (case RetentionRoom (capture_retention (a_cfg a)) (e_readDir env (swept env (a_cfg a) (wd_fs w))) of
             (_, Some e) \<Rightarrow> (Some (RoomFailed e), a\<lparr>a_retention := capture_retention (a_cfg a)\<rparr>, w\<lparr>wd_fs := swept env (a_cfg a) (wd_fs w)\<rparr>)
           | (left, None) \<Rightarrow>
               if c_MaxBytes (a_cfg a) > 0 \<and> left < HeaderSize (e_header env) (capture_options left)
               then (None, a\<lparr>a_retention := capture_retention (a_cfg a)\<rparr>, w\<lparr>wd_fs := swept env (a_cfg a) (wd_fs w), wd_log := wd_log w
                       @ [LogCaptureNotStarted (path_dir (c_CapturePath (a_cfg a))) (i64 (c_MaxBytes (a_cfg a) - left)) (c_MaxBytes (a_cfg a))]\<rparr>)
               else (case CreateRunCapture (e_create env) (e_header env) (e_now env) (c_CapturePath (a_cfg a)) (capture_options left)
                         (swept env (a_cfg a) (wd_fs w)) of
                   (Inl e, fs1) \<Rightarrow> (Some (CreateFailed e), a\<lparr>a_retention := capture_retention (a_cfg a)\<rparr>, w\<lparr>wd_fs := fs1\<rparr>)
                 | (Inr cw, fs1) \<Rightarrow>
                     (None, a\<lparr>a_capW := Some cw, a_retention := (capture_retention (a_cfg a))\<lparr>Run := w_path cw\<rparr>\<rparr>,
                      w\<lparr>wd_fs := fs1, wd_capture := True, wd_log := wd_log w @ [LogCaptureStarted (w_path cw)]\<rparr>))))"
  by (auto simp: openCapture_def capture_retention_def swept_def Let_def split: option.split prod.split sum.split)

lemma openCapture_cases:
  assumes "r = capture_retention (a_cfg a)" "fs = swept env (a_cfg a) (wd_fs w)"
  obtains (refused) e where "openCapture env (a, w) = (Some e, a, w)"
    | (no_room) e where "openCapture env (a, w) = (Some e, a\<lparr>a_retention := r\<rparr>, w\<lparr>wd_fs := fs\<rparr>)"
    | (not_started) lg where "openCapture env (a, w) = (None, a\<lparr>a_retention := r\<rparr>, w\<lparr>wd_fs := fs, wd_log := lg\<rparr>)"
    | (failed) left e fs' where
        "CreateRunCapture (e_create env) (e_header env) (e_now env) (c_CapturePath (a_cfg a)) (capture_options left) fs = (Inl e, fs')"
        "openCapture env (a, w) = (Some (CreateFailed e), a\<lparr>a_retention := r\<rparr>, w\<lparr>wd_fs := fs'\<rparr>)"
    | (started) left cw fs' lg where
        "RetentionRoom r (e_readDir env fs) = (left, None)"
        "0 < c_MaxBytes (a_cfg a) \<longrightarrow> HeaderSize (e_header env) (capture_options left) \<le> left"
        "CreateRunCapture (e_create env) (e_header env) (e_now env) (c_CapturePath (a_cfg a)) (capture_options left) fs = (Inr cw, fs')"
        "openCapture env (a, w) = (None, a\<lparr>a_capW := Some cw, a_retention := r\<lparr>Run := w_path cw\<rparr>\<rparr>,
           w\<lparr>wd_fs := fs', wd_capture := True, wd_log := lg\<rparr>)"
proof (cases "CheckTarget (e_captureDir env)")
  case (Some e)
  then show thesis by (intro refused [of "CaptureTarget e"]) (simp add: openCapture_def)
next
  case None
  obtain left err where room: "RetentionRoom r (e_readDir env fs) = (left, err)" by fastforce
  obtain x fs' where cr: "CreateRunCapture (e_create env) (e_header env) (e_now env) (c_CapturePath (a_cfg a)) (capture_options left) fs = (x, fs')"
    by fastforce
  note unfold = openCapture_unfold assms [symmetric]
  show thesis
  proof (cases err)
    case (Some e)
    with None room show thesis by (intro no_room [of "RoomFailed e"]) (simp add: unfold)
  next
    case no_err: None
    show thesis
    proof (cases "c_MaxBytes (a_cfg a) > 0 \<and> left < HeaderSize (e_header env) (capture_options left)")
      case True
      show thesis by (rule not_started) (use None room no_err True in \<open>simp add: unfold\<close>)
    next
      case False
      show thesis
      proof (cases x)
        case (Inl e)
        show thesis by (rule failed [OF cr [unfolded Inl]]) (use None room no_err False cr Inl in \<open>simp add: unfold\<close>)
      next
        case (Inr cw)
        have "0 < c_MaxBytes (a_cfg a) \<longrightarrow> HeaderSize (e_header env) (capture_options left) \<le> left" using False by auto
        moreover have "openCapture env (a, w) = (None, a\<lparr>a_capW := Some cw, a_retention := r\<lparr>Run := w_path cw\<rparr>\<rparr>,
            w\<lparr>wd_fs := fs', wd_capture := True, wd_log := wd_log w @ [LogCaptureStarted (w_path cw)]\<rparr>)"
          using None room no_err False cr Inr by (auto simp: unfold)
        ultimately show thesis using started cr Inr room no_err by blast
      qed
    qed
  qed
qed

lemma openCapture_ok:
  assumes "header_ok (e_create env)" "started_from cfg fs aw" "Run (a_retention (fst aw)) = []"
  shows "started_from cfg fs (snd (openCapture env aw))"
proof -
  obtain a w where aw: "aw = (a, w)" by (cases aw)
  note assms = assms [unfolded aw fst_conv]
  define fs1 where "fs1 = swept env (a_cfg a) (wd_fs w)"
  have cfg: "a_cfg a = cfg" and tr: "tracked a w" using assms(2) by (simp_all add: started_from_def)
  have old: "wd_fs w p = fs p \<or> wd_fs w p = None \<or> p = c_KeylogPath cfg" for p
    using assms(2,3) by (auto simp: started_from_def)
  have new: "fs1 p = fs p \<or> fs1 p = None \<or> p = c_KeylogPath cfg" for p
    using old [of p] Enforce_only [of "e_remove env" "e_enforceAt env" "capture_retention cfg" "e_readDir env (wd_fs w)" "wd_fs w" p]
    unfolding fs1_def swept_def cfg by auto
  have st: "started_from cfg fs (a\<lparr>a_retention := capture_retention (a_cfg a)\<rparr>, w\<lparr>wd_fs := fs1, wd_log := lg\<rparr>)" for lg
    by (rule started_fromI) (use new cfg tr in \<open>simp_all add: tracked_def capture_retention_def\<close>)
  show ?thesis
    using refl [of "capture_retention (a_cfg a)"] fs1_def
  proof (cases rule: openCapture_cases [consumes 2])
    case (refused e)
    then show ?thesis using assms(2) by (simp add: aw)
  next
    case (no_room e)
    then show ?thesis using st [of "wd_log w"] by (simp add: aw)
  next
    case (not_started lg)
    then show ?thesis using st by (simp add: aw)
  next
    case (failed left e fs')
    then have "fs' = fs1" using CreateRunCapture_header_ok [OF assms(1) failed(1)] by auto
    then show ?thesis using failed(2) st [of "wd_log w"] by (simp add: aw)
  next
    case (started left cw fs' lg)
    then have cw: "w_path cw \<noteq> []" "\<And>p. p \<noteq> w_path cw \<Longrightarrow> fs' p = fs1 p"
      using CreateRunCapture_header_ok [OF assms(1) started(3)] by auto
    have files: "fs' p = fs p \<or> fs' p = None \<or> (p = w_path cw \<and> p \<noteq> []) \<or> p = c_KeylogPath cfg" for p
      using cw new [of p] by (cases "p = w_path cw") auto
    show ?thesis
      unfolding aw started(4) snd_conv
    proof (rule started_fromI)
      show "Retain (a_retention (a\<lparr>a_capW := Some cw, a_retention := (capture_retention (a_cfg a))\<lparr>Run := w_path cw\<rparr>\<rparr>)) \<longrightarrow> c_Retain cfg"
        by (simp add: capture_retention_def cfg)
    qed (use cfg tr files in \<open>simp_all add: tracked_def\<close>)
  qed
qed

lemma openCapture_retention:
  "Run (a_retention (fst aw)) = [] \<Longrightarrow> Run (a_retention (fst (snd (start_attach env aw)))) = []"
  "Run (a_retention (fst aw)) = [] \<Longrightarrow> Run (a_retention (fst (snd (start_relay env aw)))) = []"
  by (cases aw, auto simp: start_attach_def start_relay_def Let_def case_prod_beta split: option.splits)+

lemma openCapture_tracked: "tracked (fst aw) (snd aw) \<Longrightarrow> tracked (fst (snd (openCapture env aw))) (snd (snd (openCapture env aw)))"
  by (cases aw) (auto simp: openCapture_def tracked_def Let_def split: option.splits prod.splits sum.splits)

lemma start_attach_tracked:
  "tracked (fst aw) (snd aw) \<Longrightarrow> tracked (fst (snd (start_attach env aw))) (snd (snd (start_attach env aw)))"
  by (cases aw) (auto simp: start_attach_def tracked_def Let_def case_prod_beta split: option.splits)

lemma start_relay_tracked:
  "tracked (fst aw) (snd aw) \<Longrightarrow> tracked (fst (snd (start_relay env aw))) (snd (snd (start_relay env aw)))"
  by (cases aw) (simp add: start_relay_def tracked_def split: option.split)

lemma startKeylog_tracked:
  "tracked (fst aw) (snd aw) \<Longrightarrow> tracked (fst (snd (startKeylog env aw))) (snd (snd (startKeylog env aw)))"
  by (cases aw) (simp add: startKeylog_def tracked_def Let_def split: sum.split)

lemma start_live_tracked:
  "tracked (fst aw) (snd aw) \<Longrightarrow> tracked (fst (snd (start_live env aw))) (snd (snd (start_live env aw)))"
  by (cases aw) (auto simp: start_live_def tracked_def split: option.splits prod.splits)

lemmas other_stages_tracked = start_attach_tracked start_relay_tracked startKeylog_tracked start_live_tracked

lemma stages_tracked:
  assumes "tracked (fst aw) (snd aw)"
    "st \<in> {start_attach env, start_relay env, openCapture env, startKeylog env, start_live env}"
  shows "tracked (fst (snd (st aw))) (snd (snd (st aw)))"
  using assms(2) openCapture_tracked [OF assms(1)] other_stages_tracked [OF assms(1)] by blast

lemma start_stages_Cons:
  "start_stages env (st # sts) aw =
     (case fst (st aw) of
        None \<Rightarrow> start_stages env sts (snd (st aw))
      | Some e \<Rightarrow> (Inl e, snd (snd (CloseApp env (fst (snd (st aw))) (snd (snd (st aw)))))))"
  by (cases aw; cases "st aw") (auto split: option.splits)

text \<open>A failed stage: the world is what closing the run left at that stage.\<close>

lemma start_stages_released:
  assumes "start_stages env sts aw = (Inl e, w')" "tracked (fst aw) (snd aw)"
    "set sts \<subseteq> {start_attach env, start_relay env, openCapture env, startKeylog env, start_live env}"
  shows "released env w'"
  using assms
proof (induction sts arbitrary: aw)
  case Nil
  then show ?case by (cases aw) simp
next
  case (Cons st sts)
  have t: "tracked (fst (snd (st aw))) (snd (snd (st aw)))"
    using Cons.prems(2,3) by (intro stages_tracked) auto
  show ?case
  proof (cases "fst (st aw)")
    case None
    then show ?thesis using Cons.IH [OF _ t] Cons.prems(1,3) by (simp add: start_stages_Cons)
  next
    case (Some x)
    then show ?thesis using Cons.prems(1) CloseApp_released [OF t, of env] by (auto simp: start_stages_Cons)
  qed
qed

lemma start_stages_closed:
  assumes "start_stages env sts aw = (Inl e, w')"
  shows "\<exists>b \<in> set (map (\<lambda>n. fold (\<lambda>st aw. snd (st aw)) (take (Suc n) sts) aw) [0..<length sts]).
    w' = snd (snd (CloseApp env (fst b) (snd b)))"
  using assms
proof (induction sts arbitrary: aw)
  case Nil
  then show ?case by (cases aw) simp
next
  case (Cons st sts)
  have upt: "[0..<length (st # sts)] = 0 # map Suc [0..<length sts]"
    by (simp add: map_Suc_upt upt_conv_Cons del: upt_Suc)
  show ?case
  proof (cases "fst (st aw)")
    case None
    then show ?thesis
      using Cons.IH [of "snd (st aw)"] Cons.prems unfolding upt by (auto simp: start_stages_Cons)
  next
    case (Some x)
    then show ?thesis using Cons.prems unfolding upt by (auto simp: start_stages_Cons)
  qed
qed

definition no_new_files :: "filesystem \<Rightarrow> filesystem \<Rightarrow> bool" where
  "no_new_files fs fs' \<longleftrightarrow> (\<forall>p. fs' p = fs p \<or> fs' p = None)"

lemma os_remove_no_fault: "flt path = None \<Longrightarrow> snd (os_remove flt path fs) = fs(path := None)"
  by (auto simp: os_remove_def fun_eq_iff)

lemma deleteKeylog_no_fault:
  "flt path = None \<Longrightarrow> path \<noteq> [] \<Longrightarrow> deleteKeylog flt path fs = (None, fs(path := None))"
  by (auto simp: deleteKeylog_def os_remove_def fun_eq_iff)

lemma CloseApp_no_new_files:
  assumes "started_from cfg fs (a, w)" "\<forall>p. e_remove env p = None" "\<not> c_Retain cfg" "c_KeylogPath cfg \<noteq> []"
  shows "no_new_files fs (wd_fs (snd (snd (CloseApp env a w))))"
proof -
  have a: "a_cfg a = cfg" "\<not> Retain (a_retention a)"
    "\<And>p. wd_fs w p = fs p \<or> wd_fs w p = None \<or> (p = Run (a_retention a) \<and> p \<noteq> []) \<or> p = c_KeylogPath cfg"
    using assms(1,3) by (auto simp: started_from_def)
  have "snd (Cleanup (e_remove env) (a_retention a) (wd_fs w)) =
      (if Run (a_retention a) = [] then wd_fs w else (wd_fs w)(Run (a_retention a) := None))"
    using a(2) assms(2) by (simp add: Cleanup_def Let_def case_prod_beta os_remove_no_fault)
  then have fs': "wd_fs (snd (snd (CloseApp env a w))) p =
      (if p = c_KeylogPath cfg \<or> (p = Run (a_retention a) \<and> p \<noteq> []) then None else wd_fs w p)" for p
    unfolding CloseApp_fs a(1) using deleteKeylog_no_fault [of "e_remove env" "c_KeylogPath cfg"] assms(2,4) by auto
  show ?thesis
  proof (unfold no_new_files_def, intro allI)
    fix p
    show "wd_fs (snd (snd (CloseApp env a w))) p = fs p \<or> wd_fs (snd (snd (CloseApp env a w))) p = None"
      using a(3) [of p] unfolding fs' by presburger
  qed
qed

lemma start_stages_no_new_files:
  assumes "start_stages env [start_attach env, start_relay env, openCapture env, startKeylog env, start_live env] aw = (Inl e, w')"
    "started_from cfg fs aw" "Run (a_retention (fst aw)) = []" "header_ok (e_create env)"
    "\<forall>p. e_remove env p = None" "\<not> c_Retain cfg" "c_KeylogPath cfg \<noteq> []"
  shows "no_new_files fs (wd_fs w')"
proof -
  note s1 = start_attach_ok [OF assms(2), of env]
  note s2 = start_relay_ok [OF s1, of env]
  note s3 = openCapture_ok [OF assms(4) s2 openCapture_retention(2) [OF openCapture_retention(1) [OF assms(3)]]]
  note s4 = startKeylog_ok [OF s3, of env]
  note s5 = start_live_ok [OF s4, of env]
  have five: "[0..<length [start_attach env, start_relay env, openCapture env, startKeylog env, start_live env]] = [0, 1, 2, 3, 4]"
    by (simp add: upt_rec)
  obtain b where "w' = snd (snd (CloseApp env (fst b) (snd b)))" "started_from cfg fs b"
    using start_stages_closed [OF assms(1)] s1 s2 s3 s4 s5 unfolding five by (auto simp: numeral_eq_Suc)
  then show ?thesis using CloseApp_no_new_files [of cfg fs "fst b" "snd b" env] assms(5-7) by simp
qed

section \<open>Properties\<close>

lemma pristine_tracked: "pristine w \<Longrightarrow> tracked (new_app cfg) (w\<lparr>wd_fs := fs\<rparr>)"
  by (simp add: pristine_def tracked_def new_app_def)

lemma start_loader_tracked:
  assumes "start_loader env (new_app cfg, w) = (err, a, w1)" "pristine w"
  shows "tracked a w1 \<and> (err \<noteq> None \<longrightarrow> pristine w1) \<and> wd_fs w1 = wd_fs w \<and> a_cfg a = cfg
    \<and> a_retention a = a_retention (new_app cfg)"
  using assms
  by (auto simp: start_loader_def new_app_def tracked_def pristine_def Let_def case_prod_beta split: sum.splits)

text \<open>The two ways a start ends: before the objects are loaded, or in one of the stages after.\<close>

lemma Start_cases:
  obtains (early) e w1 where "Start env cfg w = (Inl e, w1)" "pristine w \<longrightarrow> pristine w1"
      "\<forall>p. wd_fs w1 p = wd_fs w p \<or> wd_fs w1 p = None"
    | (stages) a w1 where "pristine w \<longrightarrow> tracked a w1" "a_cfg a = cfg" "a_retention a = a_retention (new_app cfg)"
      "\<forall>p. wd_fs w1 p = wd_fs w p \<or> wd_fs w1 p = None"
      "Start env cfg w = start_stages env [start_attach env, start_relay env, openCapture env, startKeylog env, start_live env] (a, w1)"
proof (cases "checkKeylogTmpfs (e_statfs env) (c_KeylogPath cfg)")
  case (Some e)
  then show thesis by (intro early [of "TmpfsFailed e" w]) (simp_all add: Start_def)
next
  case None
  obtain err fs where del: "deleteKeylog (e_remove env) (c_KeylogPath cfg) (wd_fs w) = (err, fs)" by fastforce
  have fs: "fs p = wd_fs w p \<or> fs p = None" for p
    using del by (auto simp: deleteKeylog_def os_remove_def Let_def split: if_splits option.splits)
  obtain err2 a w1 where ld: "start_loader env (new_app cfg, w\<lparr>wd_fs := fs\<rparr>) = (err2, a, w1)" using prod_cases3 by blast
  have pr: "pristine (w\<lparr>wd_fs := fs\<rparr>) = pristine w" by (simp add: pristine_def)
  have w1: "wd_fs w1 = fs" "a_cfg a = cfg" "a_retention a = a_retention (new_app cfg)"
    using ld by (auto simp: start_loader_def new_app_def Let_def case_prod_beta split: sum.splits)
  note tr = start_loader_tracked [OF ld, unfolded pr]
  show thesis
  proof (cases err)
    case (Some e)
    then show thesis using None del fs pr
      by (intro early [of "LeftoverKeylog e" "w\<lparr>wd_fs := fs\<rparr>"]) (simp_all add: Start_def)
  next
    case no_err: None
    show thesis
    proof (cases err2)
      case (Some e)
      then show thesis using None no_err del ld fs w1 tr
        by (intro early [of e w1]) (simp_all add: Start_def)
    next
      case no_err2: None
      then show thesis using None no_err del ld fs w1 tr
        by (intro stages [of a w1]) (simp_all add: Start_def del: start_stages.simps)
    qed
  qed
qed

lemma started_from_loader:
  assumes "tracked a w" "a_cfg a = cfg" "a_retention a = a_retention (new_app cfg)"
    "\<forall>p. wd_fs w p = fs p \<or> wd_fs w p = None"
  shows "started_from cfg fs (a, w) \<and> Run (a_retention a) = []"
  using assms by (auto simp: started_from_def new_app_def)

lemma start_stages_tracked:
  assumes "start_stages env sts aw = (Inr a, w)" "tracked (fst aw) (snd aw)"
    "set sts \<subseteq> {start_attach env, start_relay env, openCapture env, startKeylog env, start_live env}"
  shows "tracked a w"
  using assms
proof (induction sts arbitrary: aw)
  case Nil
  then show ?case by (cases aw) (auto simp: tracked_def)
next
  case (Cons st sts)
  have "tracked (fst (snd (st aw))) (snd (snd (st aw)))" using Cons.prems(2,3) by (intro stages_tracked) auto
  then show ?case using Cons.IH [of "snd (st aw)"] Cons.prems(1,3) by (auto simp: start_stages_Cons split: option.splits)
qed

lemma Start_fails_released:
  assumes "Start env cfg w = (Inl e, w')" "pristine w"
  shows "released env w'"
proof (cases rule: Start_cases [where env = env and cfg = cfg and w = w])
  case (early e w1)
  then show ?thesis using assms pristine_released by simp
next
  case (stages a w1)
  have run: "start_stages env [start_attach env, start_relay env, openCapture env, startKeylog env, start_live env] (a, w1) = (Inl e, w')"
    using assms(1) stages(5) by (simp only:)
  show ?thesis by (rule start_stages_released [OF run]) (use stages(1) assms(2) in simp_all)
qed

lemma Start_tracked:
  assumes "Start env cfg w0 = (Inr a, w)" "pristine w0"
  shows "tracked a w"
proof (cases rule: Start_cases [where env = env and cfg = cfg and w = w0])
  case (stages a1 w1)
  have run: "start_stages env [start_attach env, start_relay env, openCapture env, startKeylog env, start_live env] (a1, w1) = (Inr a, w)"
    using assms(1) stages(5) by (simp only:)
  show ?thesis by (rule start_stages_tracked [OF run]) (use stages(1) assms(2) in simp_all)
qed (use assms in simp)

text \<open>
  Two leftovers a failed start does have. A pin directory that loading created stays when
  loading the objects then fails, and a capture file stays when its header cannot be written.
\<close>

lemma failed_load_leaves_pin_dir:
  assumes "checkKeylogTmpfs (e_statfs env) (c_KeylogPath cfg) = None" "e_remove env (c_KeylogPath cfg) = None"
    "c_CgroupPath cfg \<noteq> []" "c_PinDir cfg = DefaultPinDir"
    "e_loader env = \<lparr>le_memlock = None, le_stat = Some ENOENT, le_mkdir = None, le_spec = None, le_assign = \<lambda>_. Some n\<rparr>"
  shows "fst (Start env cfg w) = Inl (LoadFailed (LoadObjectsError (AssignError n))) \<and> wd_pinDir (snd (Start env cfg w))"
proof -
  have "clean DefaultPinDir = bpffsPrefix @ ''/'' @ ''go-ebpf-proxy''" by code_simp
  then have v: "Validate \<lparr>lc_CgroupPath = c_CgroupPath cfg, lc_PinDir = DefaultPinDir, lc_ProxyUID = ProxyUID, lc_ProxyPort = ProxyPort\<rparr> = None"
    using assms(3) by (simp add: Validate_def ProxyUID_def ProxyPort_def)
  have "fst (deleteKeylog (e_remove env) (c_KeylogPath cfg) (wd_fs w)) = None"
    using assms(2) by (simp add: deleteKeylog_def os_remove_def Let_def case_prod_beta split: option.split)
  then obtain fs where "deleteKeylog (e_remove env) (c_KeylogPath cfg) (wd_fs w) = (None, fs)"
    by (metis prod.collapse)
  then show ?thesis
    using assms(1,4,5) v by (simp add: Start_def start_loader_def new_app_def Load_def LoadProxyObjects_def LoadProxy_def)
qed

lemma failed_header_leaves_file:
  assumes "mkdir_fault env (path_dir path) = None" "open_fault env path = None" "fs path = None" "ng_flush_err env path = Some n"
    "ng_new_err env path = None"
  shows "NewWriter env hdr path opts fs = (Inl (NgHeaderError n), fs(path \<mapsto> Regular 0 (created_at env)))"
  using assms by (simp add: NewWriter_def open_excl_def)

text \<open>
  C8: a failed start leaves nothing behind. At whatever point \<^verbatim>\<open>Start\<close> fails, no program is
  attached, nothing listens, and no capture runs; no eBPF object is open and no map is pinned
  but those the teardown of the loader failed to release; and if removing files works, the
  capture is not to be retained, and the encoder wrote its header, every file of the file
  system afterwards was there before.
\<close>

theorem failed_start_leaves_nothing:
  assumes "Start env cfg w = (Inl e, w')" "pristine w"
  shows "released env w' \<and> ((\<forall>act. e_closeLoader env act = None) \<longrightarrow> pristine w')
    \<and> (header_ok (e_create env) \<and> (\<forall>p. e_remove env p = None) \<and> \<not> c_Retain cfg \<and> c_KeylogPath cfg \<noteq> []
    \<longrightarrow> (\<forall>p. wd_fs w' p = wd_fs w p \<or> wd_fs w' p = None))"
proof (cases rule: Start_cases [where env = env and cfg = cfg and w = w])
  case (early e w1)
  then show ?thesis using assms pristine_released by simp
next
  case (stages a w1)
  then have run: "start_stages env [start_attach env, start_relay env, openCapture env, startKeylog env, start_live env] (a, w1) = (Inl e, w')"
    and tr: "tracked a w1"
    using assms by simp_all
  note from_loader = started_from_loader [OF tr stages(2-4)]
  have "released env w'" by (rule Start_fails_released [OF assms])
  moreover have "no_new_files (wd_fs w) (wd_fs w')"
    if "header_ok (e_create env)" "\<forall>p. e_remove env p = None" "\<not> c_Retain cfg" "c_KeylogPath cfg \<noteq> []"
    using start_stages_no_new_files [OF run _ _ that] from_loader by simp
  ultimately show ?thesis using released_pristine by (auto simp: no_new_files_def)
qed

definition sample_world :: world where
  "sample_world = \<lparr>wd_fs = Map.empty, wd_links = [], wd_objects = [], wd_pins = [], wd_pinDir = False, wd_relay = False,
     wd_keylog = False, wd_capture = False, wd_live = False, wd_log = []\<rparr>"

definition sample_config :: config where
  "sample_config = DefaultConfig\<lparr>c_CgroupPath := ''/c''\<rparr>"

definition sample_app_env :: env where
  "sample_app_env = \<lparr>e_statfs = (\<lambda>_. Inr TMPFS_MAGIC), e_remove = (\<lambda>_. None),
     e_loader = \<lparr>le_memlock = None, le_stat = Some ENOENT, le_mkdir = None, le_spec = None, le_assign = \<lambda>_. None\<rparr>,
     e_attach4 = None, e_attachSockops = None, e_listen = Some (Errno 98), e_captureDir = Inr 448,
     e_readDir = (\<lambda>_. Inr []), e_enforceAt = 0, e_now = sample_now, e_create = sample_env, e_header = (\<lambda>_. 100),
     e_server = sample_senv, e_liveOpen = None, e_liveLength = None, e_logger = NewLogger None, e_ng = sample_io,
     e_closeLive = None, e_closeSocket = None, e_closeKeylog = None, e_removeSocket = None, e_closeRelay = None,
     e_closeLoader = (\<lambda>_. None), e_addrText = (\<lambda>_. ''a''), e_errText = (\<lambda>_. ''e'')\<rparr>"

lemma pristine_sample: "pristine sample_world"
  by (simp add: pristine_def sample_world_def)

lemma sample_tmpfs: "checkKeylogTmpfs (\<lambda>_. Inr TMPFS_MAGIC) p = None"
  by (simp add: checkKeylogTmpfs_def)

lemma sample_validates:
  "Validate \<lparr>lc_CgroupPath = ''/c'', lc_PinDir = DefaultPinDir, lc_ProxyUID = ProxyUID, lc_ProxyPort = ProxyPort\<rparr> = None"
proof -
  have "clean DefaultPinDir = bpffsPrefix @ ''/'' @ ''go-ebpf-proxy''" by code_simp
  then show ?thesis by (simp add: Validate_def ProxyUID_def ProxyPort_def)
qed

lemma sample_start_fails: "\<exists>w'. Start sample_app_env sample_config sample_world = (Inl (RelayListenFailed (Errno 98)), w')"
  by (simp add: Start_def sample_app_env_def sample_config_def DefaultConfig_def DefaultLoaderConfig_def sample_world_def
      sample_tmpfs deleteKeylog_def os_remove_def start_loader_def Load_def LoadProxyObjects_def LoadProxy_def new_app_def sample_validates
      start_attach_def Attach_def start_relay_def)

lemma failed_start_leaves_nothing_witness:
  "\<exists>w'. Start sample_app_env sample_config sample_world = (Inl (RelayListenFailed (Errno 98)), w') \<and> pristine w'"
proof -
  obtain w' where w': "Start sample_app_env sample_config sample_world = (Inl (RelayListenFailed (Errno 98)), w')"
    using sample_start_fails by blast
  have "\<forall>act. e_closeLoader sample_app_env act = None" by (simp add: sample_app_env_def)
  then show ?thesis using failed_start_leaves_nothing [OF w' pristine_sample] w' by blast
qed

text \<open>A run whose captures leave no room, so that it starts without a capture, and whose relay fails to close.\<close>

definition closing_config :: config where
  "closing_config = sample_config\<lparr>c_MaxBytes := 50\<rparr>"

definition closing_env :: env where
  "closing_env = sample_app_env\<lparr>e_listen := None, e_closeRelay := Some (Errno 5)\<rparr>"

lemma closing_room:
  assumes "r = capture_retention closing_config"
  shows "Enforce flt now r (Inr []) fs = ([], fs)" "RetentionRoom r (Inr []) = (50, None)"
proof -
  have fin: "finished r (Inr []) = Inr []"
    by (simp add: finished_def List.map_filter_simps split: prod.split)
  show "Enforce flt now r (Inr []) fs = ([], fs)" by (simp add: Enforce_def fin)
  show "RetentionRoom r (Inr []) = (50, None)"
    using RetentionRoom_exact [OF fin] by (simp add: assms capture_retention_def closing_config_def owned_total_def)
qed

lemma closing_env_simps:
  "e_statfs closing_env = (\<lambda>_. Inr TMPFS_MAGIC)" "e_remove closing_env = (\<lambda>_. None)"
  "e_loader closing_env = \<lparr>le_memlock = None, le_stat = Some ENOENT, le_mkdir = None, le_spec = None, le_assign = \<lambda>_. None\<rparr>"
  "e_attach4 closing_env = None" "e_attachSockops closing_env = None" "e_listen closing_env = None"
  "e_captureDir closing_env = Inr 448" "e_readDir closing_env = (\<lambda>_. Inr [])" "e_header closing_env = (\<lambda>_. 100)"
  "e_server closing_env = sample_senv" "e_closeRelay closing_env = Some (Errno 5)" "e_closeLoader closing_env = (\<lambda>_. None)"
  by (simp_all add: closing_env_def sample_app_env_def)

lemma closing_config_simps:
  "c_CgroupPath closing_config = ''/c''" "c_PinDir closing_config = DefaultPinDir" "c_MaxBytes closing_config = 50"
  by (simp_all add: closing_config_def sample_config_def DefaultConfig_def DefaultLoaderConfig_def)

lemma closing_capture_not_started:
  assumes "a_cfg a = closing_config"
  shows "openCapture closing_env (a, w) = (None, a\<lparr>a_retention := capture_retention closing_config\<rparr>,
     w\<lparr>wd_log := wd_log w @ [LogCaptureNotStarted (path_dir (c_CapturePath closing_config)) (i64 0) 50]\<rparr>)"
proof -
  have "CheckTarget (Inr 448) = None" by code_simp
  moreover have "swept closing_env closing_config fs = fs" for fs
    by (simp add: swept_def closing_env_simps closing_room)
  ultimately show ?thesis
    using assms by (simp add: openCapture_unfold closing_room closing_env_simps closing_config_simps HeaderSize_def)
qed

lemma closing_run_starts:
  "\<exists>a w. Start closing_env closing_config sample_world = (Inr a, w) \<and> wd_objects w = ProxyObjects \<and> wd_relay w \<and> wd_keylog w \<and> a_ln a"
proof -
  have "\<exists>s. fst (NewSocketServer sample_senv cfg lg) = Inr s" for cfg lg
    by (simp add: NewSocketServer_def sample_senv_def checkSocketDir_def and_54_457 NewKeylogWriter_def Let_def)
  then obtain srv where "fst (NewSocketServer sample_senv cfg lg) = Inr (srv cfg lg)" for cfg lg by metis
  then show ?thesis
    by (simp add: Start_def sample_tmpfs deleteKeylog_def os_remove_def start_loader_def Load_def LoadProxyObjects_def LoadProxy_def sample_validates start_attach_def
        Attach_def start_relay_def closing_capture_not_started startKeylog_def start_live_def
        closing_env_simps closing_config_simps new_app_def sample_world_def Let_def)
qed

lemma close_all_reports: "fst (c (fold (\<lambda>c aw. snd (c aw)) cs aw)) \<in> set (fst (close_all (cs @ c # ds) aw))"
  by (induction cs arbitrary: aw) (simp_all add: Let_def case_prod_beta)

lemma close_reports_relay:
  assumes "a_ln a" "e_closeRelay env = Some e"
  shows "CloseRelayError e \<in> set (fst (CloseApp env a w))"
proof -
  have member: "x \<in> set (errors_join es) \<longleftrightarrow> Some x \<in> set es" for x and es :: "close_error option list"
    by (force simp: errors_join_def List.map_filter_def)
  have "closings env = [close_ticks, close_live env, close_capture env, close_keylog env]
      @ close_relay env # [close_loader env, close_cleanup env, close_keylogFile env]"
    by (simp add: closings_def)
  moreover have "fst (close_relay env (fold (\<lambda>c aw. snd (c aw)) [close_ticks, close_live env, close_capture env, close_keylog env] (a, w)))
      = Some (CloseRelayError e)"
    using assms by (simp add: closing_results) (simp add: close_relay_def)
  ultimately have "Some (CloseRelayError e) \<in> set (fst (close_all (closings env) (a, w)))"
    using close_all_reports by metis
  then show ?thesis by (simp add: CloseApp_def case_prod_beta member)
qed

lemma os_remove_gone: "snd (os_remove flt path fs) p = fs p \<or> snd (os_remove flt path fs) p = None"
  by (simp add: os_remove_def split: option.splits)

lemma deleteKeylog_fs: "snd (deleteKeylog flt path fs) = (if path = [] then fs else snd (os_remove flt path fs))"
  by (simp add: deleteKeylog_def case_prod_beta)

lemma Cleanup_fs: "snd (Cleanup flt r fs) = (if Retain r \<or> Run r = [] then fs else snd (os_remove flt (Run r) fs))"
  by (simp add: Cleanup_def case_prod_beta Let_def)

text \<open>
  Closing takes everything down. A started run knows all it holds; and closing a run that
  knows all it holds, whichever parts fail to close, detaches the programs, stops listening
  and ends the capture, releases all the eBPF objects and pins but those that failed and the
  objects after the first that did, deletes the keylog, deletes this run's capture unless it
  is to be retained, and touches no other file.
\<close>

theorem close_takes_everything_down:
  "(Start env cfg w0 = (Inr a, w) \<and> pristine w0 \<longrightarrow> tracked a w)
   \<and> (tracked a w \<longrightarrow> released env (snd (snd (CloseApp env a w)))
      \<and> ((\<forall>act. e_closeLoader env act = None) \<longrightarrow> pristine (snd (snd (CloseApp env a w))))
      \<and> (\<forall>p. p \<noteq> c_KeylogPath (a_cfg a) \<and> (Retain (a_retention a) \<or> p \<noteq> Run (a_retention a))
           \<longrightarrow> wd_fs (snd (snd (CloseApp env a w))) p = wd_fs w p)
      \<and> (e_remove env (c_KeylogPath (a_cfg a)) = None \<and> c_KeylogPath (a_cfg a) \<noteq> []
           \<longrightarrow> wd_fs (snd (snd (CloseApp env a w))) (c_KeylogPath (a_cfg a)) = None)
      \<and> (e_remove env (Run (a_retention a)) = None \<and> \<not> Retain (a_retention a) \<and> Run (a_retention a) \<noteq> []
           \<longrightarrow> wd_fs (snd (snd (CloseApp env a w))) (Run (a_retention a)) = None))"
proof (intro conjI impI allI)
  assume "Start env cfg w0 = (Inr a, w) \<and> pristine w0"
  then show "tracked a w" using Start_tracked by blast
next
  assume "tracked a w"
  then show "released env (snd (snd (CloseApp env a w)))" by (rule CloseApp_released)
  then show "pristine (snd (snd (CloseApp env a w)))" if "\<forall>act. e_closeLoader env act = None"
    using that by (rule released_pristine)
next
  fix p assume "p \<noteq> c_KeylogPath (a_cfg a) \<and> (Retain (a_retention a) \<or> p \<noteq> Run (a_retention a))"
  then show "wd_fs (snd (snd (CloseApp env a w))) p = wd_fs w p"
    by (auto simp: CloseApp_fs deleteKeylog_fs Cleanup_fs os_remove_other)
next
  assume "e_remove env (c_KeylogPath (a_cfg a)) = None \<and> c_KeylogPath (a_cfg a) \<noteq> []"
  then show "wd_fs (snd (snd (CloseApp env a w))) (c_KeylogPath (a_cfg a)) = None"
    by (simp add: CloseApp_fs deleteKeylog_fs os_remove_no_fault)
next
  assume "e_remove env (Run (a_retention a)) = None \<and> \<not> Retain (a_retention a) \<and> Run (a_retention a) \<noteq> []"
  then have "snd (Cleanup (e_remove env) (a_retention a) (wd_fs w)) (Run (a_retention a)) = None"
    by (simp add: Cleanup_fs os_remove_no_fault)
  then show "wd_fs (snd (snd (CloseApp env a w))) (Run (a_retention a)) = None"
    using os_remove_gone [of "e_remove env" "c_KeylogPath (a_cfg a)" "snd (Cleanup (e_remove env) (a_retention a) (wd_fs w))" "Run (a_retention a)"]
    by (auto simp: CloseApp_fs deleteKeylog_fs)
qed

lemma close_takes_everything_down_witness:
  "\<exists>a w. Start closing_env closing_config sample_world = (Inr a, w) \<and> wd_objects w = ProxyObjects \<and> wd_relay w \<and> wd_keylog w
     \<and> fst (CloseApp closing_env a w) \<noteq> [] \<and> pristine (snd (snd (CloseApp closing_env a w)))"
proof -
  obtain a w where st: "Start closing_env closing_config sample_world = (Inr a, w)"
      "wd_objects w = ProxyObjects" "wd_relay w" "wd_keylog w" "fst (CloseApp closing_env a w) \<noteq> []"
    using closing_run_starts close_reports_relay [OF _ closing_env_simps(11)] by (metis empty_iff empty_set)
  then show ?thesis
    using close_takes_everything_down [of closing_env closing_config sample_world a w] pristine_sample
    by (auto simp: closing_env_simps)
qed

end
