(* ===== verification/Max_Bytes.thy ===== *)
theory Max_Bytes
  imports Lifecycle
begin

text \<open>
  The limit \<^verbatim>\<open>--max-bytes\<close> across the components that keep it: the retention measures the
  finished captures, the application turns what they leave into the room of this run's
  capture, and the capture writer stays within its room. Here they run together: writer
  steps, retention passes and files deleted from outside, in any order. \<open>Sidecar_Properties\<close> states
  the limit for the whole sidecar.
\<close>

section \<open>What the finished captures hold\<close>

definition finished_paths :: "retention \<Rightarrow> filesystem \<Rightarrow> string set" where
  "finished_paths r fs = {p. \<exists>bytes mtime. finished_capture r fs p bytes mtime}"

definition node_bytes :: "fnode option \<Rightarrow> int" where
  "node_bytes x = (case x of Some (Regular bytes _) \<Rightarrow> int bytes | _ \<Rightarrow> 0)"

definition finished_bytes :: "retention \<Rightarrow> filesystem \<Rightarrow> int" where
  "finished_bytes r fs = (\<Sum>p \<in> finished_paths r fs. node_bytes (fs p))"

lemma node_bytes_nonneg: "0 \<le> node_bytes x"
  by (auto simp: node_bytes_def split: option.splits fnode.splits)

lemma finished_bytes_nonneg: "0 \<le> finished_bytes r fs"
  unfolding finished_bytes_def by (rule sum_nonneg) (rule node_bytes_nonneg)

lemma finished_capture_node: "finished_capture r fs p bytes mtime \<Longrightarrow> fs p = Some (Regular bytes mtime)"
  by (cases "splitTemplate (Template r)") (auto simp: finished_capture_def)

lemma distinct_map_filter_paths:
  assumes "\<And>e f. e \<in> set es \<Longrightarrow> g e = Some f \<Longrightarrow> path_base (rf_path f) = fst e" "distinct (map fst es)"
  shows "distinct (map rf_path (List.map_filter g es))"
  using assms
proof (induction es)
  case (Cons e es)
  then have IH: "distinct (map rf_path (List.map_filter g es))" by simp
  show ?case
  proof (cases "g e")
    case (Some f)
    have "rf_path f \<notin> rf_path ` set (List.map_filter g es)"
    proof
      assume "rf_path f \<in> rf_path ` set (List.map_filter g es)"
      then obtain e' f' where "e' \<in> set es" "g e' = Some f'" "rf_path f' = rf_path f"
        by (auto simp: in_map_filter)
      then have "fst e' = fst e" using Cons.prems(1) [of e' f'] Cons.prems(1) [of e f] Some by simp
      then have "fst e \<in> fst ` set es" using \<open>e' \<in> set es\<close> by (metis imageI)
      then show False using Cons.prems(2) by simp
    qed
    then show ?thesis using IH Some by (simp add: List.map_filter_simps)
  qed (use IH in \<open>simp add: List.map_filter_simps\<close>)
qed (simp add: List.map_filter_simps)

lemma finished_total:
  assumes "file_template (Template r)" "lists_dir (path_dir (Template r)) fs es" "distinct (map fst es)"
    "finished r (Inr es) = Inr fls"
  shows "owned_total fls = finished_bytes r fs" "finite (finished_paths r fs)"
proof -
  obtain dir stem ext where t: "splitTemplate (Template r) = (dir, stem, ext)" using prod_cases3 by blast
  note parts = splitTemplate_parts [OF assms(1) t]
  have ld: "lists_dir dir fs es" using assms(2) parts(1) by simp
  note mem = finished_captures [OF assms(1) t ld assms(4)]
  have fls: "fls = List.map_filter (finished_entry r dir stem ext) es"
    using t assms(4) by (simp add: finished_def)
  have dist: "distinct (map rf_path fls)"
    unfolding fls
  proof (rule distinct_map_filter_paths [OF _ assms(3)])
    fix e f assume e: "finished_entry r dir stem ext e = Some f"
    then have "owned stem ext (fst e)" "rf_path f = path_join dir (fst e)"
      by (cases e, auto simp: finished_entry_iff)+
    then show "path_base (rf_path f) = fst e"
      using path_base_join [of dir "fst e"] owned_plain [OF parts(2,3)] parts(1) by (simp add: path_dir_not_Nil)
  qed
  have paths: "rf_path ` set fls = finished_paths r fs"
  proof (intro set_eqI iffI)
    fix p assume "p \<in> finished_paths r fs"
    then obtain bytes mtime where "finished_capture r fs p bytes mtime" by (auto simp: finished_paths_def)
    then have "\<lparr>rf_path = p, rf_size = int bytes, rf_modTime = mtime\<rparr> \<in> set fls" by (simp add: mem)
    then show "p \<in> rf_path ` set fls" by force
  next
    fix p assume "p \<in> rf_path ` set fls"
    then obtain f where "f \<in> set fls" "p = rf_path f" by blast
    then obtain bytes where "finished_capture r fs p bytes (rf_modTime f)" using mem [of f] by auto
    then show "p \<in> finished_paths r fs" unfolding finished_paths_def by blast
  qed
  have sizes: "rf_size f = node_bytes (fs (rf_path f))" if "f \<in> set fls" for f
    using that by (auto simp: mem node_bytes_def dest!: finished_capture_node)
  have "owned_total fls = (\<Sum>f \<in> set fls. rf_size f)"
    unfolding owned_total_def using dist by (simp add: sum_list_distinct_conv_sum_set distinct_map)
  also have "\<dots> = (\<Sum>f \<in> set fls. node_bytes (fs (rf_path f)))" by (simp add: sizes)
  also have "\<dots> = finished_bytes r fs"
    unfolding finished_bytes_def paths [symmetric]
    using dist by (simp add: sum.reindex distinct_map)
  finally show "owned_total fls = finished_bytes r fs" .
  show "finite (finished_paths r fs)" unfolding paths [symmetric] by simp
qed

text \<open>Deleting files never adds to what the finished captures hold.\<close>

lemma finished_shrinks:
  assumes "\<And>p. fs' p = fs p \<or> fs' p = None" "finite (finished_paths r fs)"
  shows "finished_bytes r fs' \<le> finished_bytes r fs" "finite (finished_paths r fs')"
proof -
  have kept: "fs' p = fs p" if "finished_capture r fs' p b m" for p b m
    using assms(1) [of p] that by (auto simp: finished_capture_def split: prod.splits)
  have sub: "finished_paths r fs' \<subseteq> finished_paths r fs"
    using kept unfolding finished_paths_def finished_capture_def by (fastforce split: prod.splits)
  then show fin: "finite (finished_paths r fs')" using assms(2) finite_subset by blast
  have "finished_bytes r fs' = (\<Sum>p \<in> finished_paths r fs'. node_bytes (fs p))"
    unfolding finished_bytes_def by (rule sum.cong) (auto simp: finished_paths_def dest: kept)
  also have "\<dots> \<le> finished_bytes r fs"
    unfolding finished_bytes_def using assms(2) sub by (rule sum_mono2) (rule node_bytes_nonneg)
  finally show "finished_bytes r fs' \<le> finished_bytes r fs" .
qed

text \<open>The file a run creates is not one of them.\<close>

lemma finished_created:
  assumes "file_template (Template r)" "Run r = []" "clean path = path" "finite (finished_paths r fs)"
  shows "finished_bytes (r\<lparr>Run := path\<rparr>) (fs(path \<mapsto> n)) \<le> finished_bytes r fs"
    "finite (finished_paths (r\<lparr>Run := path\<rparr>) (fs(path \<mapsto> n)))"
proof -
  obtain dir stem ext where t: "splitTemplate (Template r) = (dir, stem, ext)" using prod_cases3 by blast
  note parts = splitTemplate_parts [OF assms(1) t]
  have dot: "path_join dir name \<noteq> clean []" if "owned stem ext name" for name
  proof
    have nm: "plain_comp name" by (rule owned_plain [OF parts(2,3) that])
    have "path_base (clean []) = ''.''" by code_simp
    moreover have "path_base (path_join dir name) = name"
      using path_base_join nm parts(1) by (simp add: path_dir_not_Nil)
    moreover assume "path_join dir name = clean []"
    ultimately have "name = ''.''" by simp
    with nm show False by (simp add: plain_comp_def)
  qed
  have sub: "finished_paths (r\<lparr>Run := path\<rparr>) (fs(path \<mapsto> n)) \<subseteq> finished_paths r fs - {path}"
    using dot by (auto simp: finished_paths_def finished_capture_def t assms(2,3) split: if_splits)
  then show "finite (finished_paths (r\<lparr>Run := path\<rparr>) (fs(path \<mapsto> n)))"
    using assms(4) finite_subset by blast
  have "finished_bytes (r\<lparr>Run := path\<rparr>) (fs(path \<mapsto> n)) = (\<Sum>p \<in> finished_paths (r\<lparr>Run := path\<rparr>) (fs(path \<mapsto> n)). node_bytes (fs p))"
    unfolding finished_bytes_def using sub by (intro sum.cong) auto
  also have "\<dots> \<le> finished_bytes r fs"
    unfolding finished_bytes_def using assms(4) sub by (intro sum_mono2) (auto intro: node_bytes_nonneg)
  finally show "finished_bytes (r\<lparr>Run := path\<rparr>) (fs(path \<mapsto> n)) \<le> finished_bytes r fs" .
qed

section \<open>A run against the limit\<close>

text \<open>
  What reading the capture directory has to answer: an error, or the entries that are there,
  each once; \<^verbatim>\<open>ENOENT\<close> only when the directory holds none.
\<close>

definition honest_listing :: "env \<Rightarrow> string \<Rightarrow> bool" where
  "honest_listing env dir \<longleftrightarrow>
     (\<forall>fs es. e_readDir env fs = Inr es \<longrightarrow> lists_dir dir fs es \<and> distinct (map fst es)) \<and>
     (\<forall>fs. e_readDir env fs = Inl ENOENT \<longrightarrow> lists_dir dir fs [])"

lemma honest_total:
  assumes "honest_listing env (path_dir (Template r))" "file_template (Template r)" "finished r (e_readDir env fs) = Inr fls"
  shows "owned_total fls = finished_bytes r fs" "finite (finished_paths r fs)"
proof -
  obtain es where "lists_dir (path_dir (Template r)) fs es" "distinct (map fst es)" "finished r (Inr es) = Inr fls"
  proof (cases "e_readDir env fs")
    case (Inl e)
    with assms(3) have "e = ENOENT" "fls = []" by (auto simp: finished_def split: prod.splits if_splits)
    moreover have "finished r (Inr []) = Inr []" by (simp add: finished_def List.map_filter_simps split: prod.splits)
    ultimately show thesis using that [of "[]"] assms(1) Inl by (simp add: honest_listing_def)
  next
    case (Inr es)
    then show thesis using that [of es] assms(1,3) by (simp add: honest_listing_def)
  qed
  then show "owned_total fls = finished_bytes r fs" "finite (finished_paths r fs)"
    using finished_total [OF assms(2)] by blast+
qed

text \<open>
  A run of an application with a capture: the writer's own steps, on packets and lines a
  machine can hold (only a retention pass sets the room), passes of the retention, and
  deletions by anyone else.
\<close>

datatype limit_event = WriterStep "wevent \<times> stop_info list" | RetentionPass time | Deletions

fun sized_event :: "wevent \<Rightarrow> bool" where
  "sized_event (EvPacket _ _ data) \<longleftrightarrow> small (length data)"
| "sized_event (EvSecret line) \<longleftrightarrow> small (length line + 1)"
| "sized_event (EvSetRoom _) \<longleftrightarrow> False"
| "sized_event _ \<longleftrightarrow> True"

inductive limit_step :: "env \<Rightarrow> app \<times> world \<Rightarrow> limit_event \<Rightarrow> app \<times> world \<Rightarrow> bool" for env where
  writer: "a_capW a = Some cw \<Longrightarrow> wstep (e_ng env) cw ev cw' \<Longrightarrow> sized_event (fst ev) \<Longrightarrow>
    limit_step env (a, w) (WriterStep ev) (a\<lparr>a_capW := Some cw'\<rparr>, w)"
| pass: "limit_step env (a, w) (RetentionPass now) (enforceRetention env now (a, w))"
| deletions: "(\<And>p. fs p = wd_fs w p \<or> fs p = None) \<Longrightarrow> limit_step env (a, w) Deletions (a, w\<lparr>wd_fs := fs\<rparr>)"

text \<open>The invariant: the room, and what was admitted, fit what the finished captures leave.\<close>

definition within_limit :: "(ng_call \<Rightarrow> nat) \<Rightarrow> int \<Rightarrow> string \<Rightarrow> app \<times> world \<Rightarrow> bool" where
  "within_limit sz m template aw \<longleftrightarrow>
     (let r = a_retention (fst aw); fs = wd_fs (snd aw) in
      Template r = template \<and> MaxBytes r = m \<and> finite (finished_paths r fs)
      \<and> (\<exists>cw. a_capW (fst aw) = Some cw \<and> room_ok sz (m - finished_bytes r fs) cw))"

lemma room_ok_mono: "room_ok sz R w \<Longrightarrow> R \<le> R' \<Longrightarrow> room_ok sz R' w"
  by (auto simp: room_ok_def)

lemma sized_event_ok: "sized_event ev \<Longrightarrow> event_ok R ev"
  by (cases ev) simp_all

lemma room_ok_SetRoom: "room_ok sz R w \<Longrightarrow> r \<le> R \<Longrightarrow> room_ok sz R (SetRoom r w)"
  by (auto simp: room_ok_def SetRoom_def file_size_def queued_size_def)

lemma within_limit_shrinks:
  assumes "within_limit sz m t (a, w)" "\<And>p. fs p = wd_fs w p \<or> fs p = None"
  shows "within_limit sz m t (a, w\<lparr>wd_fs := fs\<rparr>)"
proof -
  obtain cw where cw: "a_capW a = Some cw" "room_ok sz (m - finished_bytes (a_retention a) (wd_fs w)) cw"
    and fin: "finite (finished_paths (a_retention a) (wd_fs w))"
    using assms(1) by (auto simp: within_limit_def Let_def)
  note sh = finished_shrinks [OF assms(2) fin]
  have "room_ok sz (m - finished_bytes (a_retention a) fs) cw"
    by (rule room_ok_mono [OF cw(2)]) (use sh(1) in simp)
  with assms(1) cw(1) sh(2) show ?thesis by (simp add: within_limit_def Let_def)
qed

lemma within_limit_pass:
  assumes "within_limit sz m t (a, w)" "honest_listing env (path_dir t)" "file_template t" "0 < m" "m \<le> 2 ^ 62"
  shows "within_limit sz m t (enforceRetention env now (a, w))"
proof -
  define r where "r = a_retention a"
  define fs where "fs = snd (Enforce (e_remove env) now r (e_readDir env (wd_fs w)) (wd_fs w))"
  have "within_limit sz m t (a, w\<lparr>wd_fs := fs\<rparr>)"
    by (rule within_limit_shrinks [OF assms(1)]) (simp add: fs_def Enforce_only)
  then obtain cw where inv: "Template r = t" "MaxBytes r = m" "finite (finished_paths r fs)" "a_capW a = Some cw"
      "room_ok sz (m - finished_bytes r fs) cw"
    by (auto simp: within_limit_def Let_def r_def)
  then have le: "finished_bytes r fs \<le> m" by (auto simp: room_ok_def)
  have "room_ok sz (m - finished_bytes r fs) (SetRoom left cw)" if left: "RetentionRoom r (e_readDir env fs) = (left, None)" for left
  proof -
    obtain fls where fls: "finished r (e_readDir env fs) = Inr fls"
      using left assms(4) inv(2) by (auto simp: RetentionRoom_def OwnedBytes_def Let_def split: sum.splits)
    have tot: "owned_total fls = finished_bytes r fs"
      using honest_total(1) [of env r fs fls] assms(2,3) fls inv(1) by simp
    have "RetentionRoom r (e_readDir env fs) = (MaxBytes r - owned_total fls, None)"
      by (rule RetentionRoom_exact [OF fls]) (use inv(2) assms(4,5) le tot in simp_all)
    then have "left = m - finished_bytes r fs" using left inv(2) tot by simp
    then show ?thesis using inv(5) by (simp add: room_ok_SetRoom)
  qed
  then show ?thesis
    using inv by (auto simp: enforceRetention_def Let_def within_limit_def r_def [symmetric] fs_def [symmetric]
        split: prod.split option.split)
qed

lemma within_limit_step:
  assumes "limit_step env aw ev aw'" "within_limit sz m t aw" "pcapgo_sizes sz" "honest_listing env (path_dir t)"
    "file_template t" "0 < m" "m \<le> 2 ^ 62"
  shows "within_limit sz m t aw'"
  using assms(1,2)
proof (induction rule: limit_step.induct)
  case (writer a cw ev cw' w)
  have ok: "room_ok sz (m - finished_bytes (a_retention a) (wd_fs w)) cw"
    using writer(1,4) by (auto simp: within_limit_def Let_def)
  have "room_ok sz (m - finished_bytes (a_retention a) (wd_fs w)) cw'"
    by (rule wstep_room [OF writer(2) sized_event_ok [OF writer(3)] assms(3) _ ok])
      (use assms(7) finished_bytes_nonneg [of "a_retention a" "wd_fs w"] in linarith)
  with writer(4) show ?case by (auto simp: within_limit_def Let_def)
next
  case (pass a w now)
  then show ?case using assms(4-7) by (intro within_limit_pass)
next
  case (deletions fs w a)
  then show ?case by (intro within_limit_shrinks)
qed

lemma within_limit_run:
  assumes "run (limit_step env) aw evs aw'" "within_limit sz m t aw" "pcapgo_sizes sz" "honest_listing env (path_dir t)"
    "file_template t" "0 < m" "m \<le> 2 ^ 62"
  shows "within_limit sz m t aw'"
  using assms(1,2)
proof (induction rule: run.induct)
  case (run_Cons s e s' es u)
  have "within_limit sz m t s'" by (rule within_limit_step [OF run_Cons.hyps(1) run_Cons.prems assms(3-7)])
  then show ?case by (rule run_Cons.IH)
qed

text \<open>The retention ticker is such a run.\<close>

lemma enforceRetentionPeriodically_run:
  assumes "enforceRetentionPeriodically env ts (a, w) = (ended, a', w')"
  shows "\<exists>nows. run (limit_step env) (a, w) (map RetentionPass nows) (a', w')"
  using assms
proof (induction ts arbitrary: a w)
  case Nil
  then show ?case by (intro exI [of _ "[]"]) simp
next
  case (Cons t ts)
  show ?case
  proof (cases t)
    case (Tick now)
    obtain a1 w1 where s: "enforceRetention env now (a, w) = (a1, w1)" by fastforce
    then obtain nows where "run (limit_step env) (a1, w1) (map RetentionPass nows) (a', w')"
      using Cons by (auto simp: Tick)
    then show ?thesis
      using limit_step.pass [of env a w now] s by (intro exI [of _ "now # nows"]) (auto intro: run_Cons)
  next
    case StopTick
    then show ?thesis using Cons.prems by (intro exI [of _ "[]"]) simp
  qed
qed

text \<open>A capture that \<open>openCapture\<close> starts is within the limit.\<close>

lemma openCapture_started:
  assumes "openCapture env (a, w) = (None, a', w')" "a_capW a = None" "a_capW a' = Some cw"
    "r = capture_retention (a_cfg a)" "fs = swept env (a_cfg a) (wd_fs w)"
  obtains left where "RetentionRoom r (e_readDir env fs) = (left, None)"
    "0 < c_MaxBytes (a_cfg a) \<longrightarrow> HeaderSize (e_header env) (capture_options left) \<le> left"
    "CreateRunCapture (e_create env) (e_header env) (e_now env) (c_CapturePath (a_cfg a)) (capture_options left) fs = (Inr cw, wd_fs w')"
    "a_retention a' = r\<lparr>Run := w_path cw\<rparr>"
  using assms(4,5) by (cases rule: openCapture_cases [consumes 2]) (use assms(1-3) in auto)

lemma finite_finished: "finite (dom fs) \<Longrightarrow> finite (finished_paths r fs)"
  by (rule finite_subset [where B = "dom fs"]) (auto simp: finished_paths_def dest!: finished_capture_node)

lemma openCapture_within_limit:
  assumes "openCapture env (a0, w0) = (None, a, w)" "a_capW a0 = None" "a_capW a = Some cw"
    "m = c_MaxBytes (a_cfg a0)" "t = c_CapturePath (a_cfg a0)" "0 < m" "m \<le> 2 ^ 62" "file_template t" "honest_listing env (path_dir t)"
    "finite (dom (wd_fs w0))" "finished_bytes ((a_retention a)\<lparr>Run := []\<rparr>) (wd_fs w0) \<le> max_i64" "0 \<le> time_unix (e_now env)"
    "pcapgo_sizes sz" "sz (NgNewWriter 1) \<le> e_header env 1" "0 < e_header env 1"
  shows "within_limit sz m t (a, w)"
proof -
  define r where "r = capture_retention (a_cfg a0)"
  define fs where "fs = swept env (a_cfg a0) (wd_fs w0)"
  have r: "Template r = t" "Run r = []" "MaxBytes r = m" using assms(4,5) by (simp_all add: r_def capture_retention_def)
  obtain left where left: "RetentionRoom r (e_readDir env fs) = (left, None)"
      "HeaderSize (e_header env) (capture_options left) \<le> left"
      "CreateRunCapture (e_create env) (e_header env) (e_now env) t (capture_options left) fs = (Inr cw, wd_fs w)"
      "a_retention a = r\<lparr>Run := w_path cw\<rparr>"
    using openCapture_started [OF assms(1-3) r_def fs_def] assms(4-6) by metis
  note fs_def' = fs_def [unfolded swept_def, folded r_def]
  note shrunk = finished_shrinks [OF Enforce_only [of "e_remove env" "e_enforceAt env" r "e_readDir env (wd_fs w0)" "wd_fs w0", folded fs_def']
      finite_finished [OF assms(10)]]
  have "(a_retention a)\<lparr>Run := []\<rparr> = r" using left(4) r by simp
  with assms(11) have "finished_bytes r (wd_fs w0) \<le> max_i64" by simp
  then have small: "finished_bytes r fs \<le> max_i64" using shrunk(1) [of r] by linarith
  obtain fls where fls: "finished r (e_readDir env fs) = Inr fls"
    using left(1) assms(6) by (auto simp: RetentionRoom_def OwnedBytes_def Let_def r split: sum.splits)
  have tot: "owned_total fls = finished_bytes r fs"
    using honest_total(1) [of env r fs fls] assms(8,9) fls by (simp add: r)
  have room: "left = m - finished_bytes r fs"
    using RetentionRoom_exact [OF fls] left(1) assms(6,7) small tot by (simp add: r)
  obtain n where cw: "cw = new_writer (e_header env) (run_capture_path (e_now env) t n) (capture_options left)"
      "wd_fs w = fs(run_capture_path (e_now env) t n \<mapsto> Regular 0 (created_at (e_create env)))"
    using left(3) by (cases rule: CreateRunCapture_cases [OF assms(8,12), where env = "e_create env" and hdr = "e_header env"
        and opts = "capture_options left" and fs = fs]) auto
  have path: "clean (w_path cw) = w_path cw" "w_path cw = run_capture_path (e_now env) t n"
    using splitTemplate_parts(1) [OF assms(8)]
    by (auto simp: cw(1) new_writer_def run_capture_path_def path_join_clean path_dir_not_Nil split: prod.splits)
  note made = finished_created [of r "w_path cw" fs "Regular 0 (created_at (e_create env))"]
  have made: "finished_bytes (a_retention a) (wd_fs w) \<le> finished_bytes r fs" "finite (finished_paths (a_retention a) (wd_fs w))"
    using made assms(8) path shrunk(2) unfolding left(4) cw(2) path(2) [symmetric] by (simp_all add: r)
  have "room_ok sz left cw"
    unfolding cw(1) using left(2) assms(13-15) by (intro room_ok_new) (simp_all add: HeaderSize_def linkType_def)
  then have "room_ok sz (m - finished_bytes (a_retention a) (wd_fs w)) cw"
    by (rule room_ok_mono) (use room made(1) in simp)
  then show ?thesis using made(2) assms(3) left(4) by (simp add: within_limit_def r)
qed

section \<open>Properties\<close>

text \<open>
  The captures together never pass \<^verbatim>\<open>--max-bytes\<close>. From the moment \<open>openCapture\<close> starts a
  capture, through any sequence of packets, secrets, drains, retention passes and deletions
  from outside, the bytes in this run's file, with those of everything queued for it, and the
  bytes of all finished captures in the directory add up to at most the limit.
\<close>

theorem captures_within_max_bytes:
  assumes "openCapture env (a0, w0) = (None, a, w)" "a_capW a0 = None" "a_capW a = Some cw0"
    "m = c_MaxBytes (a_cfg a0)" "t = c_CapturePath (a_cfg a0)" "0 < m" "m \<le> 2 ^ 62" "file_template t" "honest_listing env (path_dir t)"
    "finite (dom (wd_fs w0))" "finished_bytes ((a_retention a)\<lparr>Run := []\<rparr>) (wd_fs w0) \<le> max_i64" "0 \<le> time_unix (e_now env)"
    "pcapgo_sizes sz" "sz (NgNewWriter 1) \<le> e_header env 1" "0 < e_header env 1"
    "run (limit_step env) (a, w) evs (a', w')"
  shows "\<exists>cw. a_capW a' = Some cw
    \<and> int (file_size sz cw + queued_size cw) + finished_bytes (a_retention a') (wd_fs w') \<le> m"
proof -
  have "within_limit sz m t (a', w')"
    by (rule within_limit_run [OF assms(16) openCapture_within_limit [OF assms(1-15)] assms(13,9,8,6,7)])
  then show ?thesis by (auto simp: within_limit_def Let_def room_ok_def)
qed

definition limit_env :: env where
  "limit_env = sample_app_env\<lparr>e_readDir := (\<lambda>fs. if fs = Map.empty then Inr [] else Inl (Errno 5))\<rparr>"

definition limit_app :: app where
  "limit_app = new_app (sample_config\<lparr>c_CapturePath := ''/v/d.p''\<rparr>)"

lemma limit_env_honest: "honest_listing limit_env dir"
  by (simp add: honest_listing_def limit_env_def sample_app_env_def lists_dir_def)

lemma limit_capture_starts:
  "\<exists>a w cw. openCapture limit_env (limit_app, sample_world) = (None, a, w) \<and> a_capW a = Some cw"
proof -
  define opts where "opts = \<lparr>LinkType = 0, Room = 104857600, OnStop = True\<rparr>"
  have "no_faults sample_env" by (simp add: no_faults_def sample_env_def)
  then have cr: "CreateRunCapture sample_env (\<lambda>_. 100) sample_now ''/v/d.p'' opts Map.empty =
      (Inr (new_writer (\<lambda>_. 100) (run_capture_path sample_now ''/v/d.p'' 0) opts),
       Map.empty(run_capture_path sample_now ''/v/d.p'' 0 \<mapsto> Regular 0 (created_at sample_env)))"
    using sample_template by (intro CreateRunCapture_lowest) simp_all
  define r where "r = \<lparr>Template = ''/v/d.p'', Run = [], MaxBytes = 104857600, MaxAge = 86400 * ns_second, Retain = False\<rparr>"
  have fin: "finished r (Inr []) = Inr []"
    by (simp add: finished_def List.map_filter_simps split: prod.split)
  have "Enforce flt now r (Inr []) Map.empty = ([], Map.empty)" for flt now
    by (simp add: Enforce_def fin)
  moreover have "RetentionRoom r (Inr []) = (104857600, None)"
    using RetentionRoom_exact [OF fin] by (simp add: r_def owned_total_def)
  moreover have "CheckTarget (Inr 448) = None" by code_simp
  ultimately show ?thesis
    using cr by (simp add: openCapture_def limit_env_def limit_app_def sample_app_env_def sample_world_def new_app_def sample_config_def
        DefaultConfig_def Let_def r_def [symmetric] opts_def [symmetric])
      (simp add: opts_def HeaderSize_def)
qed

lemma captures_within_max_bytes_witness:
  "\<exists>a w cw. openCapture limit_env (limit_app, sample_world) = (None, a, w)
     \<and> a_capW (fst (enforceRetention limit_env 7 (a, w))) = Some cw
     \<and> int (file_size sample_sz cw + queued_size cw)
         + finished_bytes (a_retention (fst (enforceRetention limit_env 7 (a, w)))) (wd_fs (snd (enforceRetention limit_env 7 (a, w))))
       \<le> 104857600"
proof -
  obtain a w cw where st: "openCapture limit_env (limit_app, sample_world) = (None, a, w)" "a_capW a = Some cw"
    using limit_capture_starts by blast
  have run: "run (limit_step limit_env) (a, w) [RetentionPass 7]
      (fst (enforceRetention limit_env 7 (a, w)), snd (enforceRetention limit_env 7 (a, w)))"
    using limit_step.pass [of limit_env a w 7] by (auto intro: run_Cons)
  have none: "finished_paths r Map.empty = {}" for r
    by (auto simp: finished_paths_def dest: finished_capture_node)
  show ?thesis
    using captures_within_max_bytes [OF st(1) _ st(2) refl refl _ _ _ limit_env_honest _ _ _ pcapgo_sizes_sample _ _ run]
      st(1) sample_template
    by (auto simp: limit_app_def new_app_def sample_config_def DefaultConfig_def limit_env_def sample_app_env_def
        sample_world_def finished_bytes_def none sample_sz_def)
qed

end
