(* ===== verification/Running.thy ===== *)
theory Running
  imports Max_Bytes
begin

text \<open>
  The whole sidecar at work: what its goroutines do between \<^verbatim>\<open>Start\<close> and the end of \<^verbatim>\<open>Close\<close>,
  in any order. A state is the run and the world of \<open>App\<close> with what its goroutines hold, an
  event is one thing one goroutine does, and \<open>sidecar_step\<close> is the state after it, or none when
  it cannot happen. \<^verbatim>\<open>Close\<close> is a sequence of steps of its own, so that connections, packets and
  ticks go on between them.
\<close>

section \<open>State and events\<close>

record sidecar =
  sc_app :: app
  sc_world :: world
  sc_conns :: "nat \<Rightarrow> string list" \<comment> \<open>the lines each keylog connection has still to serve\<close>
  sc_accepted :: nat \<comment> \<open>keylog connections accepted so far\<close>
  sc_sinking :: "string option" \<comment> \<open>a line written to the keylog and about to be handed to the sink\<close>
  sc_reading :: bool \<comment> \<open>the capture goroutine runs\<close>
  sc_missLog :: logger
  sc_out :: "leaf list list" \<comment> \<open>what the relay's callbacks logged\<close>
  sc_closed :: nat \<comment> \<open>the steps of \<^verbatim>\<open>Close\<close> done so far\<close>
  sc_errs :: "close_error option list"

datatype event =
    Packet time capture_info string
  | ReadFails
  | DrainTick time
  | AcceptKeylog string \<comment> \<open>a connection, with all the bytes it sends\<close>
  | KeyLine nat time write_result
  | Sink
  | Client endian client time
  | RetentionTick time
  | StatsTick
  | Deletes "string list" \<comment> \<open>files deleted from outside\<close>
  | CloseStep

text \<open>The run \<^verbatim>\<open>Start\<close> returned, with its goroutines started.\<close>

definition running :: "env \<Rightarrow> app \<Rightarrow> world \<Rightarrow> sidecar" where
  "running env a w =
     \<lparr>sc_app = a, sc_world = w, sc_conns = (\<lambda>_. []), sc_accepted = 0, sc_sinking = None, sc_reading = a_live a,
      sc_missLog = missLog (e_logger env), sc_out = [], sc_closed = 0, sc_errs = []\<rparr>"

section \<open>Steps\<close>

text \<open>The capture's stop callback is \<open>logCaptureStop\<close>.\<close>

definition set_capture :: "cwriter \<Rightarrow> stop_info list \<Rightarrow> sidecar \<Rightarrow> sidecar" where
  "set_capture cw stops s =
     s\<lparr>sc_app := (sc_app s)\<lparr>a_capW := Some cw\<rparr>,
       sc_world := (sc_world s)\<lparr>wd_log := wd_log (sc_world s) @ map (logCaptureStop (sc_app s)) stops\<rparr>\<rparr>"

definition do_packet :: "env \<Rightarrow> time \<Rightarrow> capture_info \<Rightarrow> string \<Rightarrow> sidecar \<Rightarrow> sidecar option" where
  "do_packet env now ci data s =
     (case a_capW (sc_app s) of
        Some cw \<Rightarrow>
          if sc_reading s then
            (let (err, cw', stops) = WritePacket (e_ng env) now ci data cw
             in Some ((set_capture cw' stops s)\<lparr>sc_reading := (err \<noteq> Some ErrStopped)\<rparr>))
          else None
      | None \<Rightarrow> None)"

definition do_drain :: "env \<Rightarrow> time \<Rightarrow> sidecar \<Rightarrow> sidecar option" where
  "do_drain env now s =
     (case a_capW (sc_app s) of
        Some cw \<Rightarrow> if drained cw then None else Some (set_capture (drain_tick (e_ng env) now cw) [] s)
      | None \<Rightarrow> None)"

definition do_accept :: "string \<Rightarrow> sidecar \<Rightarrow> sidecar option" where
  "do_accept bytes s =
     (if wd_keylog (sc_world s) then
        Some (s\<lparr>sc_conns := (sc_conns s)(sc_accepted s := fst (scan_lines max_scan_token_size bytes)),
                sc_accepted := Suc (sc_accepted s)\<rparr>)
      else None)"

text \<open>
  One line of a connection. A well-formed line waits for the keylog's lock, which is held until
  the line before it has reached the sink; once the server is closed, writing its file fails.
\<close>

definition do_line :: "nat \<Rightarrow> time \<Rightarrow> write_result \<Rightarrow> sidecar \<Rightarrow> sidecar option" where
  "do_line i now wr s =
     (case (sc_conns s i, a_keylogSrv (sc_app s)) of
        (line # ls, Some srv) \<Rightarrow>
          if (sc_sinking s = None \<or> ValidateLine line \<noteq> None)
            \<and> (wd_keylog (sc_world s) \<or> (case wr of WriteFail n _ \<Rightarrow> n = 0 | WriteOk \<Rightarrow> False)) then
            (let (srv', acts) = handle_line \<lparr>le_now = now, le_gate = captureActive (sc_app s), le_write = wr\<rparr> line srv
             in Some (s\<lparr>sc_app := (sc_app s)\<lparr>a_keylogSrv := Some srv'\<rparr>, sc_conns := (sc_conns s)(i := ls),
                        sc_sinking := (if SinkCall line \<in> set acts then Some line else sc_sinking s)\<rparr>))
          else None
      | _ \<Rightarrow> None)"

definition do_sink :: "sidecar \<Rightarrow> sidecar option" where
  "do_sink s =
     (case (sc_sinking s, a_capW (sc_app s)) of
        (Some line, Some cw) \<Rightarrow> (let (cw', stops) = AddSecret line cw in Some ((set_capture cw' stops s)\<lparr>sc_sinking := None\<rparr>))
      | _ \<Rightarrow> None)"

fun log_actions :: "env \<Rightarrow> time \<Rightarrow> relay_action list \<Rightarrow> logger \<Rightarrow> leaf list list \<times> logger" where
  "log_actions env now [] ml = ([], ml)"
| "log_actions env now (act # acts) ml =
     (let (out, ml1) = log_relay env now act ml; (outs, ml2) = log_actions env now acts ml1 in (emit out @ outs, ml2))"

text \<open>One client of the relay; one accepted before the listener is closed may be served after it.\<close>

definition do_client :: "env \<Rightarrow> endian \<Rightarrow> client \<Rightarrow> time \<Rightarrow> sidecar \<Rightarrow> sidecar option" where
  "do_client env e c now s =
     (if a_ln (sc_app s) then
        (let (r, acts) = handle e (cl_lookup c) (cl_dial c) newRelay (a_resolver (sc_app s)) (cl_tcp c) (cl_remote c);
             (outs, ml) = log_actions env now acts (sc_missLog s)
         in Some (s\<lparr>sc_app := (sc_app s)\<lparr>a_resolver := r\<rparr>, sc_missLog := ml, sc_out := sc_out s @ outs\<rparr>))
      else None)"

definition do_retention :: "env \<Rightarrow> time \<Rightarrow> sidecar \<Rightarrow> sidecar option" where
  "do_retention env now s =
     (if 0 < c_RetentionTick (a_cfg (sc_app s)) then
        (let (a, w) = enforceRetention env now (sc_app s, sc_world s) in Some (s\<lparr>sc_app := a, sc_world := w\<rparr>))
      else None)"

definition do_stats :: "sidecar \<Rightarrow> sidecar option" where
  "do_stats s =
     (if 0 < c_StatsInterval (a_cfg (sc_app s)) then
        Some (s\<lparr>sc_world := (sc_world s)\<lparr>wd_log := wd_log (sc_world s) @ [logStats (sc_app s)]\<rparr>\<rparr>)
      else None)"

text \<open>
  One step of \<^verbatim>\<open>Close\<close>. Stopping the live capture waits for its goroutine, which is the second.
\<close>

definition do_close :: "env \<Rightarrow> sidecar \<Rightarrow> sidecar option" where
  "do_close env s =
     (if sc_closed s < length (closings env) then
        (let (err, a, w) = (closings env ! sc_closed s) (sc_app s, sc_world s)
         in Some (s\<lparr>sc_app := a, sc_world := w, sc_reading := (sc_reading s \<and> sc_closed s \<noteq> 1),
                    sc_closed := Suc (sc_closed s), sc_errs := sc_errs s @ [err]\<rparr>))
      else None)"

fun sidecar_step :: "env \<Rightarrow> event \<Rightarrow> sidecar \<Rightarrow> sidecar option" where
  "sidecar_step env (Packet now ci data) s = do_packet env now ci data s"
| "sidecar_step env ReadFails s = Some (s\<lparr>sc_reading := False\<rparr>)"
| "sidecar_step env (DrainTick now) s = do_drain env now s"
| "sidecar_step env (AcceptKeylog bytes) s = do_accept bytes s"
| "sidecar_step env (KeyLine i now wr) s = do_line i now wr s"
| "sidecar_step env Sink s = do_sink s"
| "sidecar_step env (Client e c now) s = do_client env e c now s"
| "sidecar_step env (RetentionTick now) s = do_retention env now s"
| "sidecar_step env StatsTick s = do_stats s"
| "sidecar_step env (Deletes paths) s =
     Some (s\<lparr>sc_world := (sc_world s)\<lparr>wd_fs := (\<lambda>p. if p \<in> set paths then None else wd_fs (sc_world s) p)\<rparr>\<rparr>)"
| "sidecar_step env CloseStep s = do_close env s"

text \<open>What happens to a sequence of events: those that cannot happen do not.\<close>

fun serve :: "env \<Rightarrow> event list \<Rightarrow> sidecar \<Rightarrow> sidecar" where
  "serve env [] s = s"
| "serve env (ev # evs) s = serve env evs (case sidecar_step env ev s of Some s' \<Rightarrow> s' | None \<Rightarrow> s)"

text \<open>The steps of \<^verbatim>\<open>Close\<close> that are left.\<close>

definition finish :: "env \<Rightarrow> sidecar \<Rightarrow> sidecar" where
  "finish env s = serve env (replicate (length (closings env) - sc_closed s) CloseStep) s"

lemmas do_defs = do_packet_def do_drain_def do_accept_def do_line_def do_sink_def do_client_def do_retention_def do_stats_def
lemmas step_splits = option.splits list.splits prod.splits if_splits

section \<open>Undisturbed, the steps of a close are the close\<close>

lemma serve_append: "serve env (evs @ evs') s = serve env evs' (serve env evs s)"
  by (induction evs arbitrary: s) simp_all

lemma serve_close_steps:
  assumes "closings env = pre @ cs" "sc_closed s = length pre" "t = serve env (replicate (length cs) CloseStep) s"
  shows "sc_closed t = length (closings env) \<and> (sc_app t, sc_world t) = snd (close_all cs (sc_app s, sc_world s))
    \<and> sc_errs t = sc_errs s @ fst (close_all cs (sc_app s, sc_world s))"
  using assms
proof (induction cs arbitrary: pre s)
  case (Cons c cs)
  obtain err a w where c: "c (sc_app s, sc_world s) = (err, a, w)" by (metis surj_pair)
  define s1 where "s1 = s\<lparr>sc_app := a, sc_world := w, sc_reading := (sc_reading s \<and> sc_closed s \<noteq> 1),
    sc_closed := Suc (sc_closed s), sc_errs := sc_errs s @ [err]\<rparr>"
  have "do_close env s = Some s1" using Cons.prems c by (simp add: do_close_def s1_def)
  then have t: "t = serve env (replicate (length cs) CloseStep) s1" using Cons.prems(3) by simp
  have s1: "sc_closed s1 = length (pre @ [c])" "sc_app s1 = a" "sc_world s1 = w" "sc_errs s1 = sc_errs s @ [err]"
    using Cons.prems(2) by (simp_all add: s1_def)
  have "closings env = (pre @ [c]) @ cs" using Cons.prems(1) by simp
  from Cons.IH [OF this s1(1) t] show ?case using c s1 by (simp add: Let_def case_prod_beta)
qed simp

lemma close_steps_are_CloseApp:
  assumes "s = finish env (running env a w)"
  shows "CloseApp env a w = (errors_join (sc_errs s), sc_app s, sc_world s)"
  using serve_close_steps [of env "[]" "closings env" "running env a w"] assms
  by (auto simp: CloseApp_def running_def finish_def case_prod_beta)

section \<open>What the events leave alone\<close>

text \<open>What a run holds; only a step of \<^verbatim>\<open>Close\<close> changes it.\<close>

definition holdings ::
  "sidecar \<Rightarrow> (config \<times> loader option \<times> bool \<times> bool \<times> bool \<times> retention \<times> bool \<times> bool)
    \<times> (bpf_link list \<times> bpf_object list \<times> bpf_map_id list \<times> bool \<times> bool \<times> bool \<times> bool \<times> bool)" where
  "holdings s =
     (let a = sc_app s; w = sc_world s in
      ((a_cfg a, a_loader a, a_ln a, a_live a, a_stopTick a, a_retention a, a_capW a = None, a_keylogSrv a = None),
       (wd_links w, wd_objects w, wd_pins w, wd_pinDir w, wd_relay w, wd_keylog w, wd_capture w, wd_live w)))"

lemma Enforce_no_new_files: "no_new_files fs (snd (Enforce flt now r lst fs))"
  by (simp add: no_new_files_def Enforce_only)

lemma enforceRetention_keeps:
  assumes "enforceRetention env now (a, w) = (a', w')"
  shows "a' = a\<lparr>a_capW := a_capW a'\<rparr>
      \<and> (a_capW a' = a_capW a \<or> (\<exists>cw left. a_capW a = Some cw \<and> a_capW a' = Some (SetRoom left cw)))"
    "w' = w\<lparr>wd_fs := wd_fs w'\<rparr> \<and> no_new_files (wd_fs w) (wd_fs w')"
  using assms by (auto simp: enforceRetention_def Let_def Enforce_no_new_files split: prod.splits option.splits)

lemma step_keeps:
  assumes "sidecar_step env ev s = Some s'" "ev \<noteq> CloseStep"
  shows "holdings s' = holdings s" "sc_closed s' = sc_closed s" "sc_errs s' = sc_errs s"
    "no_new_files (wd_fs (sc_world s)) (wd_fs (sc_world s'))"
proof -
  have all: "holdings s' = holdings s \<and> sc_closed s' = sc_closed s \<and> sc_errs s' = sc_errs s
      \<and> no_new_files (wd_fs (sc_world s)) (wd_fs (sc_world s'))"
  proof (cases ev)
    case (RetentionTick now)
    obtain a w where r: "enforceRetention env now (sc_app s, sc_world s) = (a, w)" by fastforce
    note keeps = enforceRetention_keeps [OF r]
    have "s' = s\<lparr>sc_app := a, sc_world := w\<rparr>"
      using assms(1) r by (auto simp: RetentionTick do_retention_def split: if_splits)
    then show ?thesis
      using keeps by (cases a, cases w) (auto simp: holdings_def Let_def)
  qed (use assms in \<open>auto simp: do_defs set_capture_def holdings_def Let_def no_new_files_def split: step_splits\<close>)
  then show "holdings s' = holdings s" "sc_closed s' = sc_closed s" "sc_errs s' = sc_errs s"
    "no_new_files (wd_fs (sc_world s)) (wd_fs (sc_world s'))" by blast+
qed

section \<open>Closing, step by step\<close>

text \<open>
  What the steps of \<^verbatim>\<open>Close\<close> done so far have released, whatever happened between them. The third
  to seventh are those of the live capture, the capture, the keylog server, the relay and the
  loader; then the capture and the keylog files go.
\<close>

definition closing_ok :: "env \<Rightarrow> sidecar \<Rightarrow> bool" where
  "closing_ok env s \<longleftrightarrow>
     (let a = sc_app s; w = sc_world s; n = sc_closed s; r = a_retention a; k = c_KeylogPath (a_cfg a) in
      tracked a w \<and> n \<le> 8 \<and> length (sc_errs s) = n
      \<and> (1 < n \<longrightarrow> \<not> wd_live w) \<and> (2 < n \<longrightarrow> \<not> wd_capture w) \<and> (3 < n \<longrightarrow> \<not> wd_keylog w) \<and> (4 < n \<longrightarrow> \<not> wd_relay w)
      \<and> (5 < n \<longrightarrow> wd_links w = [] \<and> (\<forall>m \<in> set (wd_pins w). e_closeLoader env (Unpin m) \<noteq> None)
            \<and> (\<forall>obj \<in> set (wd_objects w). obj \<notin> set (upto_failure (\<lambda>obj. e_closeLoader env (CloseObject obj)) ProxyObjects)))
      \<and> (6 < n \<and> e_remove env (Run r) = None \<and> \<not> Retain r \<and> Run r \<noteq> [] \<longrightarrow> wd_fs w (Run r) = None)
      \<and> (7 < n \<and> e_remove env k = None \<and> k \<noteq> [] \<longrightarrow> wd_fs w k = None))"

lemma closing_ok_event:
  assumes "sidecar_step env ev s = Some s'" "ev \<noteq> CloseStep" "closing_ok env s"
  shows "closing_ok env s'"
proof -
  note keeps = step_keeps [OF assms(1,2)]
  have gone: "wd_fs (sc_world s) p = None \<Longrightarrow> wd_fs (sc_world s') p = None" for p
    using keeps(4) by (simp add: no_new_files_def) metis
  show ?thesis
    using assms(3) keeps(1-3) gone by (simp add: closing_ok_def tracked_def holdings_def Let_def del: not_None_eq)
qed

lemma closings_length: "length (closings env) = 8"
  by (simp add: closings_def)

lemma closings_nth:
  "closings env ! 0 = close_ticks" "closings env ! Suc 0 = close_live env" "closings env ! 2 = close_capture env"
  "closings env ! 3 = close_keylog env" "closings env ! 4 = close_relay env" "closings env ! 5 = close_loader env"
  "closings env ! 6 = close_cleanup env" "closings env ! 7 = close_keylogFile env"
  by (simp_all add: closings_def)

lemma do_close_result:
  assumes "do_close env s = Some s'"
  shows "sc_closed s < 8" "sc_closed s' = Suc (sc_closed s)" "length (sc_errs s') = Suc (length (sc_errs s))"
    "(sc_app s', sc_world s') = snd ((closings env ! sc_closed s) (sc_app s, sc_world s))"
  using assms by (auto simp: do_close_def closings_length split: if_splits prod.splits)

lemma less_8: "n < (8 :: nat) \<Longrightarrow> n = 0 \<or> n = 1 \<or> n = 2 \<or> n = 3 \<or> n = 4 \<or> n = 5 \<or> n = 6 \<or> n = 7"
  by auto

lemma closing_ok_close:
  assumes "do_close env s = Some s'" "closing_ok env s"
  shows "closing_ok env s'"
proof -
  define a where "a = sc_app s"
  define w where "w = sc_world s"
  note res = do_close_result [OF assms(1), folded a_def w_def]
  have ok: "closing_ok env s" by (rule assms(2))
  obtain dir where loader: "snd (close_loader env (a, w)) =
      (a\<lparr>a_loader := map_option (\<lambda>l. l\<lparr>ld_links := []\<rparr>) (a_loader a)\<rparr>,
       w\<lparr>wd_links := filter (\<lambda>k. k \<notin> own_links a) (wd_links w),
         wd_objects := filter (\<lambda>obj. obj \<notin> own_objects env a) (wd_objects w),
         wd_pins := filter (\<lambda>m. m \<notin> own_pins env a) (wd_pins w), wd_pinDir := dir\<rparr>)"
    using close_loader_result by blast
  have tr: "tracked a w" using ok by (simp add: closing_ok_def Let_def a_def w_def)
  note links = tracked_links [OF tr]
  consider "sc_closed s = 0" | "sc_closed s = 1" | "sc_closed s = 2" | "sc_closed s = 3" | "sc_closed s = 4"
    | "sc_closed s = 5" | "sc_closed s = 6" | "sc_closed s = 7"
    using less_8 [OF res(1)] by argo
  then show ?thesis
  proof cases
    case 6
    have objs: "obj \<in> own_objects env a" if "obj \<in> set (wd_objects w)"
        "obj \<in> set (upto_failure (\<lambda>obj. e_closeLoader env (CloseObject obj)) ProxyObjects)" for obj
      using that tr by (cases "a_loader a") (simp_all add: own_objects_def tracked_def)
    have pins: "m \<in> own_pins env a" if "m \<in> set (wd_pins w)" "e_closeLoader env (Unpin m) = None" for m
      using that tr by (cases "a_loader a") (simp_all add: own_pins_def tracked_def)
    show ?thesis
      using res(2-4) 6 ok links objs pins
      by (auto simp: closings_nth loader closing_ok_def tracked_def Let_def filter_empty_conv a_def [symmetric] w_def [symmetric])
  next
    case 7
    then show ?thesis
      using res(2-4) ok
      by (auto simp: closings_nth closing_results closing_ok_def tracked_def Let_def Cleanup_fs os_remove_no_fault a_def [symmetric] w_def [symmetric])
  next
    case 8
    then show ?thesis
      using res(2-4) ok os_remove_gone [of "e_remove env" "c_KeylogPath (a_cfg a)" "wd_fs w" "Run (a_retention a)"]
      by (auto simp: closings_nth closing_results closing_ok_def tracked_def Let_def deleteKeylog_fs os_remove_no_fault a_def [symmetric] w_def [symmetric])
  qed (use res(2-4) ok in \<open>simp_all add: closings_nth closing_results closing_ok_def tracked_def Let_def
        a_def [symmetric] w_def [symmetric] del: not_None_eq\<close>)
qed

section \<open>The capture of a running sidecar\<close>

text \<open>What each event may do to the capture writer.\<close>

fun capture_events :: "sidecar \<Rightarrow> event \<Rightarrow> wevent set" where
  "capture_events s (Packet now ci data) = {EvPacket now ci data}"
| "capture_events s (DrainTick now) = {EvTick now}"
| "capture_events s Sink = {EvSecret line | line. sc_sinking s = Some line}"
| "capture_events s (RetentionTick now) = range EvSetRoom"
| "capture_events s CloseStep = (if sc_closed s = 2 then {EvStopSignal, EvDrainExit, EvClose} else {})"
| "capture_events s ev = {}"

lemma closed_writer_run:
  "\<exists>evs. run (wstep (e_ng env)) cw evs (closed_writer env cw) \<and> fst ` set evs \<subseteq> {EvStopSignal, EvDrainExit, EvClose}"
proof -
  let ?io = "e_ng env"
  define cw1 where "cw1 = cw\<lparr>stop_signalled := True\<rparr>"
  have stop: "wstep ?io cw (EvStopSignal, []) cw1" unfolding cw1_def by (rule wstep.stop_signal)
  have drain: "\<exists>evs. run (wstep ?io) cw1 evs (cw1\<lparr>drained := True\<rparr>) \<and> fst ` set evs \<subseteq> {EvDrainExit}"
  proof (cases "drained cw1")
    case True
    then have "cw1\<lparr>drained := True\<rparr> = cw1" by simp
    then show ?thesis by (intro exI [of _ "[]"]) simp
  next
    case False
    then have "wstep ?io cw1 (EvDrainExit, []) (cw1\<lparr>drained := True\<rparr>)" by (intro wstep.drain_exit) (simp_all add: cw1_def)
    then show ?thesis by (intro exI [of _ "[(EvDrainExit, [])]"]) (auto intro: run_one)
  qed
  have close: "wstep ?io (cw1\<lparr>drained := True\<rparr>) (EvClose, []) (closed_writer env cw)"
    by (rule wstep.close [where err = "fst (Close ?io (cw1\<lparr>drained := True\<rparr>))"]) (simp_all add: cw1_def closed_writer_def)
  from drain obtain evs where evs: "run (wstep ?io) cw1 evs (cw1\<lparr>drained := True\<rparr>)" "fst ` set evs \<subseteq> {EvDrainExit}" by blast
  have "run (wstep ?io) cw ((EvStopSignal, []) # evs @ [(EvClose, [])]) (closed_writer env cw)"
    by (rule run_Cons [where t = cw1]) (use stop run_snoc [OF evs(1) close] in simp_all)
  then show ?thesis using evs(2) by (intro exI [of _ "(EvStopSignal, []) # evs @ [(EvClose, [])]"]) auto
qed

lemma step_no_capture:
  assumes "sidecar_step env ev s = Some s'" "a_capW (sc_app s) = None"
  shows "a_capW (sc_app s') = None"
proof (cases "ev = CloseStep")
  case True
  then have cl: "do_close env s = Some s'" using assms(1) by simp
  note res = do_close_result [OF cl]
  show ?thesis
    using less_8 [OF res(1)] res(4) assms(2) close_loader_result [of env "sc_app s" "sc_world s"]
    by (elim disjE) (auto simp: closings_nth closing_results)
next
  case False
  then show ?thesis using step_keeps(1) [OF assms(1)] assms(2) by (simp add: holdings_def Let_def)
qed

lemma close_capture_run:
  assumes "do_close env s = Some s'" "a_capW (sc_app s) = Some cw"
  shows "\<exists>evs cw'. a_capW (sc_app s') = Some cw' \<and> run (wstep (e_ng env)) cw evs cw' \<and> fst ` set evs \<subseteq> capture_events s CloseStep"
proof (cases "sc_closed s = 2")
  case True
  then have "a_capW (sc_app s') = Some (closed_writer env cw)"
    using do_close_result(4) [OF assms(1)] assms(2) by (simp add: closings_nth closing_results)
  then show ?thesis using closed_writer_run [of env cw] True by auto
next
  case False
  then have "a_capW (sc_app s') = Some cw"
    using less_8 [OF do_close_result(1) [OF assms(1)]] do_close_result(4) [OF assms(1)] assms(2)
      close_loader_result [of env "sc_app s" "sc_world s"]
    by (elim disjE) (auto simp: closings_nth closing_results)
  then show ?thesis by (intro exI [of _ "[]"]) simp
qed

lemma step_capture:
  assumes "sidecar_step env ev s = Some s'" "a_capW (sc_app s) = Some cw"
  shows "\<exists>evs cw'. a_capW (sc_app s') = Some cw' \<and> run (wstep (e_ng env)) cw evs cw' \<and> fst ` set evs \<subseteq> capture_events s ev"
    (is ?goal)
proof -
  have none: ?goal if "a_capW (sc_app s') = Some cw" using that by (intro exI [of _ "[]"]) simp
  have one: ?goal if "a_capW (sc_app s') = Some cw'" "wstep (e_ng env) cw e cw'" "fst e \<in> capture_events s ev" for e cw'
    using that by (intro exI [of _ "[e]"]) (auto intro: run_one)
  show ?goal
  proof (cases ev)
    case (Packet now ci data)
    obtain err cw' stops where wp: "WritePacket (e_ng env) now ci data cw = (err, cw', stops)" by (metis surj_pair)
    show ?goal
      by (rule one [OF _ wstep.packet [OF wp]])
        (use assms wp in \<open>auto simp: Packet do_packet_def set_capture_def split: if_splits\<close>)
  next
    case (DrainTick now)
    show ?goal
      by (rule one [OF _ wstep.tick [of cw _ now]])
        (use assms in \<open>auto simp: DrainTick do_drain_def set_capture_def split: if_splits\<close>)
  next
    case Sink
    obtain line where line: "sc_sinking s = Some line" using assms(1) by (auto simp: Sink do_sink_def split: option.splits)
    obtain cw' stops where sink: "AddSecret line cw = (cw', stops)" by fastforce
    show ?goal
      by (rule one [OF _ wstep.secret [OF sink]]) (use assms line sink in \<open>auto simp: Sink do_sink_def set_capture_def\<close>)
  next
    case (RetentionTick now)
    obtain a w where r: "enforceRetention env now (sc_app s, sc_world s) = (a, w)" by fastforce
    have s': "sc_app s' = a" using assms(1) r by (auto simp: RetentionTick do_retention_def split: if_splits)
    from enforceRetention_keeps(1) [OF r] assms(2) consider "a_capW a = Some cw" | left where "a_capW a = Some (SetRoom left cw)" by auto
    then show ?goal
    proof cases
      case 2
      then show ?goal using s' by (intro one [OF _ wstep.set_room [of _ cw left]]) (simp_all add: RetentionTick)
    qed (use none s' in simp)
  next
    case CloseStep
    then show ?goal using close_capture_run [of env s s' cw] assms by simp
  qed (use none assms in \<open>auto simp: do_defs split: step_splits\<close>)
qed

end
