(* ===== verification/Sidecar.thy ===== *)
theory Sidecar
  imports Running
begin

text \<open>
  What holds of every run of the whole sidecar, from \<^verbatim>\<open>Start\<close> through any sequence of events to
  the end of \<^verbatim>\<open>Close\<close>: everything is released, the keylog and the capture agree, the captures
  stay within \<^verbatim>\<open>--max-bytes\<close>, and a closed capture is never touched again.
\<close>

section \<open>Runs\<close>

definition sidecar_rel :: "env \<Rightarrow> sidecar \<Rightarrow> event \<Rightarrow> sidecar \<Rightarrow> bool" where
  "sidecar_rel env s ev s' \<longleftrightarrow> sidecar_step env ev s = Some s'"

lemma serve_run: "\<exists>evs'. run (sidecar_rel env) s evs' (serve env evs s) \<and> set evs' \<subseteq> set evs"
proof (induction evs arbitrary: s)
  case (Cons ev evs)
  show ?case
  proof (cases "sidecar_step env ev s")
    case None
    then show ?thesis using Cons.IH [of s] by auto
  next
    case (Some t)
    from Cons.IH [of t] obtain evs' where "run (sidecar_rel env) t evs' (serve env evs t)" "set evs' \<subseteq> set evs" by blast
    moreover have "sidecar_rel env s ev t" using Some by (simp add: sidecar_rel_def)
    ultimately show ?thesis using Some by (intro exI [of _ "ev # evs'"]) (auto intro: run_Cons)
  qed
qed auto

lemma serve_keeps:
  assumes "\<And>ev s s'. ev \<in> set evs \<Longrightarrow> sidecar_step env ev s = Some s' \<Longrightarrow> P s \<Longrightarrow> P s'" "P s"
  shows "P (serve env evs s)"
  using assms by (induction evs arbitrary: s) (auto split: option.split)

section \<open>Everything is released\<close>

lemma closing_ok_step: "sidecar_rel env s ev s' \<Longrightarrow> closing_ok env s \<Longrightarrow> closing_ok env s'"
  using closing_ok_event [of env ev s s'] closing_ok_close [of env s s'] by (cases "ev = CloseStep") (simp_all add: sidecar_rel_def)

interpretation teardown: invariant_system "\<lambda>s. \<exists>a w. tracked a w \<and> s = running env a w" "sidecar_rel env" "closing_ok env" for env
proof
  show "closing_ok env s" if "\<exists>a w. tracked a w \<and> s = running env a w" for s
    using that by (auto simp: closing_ok_def running_def)
qed (rule closing_ok_step)

lemma closing_ok_serve: "tracked a w \<Longrightarrow> closing_ok env (serve env evs (running env a w))"
  using serve_run [of env "running env a w" evs] teardown.inv_from_init by blast

lemma finish_closed: "closing_ok env s \<Longrightarrow> closing_ok env (finish env s) \<and> sc_closed (finish env s) = 8"
proof -
  assume ok: "closing_ok env s"
  then have le: "sc_closed s \<le> 8" by (simp add: closing_ok_def Let_def)
  have "closing_ok env (finish env s)"
    using serve_run [of env s "replicate (length (closings env) - sc_closed s) CloseStep"] teardown.inv_run ok
    unfolding finish_def by blast
  moreover have "sc_closed (finish env s) = 8"
    using serve_close_steps [of env "take (sc_closed s) (closings env)" "drop (sc_closed s) (closings env)" s] le
    by (simp add: finish_def closings_length)
  ultimately show ?thesis by simp
qed

lemma closed_released: "closing_ok env s \<Longrightarrow> sc_closed s = 8 \<Longrightarrow> released env (sc_world s)"
  by (simp add: closing_ok_def released_def Let_def)

section \<open>The keylog and the capture\<close>

definition kept_secrets :: "app \<Rightarrow> string list" where
  "kept_secrets a = (case a_capW a of None \<Rightarrow> [] | Some cw \<Rightarrow> accepted_secrets cw)"

text \<open>
  The keylog holds what the capture accepted, then at most one line: the one on its way from
  the keylog to the capture, or the one on whose way the capture stopped.
\<close>

definition on_its_way :: "string option \<Rightarrow> bool \<Rightarrow> string list \<Rightarrow> bool" where
  "on_its_way sinking active extra \<longleftrightarrow>
     (case sinking of Some line \<Rightarrow> extra = [line] | None \<Rightarrow> extra = [] \<or> (length extra = 1 \<and> \<not> active))"

definition keys_ok :: "string \<Rightarrow> sidecar \<Rightarrow> bool" where
  "keys_ok old s \<longleftrightarrow>
     (\<forall>i. \<forall>line \<in> set (sc_conns s i). newline \<notin> set line)
     \<and> (\<exists>srv extra. a_keylogSrv (sc_app s) = Some srv \<and> has_gate (sv_writer srv)
          \<and> (has_sink (sv_writer srv) \<longleftrightarrow> a_capW (sc_app s) \<noteq> None)
          \<and> holds_lines old (kept_secrets (sc_app s) @ extra) (sv_writer srv)
          \<and> on_its_way (sc_sinking s) (captureActive (sc_app s)) extra \<and> (extra \<noteq> [] \<longrightarrow> a_capW (sc_app s) \<noteq> None))"

lemma keys_okI:
  "(\<And>i line. line \<in> set (sc_conns s i) \<Longrightarrow> newline \<notin> set line) \<Longrightarrow> a_keylogSrv (sc_app s) = Some srv \<Longrightarrow> has_gate (sv_writer srv) \<Longrightarrow>
   (has_sink (sv_writer srv) \<longleftrightarrow> a_capW (sc_app s) \<noteq> None) \<Longrightarrow> holds_lines old (kept_secrets (sc_app s) @ extra) (sv_writer srv) \<Longrightarrow>
   on_its_way (sc_sinking s) (captureActive (sc_app s)) extra \<Longrightarrow> (extra \<noteq> [] \<Longrightarrow> a_capW (sc_app s) \<noteq> None) \<Longrightarrow> keys_ok old s"
  by (auto simp: keys_ok_def)

lemma keys_okE:
  assumes "keys_ok old s"
  obtains srv extra where "\<forall>i. \<forall>line \<in> set (sc_conns s i). newline \<notin> set line" "a_keylogSrv (sc_app s) = Some srv"
    "has_gate (sv_writer srv)" "has_sink (sv_writer srv) \<longleftrightarrow> a_capW (sc_app s) \<noteq> None"
    "holds_lines old (kept_secrets (sc_app s) @ extra) (sv_writer srv)" "on_its_way (sc_sinking s) (captureActive (sc_app s)) extra"
    "extra \<noteq> [] \<longrightarrow> a_capW (sc_app s) \<noteq> None"
  using assms by (auto simp: keys_ok_def)

text \<open>A write to the keylog that fails writes nothing.\<close>

fun whole_writes :: "event \<Rightarrow> bool" where
  "whole_writes (KeyLine i now (WriteFail n e)) \<longleftrightarrow> n = 0"
| "whole_writes ev \<longleftrightarrow> True"

lemma captureActive_iff: "captureActive a \<longleftrightarrow> (\<exists>cw. a_capW a = Some cw \<and> capture_active cw)"
  by (auto simp: captureActive_def captureState_def capture_active_def State_def split: option.split)

text \<open>Whatever is not a secret leaves the secrets alone and never starts a capture again.\<close>

lemma run_other:
  assumes "run (wstep io) cw evs cw'" "\<forall>line. EvSecret line \<notin> fst ` set evs"
  shows "accepted_secrets cw' = accepted_secrets cw \<and> (capture_active cw' \<longrightarrow> capture_active cw)"
  using assms
proof (induction rule: run.induct)
  case (run_Cons s e t es u)
  have "capture_other io s t"
    unfolding capture_other_def using run_Cons.hyps(1) run_Cons.prems by (intro exI [of _ e]) auto
  then show ?case
    using run_Cons.IH run_Cons.prems capture_keys.other_kept [of io s t] capture_keys.other_active [of io s t] by auto
qed simp

lemma step_secrets:
  assumes "sidecar_step env ev s = Some s'" "ev \<noteq> Sink"
  shows "kept_secrets (sc_app s') = kept_secrets (sc_app s)" "captureActive (sc_app s') \<Longrightarrow> captureActive (sc_app s)"
    "a_capW (sc_app s') = None \<longleftrightarrow> a_capW (sc_app s) = None"
proof -
  have "kept_secrets (sc_app s') = kept_secrets (sc_app s) \<and> (captureActive (sc_app s') \<longrightarrow> captureActive (sc_app s))
      \<and> (a_capW (sc_app s') = None \<longleftrightarrow> a_capW (sc_app s) = None)"
  proof (cases "a_capW (sc_app s)")
    case None
    then show ?thesis using step_no_capture [OF assms(1)] by (simp add: kept_secrets_def captureActive_iff)
  next
    case (Some cw)
    from step_capture [OF assms(1) Some] obtain evs cw' where
      cw': "a_capW (sc_app s') = Some cw'" "run (wstep (e_ng env)) cw evs cw'" "fst ` set evs \<subseteq> capture_events s ev" by blast
    have "EvSecret line \<notin> capture_events s ev" for line using assms(2) by (cases ev) auto
    then have "\<forall>line. EvSecret line \<notin> fst ` set evs" using cw'(3) by blast
    from run_other [OF cw'(2) this] show ?thesis using cw'(1) Some by (simp add: kept_secrets_def captureActive_iff)
  qed
  then show "kept_secrets (sc_app s') = kept_secrets (sc_app s)" "captureActive (sc_app s') \<Longrightarrow> captureActive (sc_app s)"
    "a_capW (sc_app s') = None \<longleftrightarrow> a_capW (sc_app s) = None" by blast+
qed

lemma handle_line_fields:
  "sv_writer (fst (handle_line le line srv)) =
     (if line = [] then sv_writer srv else fst (snd (Append (le_gate le) (le_write le) (sv_writer srv) line)))"
  "snd (handle_line le line srv) =
     (if line = [] then [] else snd (snd (Append (le_gate le) (le_write le) (sv_writer srv) line)))"
  by (auto simp: handle_line_def Let_def case_prod_beta split: option.split)

lemma Append_whole:
  assumes "case wr of WriteFail n _ \<Rightarrow> n = 0 | WriteOk \<Rightarrow> True"
  obtains (same) "fst (snd (Append gate wr w line)) = w" "SinkCall line \<notin> set (snd (snd (Append gate wr w line)))"
    | (added) "ValidateLine line = None" "has_gate w \<longrightarrow> gate" "line_key line \<notin> seen w"
      "fst (snd (Append gate wr w line)) = w\<lparr>kfile := kfile w @ line @ [newline], seen := insert (line_key line) (seen w)\<rparr>"
      "SinkCall line \<in> set (snd (snd (Append gate wr w line))) \<longleftrightarrow> has_sink w"
proof (cases wr)
  case WriteOk
  show thesis
  proof (cases rule: Append_cases [where gate = gate and w = w and line = line])
    case same
    then show thesis using that(1) WriteOk by simp
  next
    case added
    then show thesis using that(2) WriteOk by auto
  qed
next
  case (WriteFail n e)
  then show thesis
    using assms that(1) by (auto simp: Append_def Let_def split: option.splits if_splits)
qed

lemma do_lineE:
  assumes "do_line i now wr s = Some s'"
  obtains line ls srv acts srv' where "sc_conns s i = line # ls" "a_keylogSrv (sc_app s) = Some srv"
    "sc_sinking s = None \<or> ValidateLine line \<noteq> None"
    "handle_line \<lparr>le_now = now, le_gate = captureActive (sc_app s), le_write = wr\<rparr> line srv = (srv', acts)"
    "s' = s\<lparr>sc_app := (sc_app s)\<lparr>a_keylogSrv := Some srv'\<rparr>, sc_conns := (sc_conns s)(i := ls),
        sc_sinking := (if SinkCall line \<in> set acts then Some line else sc_sinking s)\<rparr>"
proof -
  from assms obtain line ls srv where conn: "sc_conns s i = line # ls" "a_keylogSrv (sc_app s) = Some srv"
    by (auto simp: do_line_def split: list.splits option.splits)
  obtain srv' acts where h: "handle_line \<lparr>le_now = now, le_gate = captureActive (sc_app s), le_write = wr\<rparr> line srv = (srv', acts)"
    by fastforce
  show thesis
    by (rule that [OF conn _ h]) (use assms in \<open>simp_all add: do_line_def conn h split: if_split_asm\<close>)
qed

lemma keys_ok_line:
  assumes "do_line i now wr s = Some s'" "keys_ok old s" "case wr of WriteFail n _ \<Rightarrow> n = 0 | WriteOk \<Rightarrow> True"
  shows "keys_ok old s'"
proof -
  let ?le = "\<lparr>le_now = now, le_gate = captureActive (sc_app s), le_write = wr\<rparr>"
  from assms(1) obtain line ls srv where conn: "sc_conns s i = line # ls" and srv: "a_keylogSrv (sc_app s) = Some srv"
    and lock: "sc_sinking s = None \<or> ValidateLine line \<noteq> None"
    and s': "s' = s\<lparr>sc_app := (sc_app s)\<lparr>a_keylogSrv := Some (fst (handle_line ?le line srv))\<rparr>, sc_conns := (sc_conns s)(i := ls),
        sc_sinking := (if SinkCall line \<in> set (snd (handle_line ?le line srv)) then Some line else sc_sinking s)\<rparr>"
    by (metis do_lineE fst_conv snd_conv)
  from assms(2) srv obtain extra where cfg: "has_gate (sv_writer srv)" "has_sink (sv_writer srv) \<longleftrightarrow> a_capW (sc_app s) \<noteq> None"
    and holds: "holds_lines old (kept_secrets (sc_app s) @ extra) (sv_writer srv)"
    and extra: "on_its_way (sc_sinking s) (captureActive (sc_app s)) extra" "extra \<noteq> [] \<longrightarrow> a_capW (sc_app s) \<noteq> None"
    and nl: "\<forall>i. \<forall>line \<in> set (sc_conns s i). newline \<notin> set line"
    by (metis keys_okE option.sel)
  have conns: "newline \<notin> set l" if "l \<in> set (sc_conns s' j)" for l j
    using that nl [rule_format, of l i] nl [rule_format, of l j] conn by (cases "j = i") (simp_all add: s')
  have app: "kept_secrets (sc_app s') = kept_secrets (sc_app s)" "captureActive (sc_app s') = captureActive (sc_app s)"
    "a_capW (sc_app s') = a_capW (sc_app s)" "a_keylogSrv (sc_app s') = Some (fst (handle_line ?le line srv))"
    by (simp_all add: s' kept_secrets_def captureActive_iff)
  show ?thesis
    using assms(3)
  proof (cases rule: Append_whole [consumes 1, where gate = "captureActive (sc_app s)" and w = "sv_writer srv" and line = line])
    case same
    then have "sv_writer (fst (handle_line ?le line srv)) = sv_writer srv" "sc_sinking s' = sc_sinking s"
      by (simp_all add: handle_line_fields s')
    then show ?thesis
      using conns app cfg holds extra by (intro keys_okI [where srv = "fst (handle_line ?le line srv)" and extra = extra]) simp_all
  next
    case added
    have ne: "line \<noteq> []" by (rule valid_not_Nil [OF added(1)])
    have active: "captureActive (sc_app s)" using added(2) cfg(1) by simp
    then have sink: "has_sink (sv_writer srv)" using cfg(2) by (auto simp: captureActive_iff)
    have "sc_sinking s = None" using lock added(1) by simp
    then have e: "extra = []" using extra(1) active by (simp add: on_its_way_def)
    have nl': "newline \<notin> set line" using nl [rule_format, of line i] conn by simp
    have w: "sv_writer (fst (handle_line ?le line srv)) =
        (sv_writer srv)\<lparr>kfile := kfile (sv_writer srv) @ line @ [newline], seen := insert (line_key line) (seen (sv_writer srv))\<rparr>"
      "sc_sinking s' = Some line"
      using added(4,5) ne sink by (simp_all add: handle_line_fields s')
    then show ?thesis
      using conns app cfg holds_lines_snoc [OF holds added(1) nl' added(3)] e sink
      by (intro keys_okI [where srv = "fst (handle_line ?le line srv)" and extra = "[line]"]) (simp_all add: on_its_way_def)
  qed
qed

lemma keys_ok_sink:
  assumes "do_sink s = Some s'" "keys_ok old s"
  shows "keys_ok old s'"
proof -
  from assms(1) obtain line cw where line: "sc_sinking s = Some line" and cw: "a_capW (sc_app s) = Some cw"
    and s': "s' = (set_capture (fst (AddSecret line cw)) (snd (AddSecret line cw)) s)\<lparr>sc_sinking := None\<rparr>"
    by (auto simp: do_sink_def case_prod_beta split: option.splits)
  from assms(2) obtain srv extra where nl: "\<forall>i. \<forall>line \<in> set (sc_conns s i). newline \<notin> set line"
    and srv: "a_keylogSrv (sc_app s) = Some srv" "has_gate (sv_writer srv)" "has_sink (sv_writer srv) \<longleftrightarrow> a_capW (sc_app s) \<noteq> None"
    and holds: "holds_lines old (kept_secrets (sc_app s) @ extra) (sv_writer srv)"
    and extra: "on_its_way (sc_sinking s) (captureActive (sc_app s)) extra" "extra \<noteq> [] \<longrightarrow> a_capW (sc_app s) \<noteq> None"
    by (rule keys_okE)
  have e: "extra = [line]" using extra(1) line by (simp add: on_its_way_def)
  then have ne: "line \<noteq> []" using holds by (auto simp: holds_lines_def dest!: valid_not_Nil)
  have kept: "kept_secrets (sc_app s) = accepted_secrets cw" "kept_secrets (sc_app s') = accepted_secrets (capture_sink line cw)"
    "captureActive (sc_app s') = capture_active (capture_sink line cw)"
    using cw by (simp_all add: s' kept_secrets_def set_capture_def capture_sink_def captureActive_iff)
  show ?thesis
  proof (cases "capture_active (capture_sink line cw)")
    case True
    with capture_keys.sink_taken [OF ne True] show ?thesis
      using nl srv holds e kept cw by (intro keys_okI [where srv = srv and extra = "[]"]) (auto simp: s' set_capture_def on_its_way_def)
  next
    case False
    with capture_keys.sink_refused [OF ne False] show ?thesis
      using nl srv holds e kept cw by (intro keys_okI [where srv = srv and extra = "[line]"]) (auto simp: s' set_capture_def on_its_way_def)
  qed
qed

lemma step_keylog_other:
  assumes "sidecar_step env ev s = Some s'" "ev \<noteq> Sink" "\<And>i now wr. ev \<noteq> KeyLine i now wr"
  shows "a_keylogSrv (sc_app s') = a_keylogSrv (sc_app s)" "sc_sinking s' = sc_sinking s"
    "\<forall>i. \<forall>line \<in> set (sc_conns s' i). line \<in> set (sc_conns s i) \<or> newline \<notin> set line"
proof -
  have "a_keylogSrv (sc_app s') = a_keylogSrv (sc_app s) \<and> sc_sinking s' = sc_sinking s
      \<and> (\<forall>i. \<forall>line \<in> set (sc_conns s' i). line \<in> set (sc_conns s i) \<or> newline \<notin> set line)"
  proof (cases ev)
    case (RetentionTick now)
    obtain a w where r: "enforceRetention env now (sc_app s, sc_world s) = (a, w)" by fastforce
    have "s' = s\<lparr>sc_app := a, sc_world := w\<rparr>" using assms(1) r by (auto simp: RetentionTick do_retention_def split: if_splits)
    then show ?thesis using enforceRetention_keeps(1) [OF r] by (cases a) auto
  next
    case CloseStep
    then have cl: "do_close env s = Some s'" using assms(1) by simp
    have "a_keylogSrv (sc_app s') = a_keylogSrv (sc_app s)"
      using less_8 [OF do_close_result(1) [OF cl]] do_close_result(4) [OF cl] close_loader_result [of env "sc_app s" "sc_world s"]
      by (elim disjE) (auto simp: closings_nth closing_results)
    then show ?thesis using cl by (auto simp: do_close_def case_prod_beta split: if_splits)
  qed (use assms in \<open>auto simp: do_defs set_capture_def scan_lines_no_newline split: step_splits\<close>)
  then show "a_keylogSrv (sc_app s') = a_keylogSrv (sc_app s)" "sc_sinking s' = sc_sinking s"
    "\<forall>i. \<forall>line \<in> set (sc_conns s' i). line \<in> set (sc_conns s i) \<or> newline \<notin> set line" by blast+
qed

lemma keys_ok_step:
  assumes "sidecar_step env ev s = Some s'" "keys_ok old s" "whole_writes ev"
  shows "keys_ok old s'"
proof -
  consider "ev = Sink" | i now wr where "ev = KeyLine i now wr" | "ev \<noteq> Sink" "\<And>i now wr. ev \<noteq> KeyLine i now wr" by blast
  then show ?thesis
  proof cases
    case 1
    then show ?thesis using assms(1,2) keys_ok_sink by simp
  next
    case 2
    then have "case wr of WriteFail n _ \<Rightarrow> n = 0 | WriteOk \<Rightarrow> True" using assms(3) by (cases wr) auto
    then show ?thesis using keys_ok_line [of i now wr s s' old] assms(1,2) 2 by simp
  next
    case 3
    note keeps = step_keylog_other [OF assms(1) 3] and secrets = step_secrets [OF assms(1) 3(1)]
    from assms(2) obtain srv extra where nl: "\<forall>i. \<forall>line \<in> set (sc_conns s i). newline \<notin> set line"
      and srv: "a_keylogSrv (sc_app s) = Some srv" "has_gate (sv_writer srv)" "has_sink (sv_writer srv) \<longleftrightarrow> a_capW (sc_app s) \<noteq> None"
      and holds: "holds_lines old (kept_secrets (sc_app s) @ extra) (sv_writer srv)"
      and extra: "on_its_way (sc_sinking s) (captureActive (sc_app s)) extra" "extra \<noteq> [] \<longrightarrow> a_capW (sc_app s) \<noteq> None"
      by (rule keys_okE)
    have "on_its_way (sc_sinking s') (captureActive (sc_app s')) extra"
      using extra(1) keeps(2) secrets(2) by (auto simp: on_its_way_def split: option.splits)
    then show ?thesis
      using nl srv holds keeps secrets(1,3) extra(2) by (intro keys_okI [where srv = srv and extra = extra]) auto
  qed
qed

section \<open>From a start\<close>

lemma os_remove_no_new_files: "no_new_files fs (snd (os_remove flt path fs))" "no_new_files fs fs"
  using os_remove_gone [of flt path fs] by (simp_all add: no_new_files_def)

lemma try_names_fresh: "try_names env hdr base ext opts ns fs = (Inr cw, fs') \<Longrightarrow> \<exists>path. cw = new_writer hdr path opts"
  by (induction ns arbitrary: fs) (auto simp: NewWriter_def Let_def split: prod.splits option.splits sum.splits if_splits)

lemma CreateRunCapture_fresh:
  "CreateRunCapture env hdr now template opts fs = (Inr cw, fs') \<Longrightarrow> \<exists>path. cw = new_writer hdr path opts"
  by (auto simp: CreateRunCapture_def split: prod.splits dest!: try_names_fresh)

lemma openCapture_fresh:
  assumes "openCapture env (a, w) = (None, a', w')" "a_capW a = None" "a_capW a' = Some cw"
  shows "fresh (e_header env) cw"
proof -
  obtain left where "CreateRunCapture (e_create env) (e_header env) (e_now env) (c_CapturePath (a_cfg a)) (capture_options left)
      (swept env (a_cfg a) (wd_fs w)) = (Inr cw, wd_fs w')"
    using openCapture_started [OF assms refl refl] by metis
  from CreateRunCapture_fresh [OF this] show ?thesis by (auto simp: fresh_def)
qed

abbreviation started_config :: "config \<Rightarrow> bool \<Rightarrow> server_config" where
  "started_config cfg sink \<equiv> \<lparr>SocketPath = c_KeylogSocketPath cfg, KeylogPath = c_KeylogPath cfg, cfg_Sink = sink, cfg_Gate = True\<rparr>"

lemma start_stages_Inr:
  assumes "start_stages env (st # sts) (a, w) = (Inr b, v)"
  obtains a1 w1 where "st (a, w) = (None, a1, w1)" "start_stages env sts (a1, w1) = (Inr b, v)"
  using assms by (auto split: prod.splits option.splits)

lemma Start_success:
  assumes "Start env cfg w0 = (Inr a, w)"
  obtains a1 w1 a2 w2 srv where
    "openCapture env (a1, w1) = (None, a2, w2)" "a_cfg a1 = cfg" "a_capW a1 = None" "no_new_files (wd_fs w0) (wd_fs w1)"
    "fst (NewSocketServer (e_server env) (started_config cfg (a_capW a2 \<noteq> None)) (e_logger env)) = Inr srv"
    "a_keylogSrv a = Some srv" "a_capW a = a_capW a2" "a_retention a = a_retention a2" "a_cfg a = cfg"
    "wd_fs w = (wd_fs w2)(c_KeylogPath cfg \<mapsto> Regular 0 (e_now env))" "a_live a \<longleftrightarrow> a_capW a \<noteq> None"
proof -
  from assms obtain fs a0 w1 where dk: "deleteKeylog (e_remove env) (c_KeylogPath cfg) (wd_fs w0) = (None, fs)"
    and ld: "start_loader env (new_app cfg, w0\<lparr>wd_fs := fs\<rparr>) = (None, a0, w1)"
    and run: "start_stages env [start_attach env, start_relay env, openCapture env, startKeylog env, start_live env] (a0, w1) = (Inr a, w)"
    unfolding Start_def by (auto simp del: start_stages.simps split: option.splits prod.splits)
  from run obtain a1 v1 where st1: "start_attach env (a0, w1) = (None, a1, v1)"
    and run1: "start_stages env [start_relay env, openCapture env, startKeylog env, start_live env] (a1, v1) = (Inr a, w)"
    by (rule start_stages_Inr)
  from run1 obtain a2 v2 where st2: "start_relay env (a1, v1) = (None, a2, v2)"
    and run2: "start_stages env [openCapture env, startKeylog env, start_live env] (a2, v2) = (Inr a, w)"
    by (rule start_stages_Inr)
  from run2 obtain a3 v3 where st3: "openCapture env (a2, v2) = (None, a3, v3)"
    and run3: "start_stages env [startKeylog env, start_live env] (a3, v3) = (Inr a, w)"
    by (rule start_stages_Inr)
  from run3 obtain a4 v4 where st4: "startKeylog env (a3, v3) = (None, a4, v4)"
    and run4: "start_stages env [start_live env] (a4, v4) = (Inr a, w)"
    by (rule start_stages_Inr)
  from run4 obtain a5 v5 where st5: "start_live env (a4, v4) = (None, a5, v5)" and run5: "start_stages env [] (a5, v5) = (Inr a, w)"
    by (rule start_stages_Inr)
  have a0: "a_cfg a0 = cfg" "a_capW a0 = None" "\<not> a_live a0" "wd_fs w1 = fs"
    using ld by (auto simp: start_loader_def new_app_def Let_def split: prod.splits sum.splits)
  have fs: "no_new_files (wd_fs w0) fs"
    using arg_cong [OF dk, of snd] by (auto simp: deleteKeylog_fs os_remove_no_new_files split: if_splits)
  have a2: "a_cfg a2 = cfg" "a_capW a2 = None" "\<not> a_live a2" "wd_fs v2 = fs"
    using st1 st2 a0 by (auto simp: start_attach_def start_relay_def Let_def split: prod.splits option.splits)
  have a3: "a_cfg a3 = cfg" "\<not> a_live a3"
    using st3 a2 by (auto simp: openCapture_def Let_def split: prod.splits option.splits sum.splits if_splits)
  obtain srv where srv: "fst (NewSocketServer (e_server env) (started_config cfg (a_capW a3 \<noteq> None)) (e_logger env)) = Inr srv"
      "a4 = a3\<lparr>a_keylogSrv := Some srv\<rparr>" "wd_fs v4 = (wd_fs v3)(c_KeylogPath cfg \<mapsto> Regular 0 (e_now env))"
    using st4 a3 by (auto simp: startKeylog_def Let_def split: sum.splits)
  have a5: "a_keylogSrv a5 = Some srv" "a_capW a5 = a_capW a3" "a_retention a5 = a_retention a3" "a_cfg a5 = cfg"
      "wd_fs v5 = wd_fs v4" "a_live a5 \<longleftrightarrow> a_capW a5 \<noteq> None"
    using st5 srv(2) a3 by (auto simp: start_live_def split: prod.splits option.splits)
  show thesis
    by (rule that [OF st3 a2(1,2) _ srv(1)]) (use fs a2(4) a5 srv(3) run5 in auto)
qed

lemma NewSocketServer_writer:
  assumes "fst (NewSocketServer senv (started_config cfg sink) lg) = Inr srv"
  shows "sv_writer srv = \<lparr>kfile = keylog_content senv, seen = {}, has_sink = sink, has_gate = True\<rparr>"
  using assms by (auto simp: NewSocketServer_def NewKeylogWriter_def WithSink_def WithGate_def Let_def split: option.splits if_splits)

lemma fresh_secrets: "fresh hdr cw \<Longrightarrow> accepted_secrets cw = []"
  by (auto simp: fresh_def new_writer_def accepted_secrets_def secrets_of_def List.map_filter_simps)

lemma Start_keys_ok:
  assumes "Start env cfg w0 = (Inr a, w)"
  shows "keys_ok (keylog_content (e_server env)) (running env a w)"
proof -
  obtain a1 w1 a2 w2 srv where st: "openCapture env (a1, w1) = (None, a2, w2)" "a_capW a1 = None"
      "fst (NewSocketServer (e_server env) (started_config cfg (a_capW a2 \<noteq> None)) (e_logger env)) = Inr srv"
      "a_keylogSrv a = Some srv" "a_capW a = a_capW a2"
    by (rule Start_success [OF assms])
  note writer = NewSocketServer_writer [OF st(3)]
  have "kept_secrets a = []"
    using openCapture_fresh [OF st(1,2)] st(5) fresh_secrets by (auto simp: kept_secrets_def split: option.split)
  then show ?thesis
    using st(4,5) writer
    by (intro keys_okI [where srv = srv and extra = "[]"]) (auto simp: running_def on_its_way_def holds_lines_def)
qed

section \<open>The captures stay within the limit\<close>

lemma step_files:
  assumes "sidecar_step env ev s = Some s'"
  shows "a_retention (sc_app s') = a_retention (sc_app s)" "a_cfg (sc_app s') = a_cfg (sc_app s)"
    "no_new_files (wd_fs (sc_world s)) (wd_fs (sc_world s'))"
proof -
  have "a_retention (sc_app s') = a_retention (sc_app s) \<and> a_cfg (sc_app s') = a_cfg (sc_app s)
      \<and> no_new_files (wd_fs (sc_world s)) (wd_fs (sc_world s'))"
  proof (cases "ev = CloseStep")
    case True
    then have cl: "do_close env s = Some s'" using assms by simp
    show ?thesis
      using less_8 [OF do_close_result(1) [OF cl]] do_close_result(4) [OF cl] close_loader_result [of env "sc_app s" "sc_world s"]
      by (elim disjE) (auto simp: closings_nth closing_results deleteKeylog_fs Cleanup_fs os_remove_no_new_files)
  next
    case False
    then show ?thesis using step_keeps(1,4) [OF assms] by (simp add: holdings_def Let_def)
  qed
  then show "a_retention (sc_app s') = a_retention (sc_app s)" "a_cfg (sc_app s') = a_cfg (sc_app s)"
    "no_new_files (wd_fs (sc_world s)) (wd_fs (sc_world s'))" by blast+
qed

lemma serve_files:
  "a_retention (sc_app (serve env evs s)) = a_retention (sc_app s) \<and> a_cfg (sc_app (serve env evs s)) = a_cfg (sc_app s)
    \<and> no_new_files (wd_fs (sc_world s)) (wd_fs (sc_world (serve env evs s)))"
proof (rule serve_keeps)
  fix ev t t'
  assume step: "sidecar_step env ev t = Some t'"
    and ok: "a_retention (sc_app t) = a_retention (sc_app s) \<and> a_cfg (sc_app t) = a_cfg (sc_app s)
      \<and> no_new_files (wd_fs (sc_world s)) (wd_fs (sc_world t))"
  have "wd_fs (sc_world t') p = wd_fs (sc_world s) p \<or> wd_fs (sc_world t') p = None" for p
    using step_files(3) [OF step] ok by (simp add: no_new_files_def) metis
  then show "a_retention (sc_app t') = a_retention (sc_app s) \<and> a_cfg (sc_app t') = a_cfg (sc_app s)
      \<and> no_new_files (wd_fs (sc_world s)) (wd_fs (sc_world t'))"
    using step_files(1,2) [OF step] ok by (simp add: no_new_files_def)
qed (simp add: no_new_files_def)

text \<open>A packet a machine can hold. A keylog line is below the scanner's limit.\<close>

fun sized :: "event \<Rightarrow> bool" where
  "sized (Packet now ci data) \<longleftrightarrow> small (length data)"
| "sized ev \<longleftrightarrow> True"

definition lines_sized :: "sidecar \<Rightarrow> bool" where
  "lines_sized s \<longleftrightarrow> (\<forall>i. \<forall>line \<in> set (sc_conns s i). length line < max_scan_token_size)
     \<and> (\<forall>line. sc_sinking s = Some line \<longrightarrow> length line < max_scan_token_size)"

lemma run_wstep_room:
  assumes "run (wstep io) cw evs cw'" "\<forall>e \<in> set evs. event_ok R (fst e)" "pcapgo_sizes sz" "R \<le> 2 ^ 62" "room_ok sz R cw"
  shows "room_ok sz R cw'"
  using assms
proof (induction rule: run.induct)
  case (run_Cons s e t es u)
  then show ?case using wstep_room [of io s e t R sz] by simp
qed simp

lemma within_limit_sidecar_step:
  assumes "sidecar_step env ev s = Some s'" "within_limit sz m t (sc_app s, sc_world s)" "sized ev" "lines_sized s"
    "pcapgo_sizes sz" "honest_listing env (path_dir t)" "file_template t" "0 < m" "m \<le> 2 ^ 62"
  shows "within_limit sz m t (sc_app s', sc_world s')"
proof (cases "\<exists>now. ev = RetentionTick now")
  case True
  then obtain now where ev: "ev = RetentionTick now" by blast
  have "(sc_app s', sc_world s') = enforceRetention env now (sc_app s, sc_world s)"
    using assms(1) by (auto simp: ev do_retention_def split: if_splits prod.splits)
  then show ?thesis using within_limit_pass [OF assms(2,6-9)] by simp
next
  case False
  define R where "R = m - finished_bytes (a_retention (sc_app s)) (wd_fs (sc_world s))"
  from assms(2) obtain cw where cw: "a_capW (sc_app s) = Some cw" "room_ok sz R cw"
    and r: "Template (a_retention (sc_app s)) = t" "MaxBytes (a_retention (sc_app s)) = m"
      "finite (finished_paths (a_retention (sc_app s)) (wd_fs (sc_world s)))"
    by (auto simp: within_limit_def Let_def R_def)
  from step_capture [OF assms(1) cw(1)] obtain evs cw' where
    cw': "a_capW (sc_app s') = Some cw'" "run (wstep (e_ng env)) cw evs cw'" "fst ` set evs \<subseteq> capture_events s ev" by blast
  have "event_ok R e" if "e \<in> capture_events s ev" for e
    using that False assms(3,4) by (cases ev) (auto simp: lines_sized_def small_def max_scan_token_size_def split: if_splits)
  then have ok: "\<forall>e \<in> set evs. event_ok R (fst e)" using cw'(3) by blast
  have "R \<le> 2 ^ 62" using assms(9) finished_bytes_nonneg [of "a_retention (sc_app s)" "wd_fs (sc_world s)"] by (simp add: R_def)
  note room = run_wstep_room [OF cw'(2) ok assms(5) this cw(2)]
  note files = step_files [OF assms(1)]
  have shrunk: "finished_bytes (a_retention (sc_app s)) (wd_fs (sc_world s')) \<le> finished_bytes (a_retention (sc_app s)) (wd_fs (sc_world s))"
    "finite (finished_paths (a_retention (sc_app s)) (wd_fs (sc_world s')))"
    using finished_shrinks [OF _ r(3), of "wd_fs (sc_world s')"] files(3) by (auto simp: no_new_files_def)
  have "room_ok sz (m - finished_bytes (a_retention (sc_app s)) (wd_fs (sc_world s'))) cw'"
    by (rule room_ok_mono [OF room]) (use shrunk(1) in \<open>simp add: R_def\<close>)
  then show ?thesis using cw'(1) files(1) r(1,2) shrunk(2) by (simp add: within_limit_def Let_def)
qed

lemma lines_sized_step:
  assumes "sidecar_step env ev s = Some s'" "lines_sized s"
  shows "lines_sized s'"
proof (cases ev)
  case (KeyLine i now wr)
  with assms(1) have "do_line i now wr s = Some s'" by simp
  then show ?thesis
  proof (rule do_lineE)
    fix line ls srv acts srv'
    assume conn: "sc_conns s i = line # ls" and s': "s' = s\<lparr>sc_app := (sc_app s)\<lparr>a_keylogSrv := Some srv'\<rparr>,
      sc_conns := (sc_conns s)(i := ls), sc_sinking := (if SinkCall line \<in> set acts then Some line else sc_sinking s)\<rparr>"
    have "length l < max_scan_token_size" if "l \<in> set (line # ls)" for l
      using assms(2) that conn unfolding lines_sized_def by metis
    then show ?thesis using assms(2) by (auto simp: s' lines_sized_def)
  qed
next
  case (RetentionTick now)
  then show ?thesis using assms by (auto simp: do_retention_def lines_sized_def split: if_splits prod.splits)
qed (use assms in \<open>auto simp: do_defs do_close_def set_capture_def lines_sized_def scan_lines_length split: step_splits\<close>)

lemma serve_within_limit:
  assumes "within_limit sz m t (a, w)" "\<forall>ev \<in> set evs. sized ev" "pcapgo_sizes sz" "honest_listing env (path_dir t)"
    "file_template t" "0 < m" "m \<le> 2 ^ 62"
  shows "within_limit sz m t (sc_app (serve env evs (running env a w)), sc_world (serve env evs (running env a w)))"
proof -
  let ?P = "\<lambda>s. lines_sized s \<and> within_limit sz m t (sc_app s, sc_world s)"
  have "?P s'" if "ev \<in> set evs" "sidecar_step env ev s = Some s'" "?P s" for ev s s'
    using that lines_sized_step [OF that(2)] within_limit_sidecar_step [OF that(2)] assms(2-) by blast
  moreover have "?P (running env a w)" using assms(1) by (simp add: lines_sized_def running_def)
  ultimately have "?P (serve env evs (running env a w))" by (rule serve_keeps)
  then show ?thesis by blast
qed

section \<open>The end of the capture\<close>

text \<open>
  Until \<^verbatim>\<open>Close\<close> gets to the capture, only the drain may have closed its file; from then on the
  file is complete and sealed, and no goroutine that would write to it is left.
\<close>

definition capture_done :: "sidecar \<Rightarrow> bool" where
  "capture_done s \<longleftrightarrow> (1 < sc_closed s \<longrightarrow> \<not> sc_reading s)
     \<and> (\<forall>cw. a_capW (sc_app s) = Some cw \<longrightarrow>
          (if sc_closed s \<le> 2 then open_ok cw else closed cw \<and> drained cw \<and> sealed (calls cw) \<and> held cw = []))"

lemma run_open_ok:
  assumes "run (wstep io) cw evs cw'" "EvClose \<notin> fst ` set evs" "open_ok cw"
  shows "open_ok cw'"
  using assms
proof (induction rule: run.induct)
  case (run_Cons s e t es u)
  have "open_step io s e t" using run_Cons.hyps(1) run_Cons.prems(1) by (auto simp: open_step_def)
  then show ?case using run_Cons.IH run_Cons.prems open_step_ok by auto
qed simp

lemma closed_writer_sealed:
  assumes "open_ok cw"
  shows "closed (closed_writer env cw) \<and> drained (closed_writer env cw) \<and> sealed (calls (closed_writer env cw)) \<and> held (closed_writer env cw) = []"
proof -
  have ok: "open_ok (cw\<lparr>stop_signalled := True, drained := True\<rparr>)" using assms by (simp add: open_ok_def)
  from Close_complete [OF ok, of "e_ng env"] show ?thesis
    using ok by (auto simp: closed_writer_def Close_state open_ok_def split: if_splits)
qed

lemma AddSecret_keeps:
  "calls (fst (AddSecret line cw)) = calls cw" "held (fst (AddSecret line cw)) = held cw"
  "closed (fst (AddSecret line cw)) = closed cw" "drained (fst (AddSecret line cw)) = drained cw"
  by (simp_all add: AddSecret_def admit_def Let_def split: prod.split)

text \<open>Once the capture is closed, the events leave its file and its queue as they are.\<close>

lemma step_closed_capture:
  assumes "sidecar_step env ev s = Some s'" "capture_done s" "2 < sc_closed s" "a_capW (sc_app s) = Some cw"
  shows "\<exists>cw'. a_capW (sc_app s') = Some cw' \<and> calls cw' = calls cw \<and> held cw' = held cw \<and> closed cw' = closed cw \<and> drained cw' = drained cw
    \<and> (sc_reading s' \<longrightarrow> sc_reading s)"
proof -
  have cw: "closed cw" "drained cw" "\<not> sc_reading s" using assms(2-4) by (auto simp: capture_done_def)
  show ?thesis
  proof (cases ev)
    case (RetentionTick now)
    obtain a w where r: "enforceRetention env now (sc_app s, sc_world s) = (a, w)" by fastforce
    have "s' = s\<lparr>sc_app := a, sc_world := w\<rparr>" using assms(1) r by (auto simp: RetentionTick do_retention_def split: if_splits)
    then show ?thesis using enforceRetention_keeps(1) [OF r] assms(4) by (auto simp: SetRoom_def)
  next
    case CloseStep
    then have cl: "do_close env s = Some s'" using assms(1) by simp
    have "a_capW (sc_app s') = Some cw"
      using less_8 [OF do_close_result(1) [OF cl]] do_close_result(4) [OF cl] close_loader_result [of env "sc_app s" "sc_world s"] assms(3,4)
      by (elim disjE) (auto simp: closings_nth closing_results)
    then show ?thesis using cl by (auto simp: do_close_def split: if_splits prod.splits)
  next
    case Sink
    then show ?thesis using assms(1,4) by (auto simp: do_sink_def set_capture_def AddSecret_keeps case_prod_beta split: option.splits)
  qed (use assms(1,4) cw in \<open>auto simp: do_defs set_capture_def split: step_splits\<close>)
qed

lemma reading_step:
  assumes "sidecar_step env ev s = Some s'" "1 < sc_closed s \<longrightarrow> \<not> sc_reading s"
  shows "1 < sc_closed s' \<longrightarrow> \<not> sc_reading s'"
proof (cases "ev = CloseStep")
  case True
  then show ?thesis using assms by (auto simp: do_close_def split: if_splits prod.splits)
next
  case False
  have "sc_reading s' \<longrightarrow> sc_reading s"
    using assms(1) False by (cases ev) (auto simp: do_defs set_capture_def split: step_splits)
  then show ?thesis using step_keeps(2) [OF assms(1) False] assms(2) by auto
qed

lemma capture_done_step:
  assumes "sidecar_step env ev s = Some s'" "capture_done s"
  shows "capture_done s'"
proof (cases "a_capW (sc_app s)")
  case None
  then show ?thesis
    using step_no_capture [OF assms(1) None] reading_step [OF assms(1)] assms(2) by (simp add: capture_done_def)
next
  case (Some cw)
  have reading: "1 < sc_closed s' \<longrightarrow> \<not> sc_reading s'"
    using reading_step [OF assms(1)] assms(2) by (simp add: capture_done_def)
  have next_step: "sc_closed s' = (if ev = CloseStep then Suc (sc_closed s) else sc_closed s)"
    using step_keeps(2) [OF assms(1)] do_close_result(2) [of env s s'] assms(1) by auto
  have quiet: "EvClose \<notin> capture_events s ev" if "\<not> (ev = CloseStep \<and> sc_closed s = 2)"
    using that by (cases ev) (auto split: if_splits)
  consider "2 < sc_closed s" | "ev = CloseStep" "sc_closed s = 2" | "sc_closed s' \<le> 2" "EvClose \<notin> capture_events s ev"
    using next_step quiet by (metis (full_types) Suc_leI le_less_linear nat_less_le)
  then show ?thesis
  proof cases
    case 1
    from step_closed_capture [OF assms 1 Some] show ?thesis
      using 1 assms(2) Some reading next_step by (auto simp: capture_done_def)
  next
    case 2
    then have "a_capW (sc_app s') = Some (closed_writer env cw)"
      using do_close_result(4) [of env s s'] assms(1) Some by (simp add: closings_nth closing_results)
    then show ?thesis
      using closed_writer_sealed [of cw env] assms(2) Some reading next_step 2 by (auto simp: capture_done_def)
  next
    case 3
    from step_capture [OF assms(1) Some] obtain evs cw' where
      cw': "a_capW (sc_app s') = Some cw'" "run (wstep (e_ng env)) cw evs cw'" "fst ` set evs \<subseteq> capture_events s ev" by blast
    have "open_ok cw" using assms(2) Some 3(1) next_step by (auto simp: capture_done_def split: if_splits)
    with run_open_ok [OF cw'(2)] cw'(3) 3(2) have "open_ok cw'" by blast
    then show ?thesis using cw'(1) 3(1) reading by (simp add: capture_done_def)
  qed
qed

lemma fresh_open: "fresh hdr cw \<Longrightarrow> open_ok cw"
  by (auto simp: fresh_def open_ok_new)

lemma Start_fresh:
  assumes "Start env cfg w0 = (Inr a, w)" "a_capW a = Some cw"
  shows "fresh (e_header env) cw"
proof -
  obtain a1 w1 a2 w2 where "openCapture env (a1, w1) = (None, a2, w2)" "a_capW a1 = None" "a_capW a = a_capW a2"
    by (rule Start_success [OF assms(1)])
  then show ?thesis using openCapture_fresh assms(2) by metis
qed

lemma Start_capture_done:
  assumes "Start env cfg w0 = (Inr a, w)"
  shows "capture_done (running env a w)"
  using fresh_open [OF Start_fresh [OF assms]] by (auto simp: capture_done_def running_def)

text \<open>The capture of a run, seen as a run of the capture writer.\<close>

lemma serve_capture:
  assumes "a_capW (sc_app s) = Some cw"
  shows "\<exists>cw' wevs. a_capW (sc_app (serve env evs s)) = Some cw' \<and> run (wstep (e_ng env)) cw wevs cw'
    \<and> (\<forall>now ci data. EvPacket now ci data \<in> fst ` set wevs \<longrightarrow> Packet now ci data \<in> set evs)"
  using assms
proof (induction evs arbitrary: s cw)
  case Nil
  then show ?case by (intro exI [of _ cw] exI [of _ "[]"]) simp
next
  case (Cons ev evs)
  show ?case
  proof (cases "sidecar_step env ev s")
    case None
    then show ?thesis using Cons.IH [OF Cons.prems] by simp blast
  next
    case (Some s')
    from step_capture [OF Some Cons.prems] obtain wevs cw' where
      cw': "a_capW (sc_app s') = Some cw'" "run (wstep (e_ng env)) cw wevs cw'" "fst ` set wevs \<subseteq> capture_events s ev" by blast
    from Cons.IH [OF cw'(1)] obtain cw'' wevs' where
      cw'': "a_capW (sc_app (serve env evs s')) = Some cw''" "run (wstep (e_ng env)) cw' wevs' cw''"
      "\<forall>now ci data. EvPacket now ci data \<in> fst ` set wevs' \<longrightarrow> Packet now ci data \<in> set evs" by blast
    have "Packet now ci data = ev" if "EvPacket now ci data \<in> fst ` set wevs" for now ci data
      using that cw'(3) by (cases ev) (auto split: if_splits)
    then have "\<forall>now ci data. EvPacket now ci data \<in> fst ` set (wevs @ wevs') \<longrightarrow> Packet now ci data \<in> set (ev # evs)"
      using cw''(3) unfolding set_append image_Un by (metis Un_iff list.set_intros)
    then show ?thesis
      using Some cw''(1) run_append [OF cw'(2) cw''(2)] by (intro exI [of _ cw''] exI [of _ "wevs @ wevs'"]) simp
  qed
qed

end
