(* ===== verification/Sidecar_Properties.thy ===== *)
theory Sidecar_Properties
  imports Sidecar
begin

text \<open>
  The guarantees of the whole sidecar, for every run from \<^verbatim>\<open>Start\<close> on: whatever its goroutines
  do, in any order, and however far \<^verbatim>\<open>Close\<close> has got.
\<close>

section \<open>The limit, from a start\<close>

definition capture_name :: "string \<Rightarrow> string \<Rightarrow> bool" where
  "capture_name template name = (case splitTemplate template of (dir, stem, ext) \<Rightarrow> owned stem ext name)"

lemma finished_elsewhere:
  assumes "file_template (Template r)" "\<not> capture_name (Template r) (path_base k)"
  shows "finished_paths r (fs(k \<mapsto> n)) = finished_paths r fs" "finished_bytes r (fs(k \<mapsto> n)) = finished_bytes r fs"
proof -
  obtain dir stem ext where t: "splitTemplate (Template r) = (dir, stem, ext)" using prod_cases3 by blast
  note parts = splitTemplate_parts [OF assms(1) t]
  have dir: "path_join dir name \<noteq> k" if "owned stem ext name" for name
    using that assms(2) path_base_join [OF _ owned_plain [OF parts(2,3) that], of dir] parts(1)
    by (auto simp: capture_name_def t path_dir_not_Nil)
  have same: "finished_capture r (fs(k \<mapsto> n)) p b m \<longleftrightarrow> finished_capture r fs p b m" for p b m
    using dir by (auto simp: finished_capture_def t)
  then show paths: "finished_paths r (fs(k \<mapsto> n)) = finished_paths r fs" by (simp add: finished_paths_def)
  have "k \<notin> finished_paths r fs" using dir by (auto simp: finished_paths_def finished_capture_def t)
  then show "finished_bytes r (fs(k \<mapsto> n)) = finished_bytes r fs"
    unfolding finished_bytes_def paths by (intro sum.cong) auto
qed

lemma Start_within_limit:
  assumes "Start env cfg w0 = (Inr a, w)" "a_capW a \<noteq> None" "m = c_MaxBytes cfg" "t = c_CapturePath cfg" "0 < m" "m \<le> 2 ^ 62"
    "file_template t" "honest_listing env (path_dir t)" "\<not> capture_name t (path_base (c_KeylogPath cfg))"
    "finite (dom (wd_fs w0))" "finished_bytes (capture_retention cfg) (wd_fs w0) \<le> max_i64" "0 \<le> time_unix (e_now env)"
    "pcapgo_sizes sz" "sz (NgNewWriter 1) \<le> e_header env 1" "0 < e_header env 1"
  shows "within_limit sz m t (a, w)"
proof -
  obtain a1 w1 a2 w2 where oc: "openCapture env (a1, w1) = (None, a2, w2)" "a_cfg a1 = cfg" "a_capW a1 = None"
      "no_new_files (wd_fs w0) (wd_fs w1)" "a_capW a = a_capW a2" "a_retention a = a_retention a2"
      "wd_fs w = (wd_fs w2)(c_KeylogPath cfg \<mapsto> Regular 0 (e_now env))"
    by (rule Start_success [OF assms(1)])
  obtain cw where cw: "a_capW a2 = Some cw" using oc(5) assms(2) by auto
  have fs: "wd_fs w1 p = wd_fs w0 p \<or> wd_fs w1 p = None" for p using oc(4) by (simp add: no_new_files_def)
  have fin: "finite (dom (wd_fs w1))"
    by (rule finite_subset [OF _ assms(10)]) (use fs in \<open>auto simp: dom_def\<close>, metis option.distinct(1))
  obtain path where r: "a_retention a2 = (capture_retention cfg)\<lparr>Run := path\<rparr>"
    using openCapture_started [OF oc(1,3) cw refl refl] oc(2) by metis
  have "(a_retention a2)\<lparr>Run := []\<rparr> = capture_retention cfg" using r by (simp add: capture_retention_def)
  moreover have "finished_bytes (capture_retention cfg) (wd_fs w1) \<le> max_i64"
    using finished_shrinks(1) [of "wd_fs w1" "wd_fs w0" "capture_retention cfg"] fs finite_finished [OF assms(10)] assms(11) by fastforce
  ultimately have "within_limit sz m t (a2, w2)"
    using openCapture_within_limit [OF oc(1,3) cw, of m t sz] assms(3-8,12-15) oc(2) fin by simp
  moreover have "Template (a_retention a2) = t" using r assms(4) by (simp add: capture_retention_def)
  ultimately show ?thesis
    using finished_elsewhere [of "a_retention a2" "c_KeylogPath cfg"] assms(7,9) oc(5,6,7) by (simp add: within_limit_def Let_def)
qed

section \<open>A sidecar that captures\<close>

definition sidecar_config :: config where
  "sidecar_config = sample_config\<lparr>c_CapturePath := ''/v/d.p''\<rparr>"

definition sidecar_env :: env where
  "sidecar_env = limit_env\<lparr>e_listen := None\<rparr>"

lemma sidecar_env_simps:
  "e_statfs sidecar_env = (\<lambda>_. Inr TMPFS_MAGIC)" "e_remove sidecar_env = (\<lambda>_. None)"
  "e_loader sidecar_env = \<lparr>le_memlock = None, le_stat = Some ENOENT, le_mkdir = None, le_spec = None, le_assign = \<lambda>_. None\<rparr>"
  "e_attach4 sidecar_env = None" "e_attachSockops sidecar_env = None" "e_listen sidecar_env = None"
  "e_captureDir sidecar_env = Inr 448" "e_header sidecar_env = (\<lambda>_. 100)" "e_create sidecar_env = sample_env" "e_now sidecar_env = sample_now"
  "e_server sidecar_env = sample_senv" "e_closeLoader sidecar_env = (\<lambda>_. None)" "e_readDir sidecar_env Map.empty = Inr []"
  "e_liveOpen sidecar_env = None" "e_liveLength sidecar_env = None" "e_ng sidecar_env = sample_io"
  by (simp_all add: sidecar_env_def limit_env_def sample_app_env_def)

lemma sidecar_config_simps:
  "c_CgroupPath sidecar_config = ''/c''" "c_PinDir sidecar_config = DefaultPinDir" "c_MaxBytes sidecar_config = 104857600"
  "c_CapturePath sidecar_config = ''/v/d.p''" "\<not> c_Retain sidecar_config"
  by (simp_all add: sidecar_config_def sample_config_def DefaultConfig_def DefaultLoaderConfig_def)

definition sidecar_writer :: cwriter where
  "sidecar_writer = new_writer (\<lambda>_. 100) (run_capture_path sample_now ''/v/d.p'' 0) \<lparr>LinkType = 0, Room = 104857600, OnStop = True\<rparr>"

lemma sidecar_captures:
  assumes "a_cfg a = sidecar_config" "wd_fs w = Map.empty"
  shows "\<exists>fs. openCapture sidecar_env (a, w) =
    (None, a\<lparr>a_capW := Some sidecar_writer, a_retention := (capture_retention sidecar_config)\<lparr>Run := w_path sidecar_writer\<rparr>\<rparr>,
     w\<lparr>wd_fs := fs, wd_capture := True, wd_log := wd_log w @ [LogCaptureStarted (w_path sidecar_writer)]\<rparr>)"
proof -
  define opts where "opts = \<lparr>LinkType = 0, Room = 104857600, OnStop = True\<rparr>"
  have "no_faults sample_env" by (simp add: no_faults_def sample_env_def)
  then have cr: "CreateRunCapture sample_env (\<lambda>_. 100) sample_now ''/v/d.p'' opts Map.empty =
      (Inr sidecar_writer, Map.empty(run_capture_path sample_now ''/v/d.p'' 0 \<mapsto> Regular 0 (created_at sample_env)))"
    using sample_template unfolding sidecar_writer_def opts_def by (intro CreateRunCapture_lowest) simp_all
  have fin: "finished r (Inr []) = Inr []" for r
    by (simp add: finished_def List.map_filter_simps split: prod.split)
  have "swept sidecar_env sidecar_config Map.empty = Map.empty"
    by (simp add: swept_def sidecar_env_simps Enforce_def fin)
  moreover have "RetentionRoom (capture_retention sidecar_config) (Inr []) = (104857600, None)"
    using RetentionRoom_exact [OF fin, of "capture_retention sidecar_config"]
    by (simp add: capture_retention_def sidecar_config_simps owned_total_def)
  moreover have "CheckTarget (Inr 448) = None" by code_simp
  ultimately show ?thesis
    using cr assms
    by (intro exI [of _ "Map.empty(run_capture_path sample_now ''/v/d.p'' 0 \<mapsto> Regular 0 (created_at sample_env))"])
      (simp add: openCapture_unfold sidecar_env_simps sidecar_config_simps HeaderSize_def opts_def)
qed

lemma sidecar_starts:
  "\<exists>a w. Start sidecar_env sidecar_config sample_world = (Inr a, w) \<and> a_capW a = Some sidecar_writer \<and> wd_keylog w \<and> a_live a"
proof -
  have "\<exists>s. fst (NewSocketServer sample_senv cfg lg) = Inr s" for cfg lg
    by (simp add: NewSocketServer_def sample_senv_def checkSocketDir_def and_54_457 NewKeylogWriter_def Let_def)
  then obtain srv where srv: "fst (NewSocketServer sample_senv cfg lg) = Inr (srv cfg lg)" for cfg lg by metis
  obtain fs where oc: "a_cfg a = sidecar_config \<Longrightarrow> wd_fs w = Map.empty \<Longrightarrow> openCapture sidecar_env (a, w) =
    (None, a\<lparr>a_capW := Some sidecar_writer, a_retention := (capture_retention sidecar_config)\<lparr>Run := w_path sidecar_writer\<rparr>\<rparr>,
     w\<lparr>wd_fs := fs a w, wd_capture := True, wd_log := wd_log w @ [LogCaptureStarted (w_path sidecar_writer)]\<rparr>)" for a w
    using sidecar_captures by metis
  show ?thesis
    by (simp add: Start_def sample_tmpfs deleteKeylog_def os_remove_def start_loader_def Load_def LoadProxyObjects_def LoadProxy_def
        sample_validates start_attach_def Attach_def start_relay_def oc startKeylog_def start_live_def StartLive_def srv
        sidecar_env_simps sidecar_config_simps new_app_def sample_world_def Let_def)
qed

section \<open>Counting and tracing\<close>

text \<open>Every step of \<^verbatim>\<open>Close\<close> that is left can be taken.\<close>

lemma serve_closed:
  "sc_closed s \<le> 8 \<Longrightarrow> sc_closed (serve env evs s) = min 8 (sc_closed s + length (filter (\<lambda>ev. ev = CloseStep) evs))"
proof (induction evs arbitrary: s)
  case (Cons ev evs)
  show ?case
  proof (cases "sidecar_step env ev s")
    case None
    have "ev = CloseStep \<Longrightarrow> sc_closed s = 8"
      using None Cons.prems by (auto simp: do_close_def closings_length split: if_splits prod.splits)
    then show ?thesis using None Cons by auto
  next
    case (Some s')
    have "sc_closed s' = (if ev = CloseStep then Suc (sc_closed s) else sc_closed s)" "sc_closed s' \<le> 8"
      using Some Cons.prems step_keeps(2) [OF Some] do_close_result(1,2) [of env s s'] by (cases "ev = CloseStep"; simp)+
    then show ?thesis using Some Cons.IH [of s'] by auto
  qed
qed simp

text \<open>Every packet in the log of a capture was offered to it.\<close>

lemma log_event_packets:
  "p \<in> set (log_packets (log_event ev l)) \<Longrightarrow>
   p \<in> set (log_packets l) \<or> (\<exists>now ci data. ev = EvPacket now ci data \<and> p = (stamp now data ci, data))"
  by (cases ev) (auto simp: log_admit_def split: if_splits)

lemma run_log_packets:
  assumes "run log_step l wevs l'" "p \<in> set (log_packets l')"
  shows "p \<in> set (log_packets l) \<or> (\<exists>now ci data. EvPacket now ci data \<in> fst ` set wevs \<and> p = (stamp now data ci, data))"
  using assms
proof (induction rule: run.induct)
  case (run_Cons l e m es u)
  have m: "m = log_event (fst e) l" using run_Cons.hyps(1) by (simp add: log_step_def)
  from run_Cons.IH [OF run_Cons.prems] show ?case
    using log_event_packets [of p "fst e" l] unfolding m [symmetric] by (metis image_eqI image_insert insertCI list.simps(15))
qed simp

text \<open>
  \<^verbatim>\<open>Close\<close> closes the capture before the keylog server. A new key that arrives in between is
  written to the keylog and accepted by the capture, whose file is closed and stays as it is.
\<close>

lemma late_key_only_in_keylog:
  assumes "a_keylogSrv (sc_app s) = Some srv" "has_sink (sv_writer srv)" "wd_keylog (sc_world s)" "sc_sinking s = None" "sc_conns s i = line # ls"
    "ValidateLine line = None" "line_key line \<notin> seen (sv_writer srv)" "a_capW (sc_app s) = Some cw" "\<not> stopped cw" "\<not> limited cw"
  shows "\<exists>srv' cw'. a_keylogSrv (sc_app (serve env [KeyLine i now WriteOk, Sink] s)) = Some srv'
    \<and> kfile (sv_writer srv') = kfile (sv_writer srv) @ line @ [newline]
    \<and> a_capW (sc_app (serve env [KeyLine i now WriteOk, Sink] s)) = Some cw'
    \<and> accepted_secrets cw' = accepted_secrets cw @ [line] \<and> calls cw' = calls cw"
proof -
  have ne: "line \<noteq> []" by (rule valid_not_Nil [OF assms(6)])
  have active: "captureActive (sc_app s)" using assms(8,9) by (simp add: captureActive_iff)
  define srv' where "srv' = srv\<lparr>sv_writer := (sv_writer srv)\<lparr>kfile := kfile (sv_writer srv) @ line @ [newline],
    seen := insert (line_key line) (seen (sv_writer srv))\<rparr>\<rparr>"
  have "handle_line \<lparr>le_now = now, le_gate = True, le_write = WriteOk\<rparr> line srv
      = (srv', [FileWrite (line @ [newline]), SinkCall line])"
    using Append_written [of line "sv_writer srv" True] assms(2,6,7) ne by (simp add: handle_line_def srv'_def)
  then have step: "do_line i now WriteOk s = Some (s\<lparr>sc_app := (sc_app s)\<lparr>a_keylogSrv := Some srv'\<rparr>, sc_conns := (sc_conns s)(i := ls),
      sc_sinking := Some line\<rparr>)"
    using assms(1,3-6) active by (simp add: do_line_def)
  have "AddSecret line cw = (cw\<lparr>admitted := i64 (admitted cw + dsbSize (length line + 1)), pending := pending cw @ [line]\<rparr>, [])"
    using assms(9,10) ne by (simp add: AddSecret_def admit_def notifyStop_def)
  then show ?thesis
    using step assms(8) by (simp add: do_sink_def set_capture_def srv'_def accepted_secrets_def)
qed

section \<open>Properties\<close>

text \<open>
  C9: whatever the sidecar did, closing it takes everything down. After \<^verbatim>\<open>Start\<close> has succeeded,
  however packets, keylog lines, connections, ticks and the steps of \<^verbatim>\<open>Close\<close> interleave and
  whichever of them fail, all steps of \<^verbatim>\<open>Close\<close> are taken, the goroutines it waits for being
  taken to end; then no program is attached, nothing listens and nothing captures, eBPF objects
  and pins are released up to failures of the kernel to release them, the keylog is deleted and
  this run's capture is deleted, unless it is to be retained, when removing them does not
  fail, and no file has appeared since the start.
\<close>

theorem sidecar_shutdown_takes_everything_down:
  assumes "Start env cfg w0 = (Inr a, w)" "pristine w0" "s = finish env (serve env evs (running env a w))"
  shows "sc_closed s = length (closings env) \<and> released env (sc_world s)
    \<and> ((\<forall>act. e_closeLoader env act = None) \<longrightarrow> pristine (sc_world s))
    \<and> (e_remove env (c_KeylogPath cfg) = None \<and> c_KeylogPath cfg \<noteq> [] \<longrightarrow> wd_fs (sc_world s) (c_KeylogPath cfg) = None)
    \<and> (e_remove env (Run (a_retention a)) = None \<and> \<not> Retain (a_retention a) \<and> Run (a_retention a) \<noteq> []
         \<longrightarrow> wd_fs (sc_world s) (Run (a_retention a)) = None)
    \<and> (\<forall>p. wd_fs (sc_world s) p = wd_fs w p \<or> wd_fs (sc_world s) p = None)"
proof -
  have ok: "closing_ok env s" "sc_closed s = 8"
    using finish_closed [OF closing_ok_serve [OF Start_tracked [OF assms(1,2)]], of env evs] assms(3) by simp_all
  have kept: "a_retention (sc_app s) = a_retention a \<and> a_cfg (sc_app s) = a_cfg a \<and> no_new_files (wd_fs w) (wd_fs (sc_world s))"
    using serve_files [of env _ "running env a w"] unfolding assms(3) finish_def serve_append [symmetric] by (simp add: running_def)
  have "a_cfg a = cfg" by (rule Start_success [OF assms(1)])
  note released = closed_released [OF ok]
  show ?thesis
    using released released_pristine [OF released] ok kept \<open>a_cfg a = cfg\<close>
    by (simp add: closings_length closing_ok_def Let_def no_new_files_def)
qed

lemma sidecar_shutdown_takes_everything_down_witness:
  "\<exists>a w. Start sidecar_env sidecar_config sample_world = (Inr a, w) \<and> a_live a \<and> wd_keylog w
     \<and> pristine (sc_world (finish sidecar_env (serve sidecar_env [Packet 5 sample_info ''ab'', CloseStep, AcceptKeylog ''x'', CloseStep] (running sidecar_env a w))))"
proof -
  obtain a w where st: "Start sidecar_env sidecar_config sample_world = (Inr a, w)" "wd_keylog w" "a_live a"
    using sidecar_starts by blast
  have "\<forall>act. e_closeLoader sidecar_env act = None" by (simp add: sidecar_env_simps)
  then show ?thesis
    using sidecar_shutdown_takes_everything_down [OF st(1) pristine_sample refl] st by blast
qed

text \<open>
  C12: the keylog and the capture hold the same keys. However the connections of any number of
  clients, the packets, the ticks and the steps of \<^verbatim>\<open>Close\<close> interleave, as long as a failed write
  to the keylog writes nothing, the keylog is what it held at the start followed by exactly the
  secrets the capture accepted, in the same order, and at most one line more: the one on its way
  to the capture, or the one at which capture stopped. Without a capture it gains nothing.
\<close>

theorem sidecar_keylog_agrees_with_capture:
  assumes "Start env cfg w0 = (Inr a, w)" "\<forall>ev \<in> set evs. whole_writes ev" "s = serve env evs (running env a w)"
  shows "\<exists>srv extra. a_keylogSrv (sc_app s) = Some srv
    \<and> kfile (sv_writer srv) = keylog_content (e_server env) @ unlines (kept_secrets (sc_app s) @ extra)
    \<and> (extra = [] \<or> (\<exists>line. extra = [line] \<and> (sc_sinking s = Some line \<or> \<not> captureActive (sc_app s))))
    \<and> (a_capW (sc_app s) = None \<longrightarrow> kept_secrets (sc_app s) @ extra = [])"
proof -
  have "keys_ok (keylog_content (e_server env)) s"
    unfolding assms(3)
    by (rule serve_keeps) (use assms(2) Start_keys_ok [OF assms(1)] keys_ok_step in \<open>blast+\<close>)
  then obtain srv extra where "a_keylogSrv (sc_app s) = Some srv"
      "holds_lines (keylog_content (e_server env)) (kept_secrets (sc_app s) @ extra) (sv_writer srv)"
      "on_its_way (sc_sinking s) (captureActive (sc_app s)) extra" "extra \<noteq> [] \<longrightarrow> a_capW (sc_app s) \<noteq> None"
    by (rule keys_okE)
  then show ?thesis
    by (intro exI [of _ srv] exI [of _ extra])
      (auto simp: holds_lines_def on_its_way_def kept_secrets_def length_Suc_conv split: option.splits)
qed

lemma sidecar_keylog_agrees_with_capture_witness:
  "\<exists>a w srv extra. Start sidecar_env sidecar_config sample_world = (Inr a, w) \<and> a_capW a \<noteq> None
     \<and> (let s = serve sidecar_env [AcceptKeylog (sample_line @ [newline]), KeyLine 0 5 WriteOk, CloseStep] (running sidecar_env a w)
        in a_keylogSrv (sc_app s) = Some srv \<and> kfile (sv_writer srv) = unlines (kept_secrets (sc_app s) @ extra))"
proof -
  obtain a w where st: "Start sidecar_env sidecar_config sample_world = (Inr a, w)" "a_capW a = Some sidecar_writer"
    using sidecar_starts by blast
  let ?evs = "[AcceptKeylog (sample_line @ [newline]), KeyLine 0 5 WriteOk, CloseStep]"
  have "keylog_content (e_server sidecar_env) = []" by (simp add: sidecar_env_simps sample_senv_def)
  moreover have "\<forall>ev \<in> set ?evs. whole_writes ev" by simp
  from sidecar_keylog_agrees_with_capture [OF st(1) this refl] obtain srv extra where
    "a_keylogSrv (sc_app (serve sidecar_env ?evs (running sidecar_env a w))) = Some srv"
    "kfile (sv_writer srv) = keylog_content (e_server sidecar_env)
       @ unlines (kept_secrets (sc_app (serve sidecar_env ?evs (running sidecar_env a w))) @ extra)"
    by blast
  ultimately show ?thesis
    using st unfolding Let_def by (intro exI [of _ a] exI [of _ w] exI [of _ srv] exI [of _ extra] conjI) simp_all
qed

text \<open>
  C5: the captures together never pass \<^verbatim>\<open>--max-bytes\<close>. From \<^verbatim>\<open>Start\<close> on, through any events, the
  bytes in this run's file, with those of everything queued for it, and the bytes of all
  finished captures in the directory add up to at most the limit; for an encoder that writes no
  more than the size of each block, and a keylog that does not have the name of a capture.
\<close>

theorem sidecar_within_max_bytes:
  assumes "Start env cfg w0 = (Inr a, w)" "a_capW a \<noteq> None" "m = c_MaxBytes cfg" "t = c_CapturePath cfg" "0 < m" "m \<le> 2 ^ 62"
    "file_template t" "honest_listing env (path_dir t)" "\<not> capture_name t (path_base (c_KeylogPath cfg))"
    "finite (dom (wd_fs w0))" "finished_bytes (capture_retention cfg) (wd_fs w0) \<le> max_i64" "0 \<le> time_unix (e_now env)"
    "pcapgo_sizes sz" "sz (NgNewWriter 1) \<le> e_header env 1" "0 < e_header env 1"
    "\<forall>ev \<in> set evs. sized ev" "s = serve env evs (running env a w)"
  shows "\<exists>cw. a_capW (sc_app s) = Some cw
    \<and> int (file_size sz cw + queued_size cw) + finished_bytes (a_retention (sc_app s)) (wd_fs (sc_world s)) \<le> m"
proof -
  have "within_limit sz m t (sc_app s, sc_world s)"
    unfolding assms(17)
    by (rule serve_within_limit [OF Start_within_limit [OF assms(1-15)] assms(16,13,8,7,5,6)])
  then show ?thesis by (auto simp: within_limit_def Let_def room_ok_def)
qed

lemma sidecar_within_max_bytes_witness:
  "\<exists>a w cw. Start sidecar_env sidecar_config sample_world = (Inr a, w)
     \<and> (let s = serve sidecar_env [Packet 5 sample_info ''ab'', RetentionTick 7, DrainTick 9] (running sidecar_env a w)
        in a_capW (sc_app s) = Some cw
         \<and> int (file_size sample_sz cw + queued_size cw) + finished_bytes (a_retention (sc_app s)) (wd_fs (sc_world s)) \<le> 104857600)"
proof -
  obtain a w where st: "Start sidecar_env sidecar_config sample_world = (Inr a, w)" "a_capW a \<noteq> None"
    using sidecar_starts by auto
  have none: "finished_paths r Map.empty = {}" for r
    by (auto simp: finished_paths_def dest: finished_capture_node)
  have honest: "honest_listing sidecar_env dir" for dir
    using limit_env_honest [of dir] by (simp add: honest_listing_def sidecar_env_def)
  let ?evs = "[Packet 5 sample_info ''ab'', RetentionTick 7, DrainTick 9]"
  have "\<not> capture_name ''/v/d.p'' (path_base (c_KeylogPath sidecar_config))" by code_simp
  moreover have "\<forall>ev \<in> set ?evs. sized ev" by (simp add: small_def)
  moreover have "finished_bytes r Map.empty = 0" for r by (simp add: finished_bytes_def none)
  ultimately obtain cw where "a_capW (sc_app (serve sidecar_env ?evs (running sidecar_env a w))) = Some cw"
    "int (file_size sample_sz cw + queued_size cw)
      + finished_bytes (a_retention (sc_app (serve sidecar_env ?evs (running sidecar_env a w))))
          (wd_fs (sc_world (serve sidecar_env ?evs (running sidecar_env a w)))) \<le> c_MaxBytes sidecar_config"
    using sidecar_within_max_bytes [OF st refl refl _ _ _ honest _ _ _ _ pcapgo_sizes_sample _ _ _ refl, of ?evs] sample_template
    by (auto simp del: serve.simps simp: sidecar_config_simps sidecar_env_simps sample_world_def sample_sz_def)
  then show ?thesis
    using st(1) unfolding Let_def sidecar_config_simps by (intro exI [of _ a] exI [of _ w] exI [of _ cw] conjI)
qed

text \<open>
  C22: a closed capture is complete and final. Once \<^verbatim>\<open>Close\<close> has closed the capture, every packet
  it ever accepted is in its file, once and in order, and the file was closed by the last call
  on it; and whatever still happens, nothing is written to it again. Keys that arrive from then
  on may still be accepted, and are then only in the keylog.
\<close>

theorem sidecar_closed_capture_is_final:
  assumes "Start env cfg w0 = (Inr a, w)" "s = serve env evs (running env a w)" "2 < sc_closed s" "a_capW (sc_app s) = Some cw"
  shows "(\<exists>cs. calls cw = cs @ [FileClose] \<and> FileClose \<notin> set cs \<and> packets_of cs = accepted_packets cw)
    \<and> (\<exists>cw'. a_capW (sc_app (serve env evs' s)) = Some cw' \<and> calls cw' = calls cw \<and> accepted_packets cw' = accepted_packets cw)"
proof -
  have "capture_done s"
    unfolding assms(2) by (rule serve_keeps) (use capture_done_step Start_capture_done [OF assms(1)] in \<open>blast+\<close>)
  then have cw: "closed cw" "sealed (calls cw)" "held cw = []" using assms(3,4) by (simp_all add: capture_done_def)
  let ?final = "\<lambda>t. capture_done t \<and> 2 < sc_closed t \<and> (\<exists>cw'. a_capW (sc_app t) = Some cw' \<and> calls cw' = calls cw \<and> held cw' = [])"
  have "?final t'" if step: "sidecar_step env ev t = Some t'" and t: "?final t" for ev t t'
  proof -
    obtain cw1 where cw1: "a_capW (sc_app t) = Some cw1" "calls cw1 = calls cw" "held cw1 = []" using t by blast
    from step_closed_capture [OF step _ _ cw1(1)] t cw1 obtain cw2 where
      "a_capW (sc_app t') = Some cw2" "calls cw2 = calls cw" "held cw2 = []" by auto
    moreover have "2 < sc_closed t'" using step_keeps(2) [OF step] do_close_result(2) [of env t t'] step t by (cases "ev = CloseStep") auto
    ultimately show ?thesis using capture_done_step [OF step] t by blast
  qed
  then have "?final (serve env evs' s)"
    by (rule serve_keeps) (use \<open>capture_done s\<close> assms(3,4) cw in auto)
  then show ?thesis using cw by (auto simp: sealed_def accepted_packets_def)
qed

lemma sidecar_closed_capture_is_final_witness:
  "\<exists>a w cw cw'. Start sidecar_env sidecar_config sample_world = (Inr a, w)
     \<and> (let s = serve sidecar_env (Packet 5 sample_info ''ab'' # replicate 3 CloseStep) (running sidecar_env a w)
        in a_capW (sc_app s) = Some cw \<and> last (calls cw) = FileClose
         \<and> a_capW (sc_app (serve sidecar_env [AcceptKeylog (sample_line @ [newline]), KeyLine 0 5 WriteOk, Sink] s)) = Some cw'
         \<and> calls cw' = calls cw)"
proof -
  let ?evs = "Packet 5 sample_info ''ab'' # replicate 3 CloseStep"
  obtain a w where st: "Start sidecar_env sidecar_config sample_world = (Inr a, w)" "a_capW a = Some sidecar_writer"
    using sidecar_starts by blast
  define s where "s = serve sidecar_env ?evs (running sidecar_env a w)"
  obtain cw where cw: "a_capW (sc_app s) = Some cw"
    using serve_capture [of "running sidecar_env a w" sidecar_writer sidecar_env ?evs] st(2) by (auto simp: s_def running_def)
  have "sc_closed s = 3" using serve_closed [of "running sidecar_env a w" sidecar_env ?evs] by (simp add: s_def running_def)
  then have "2 < sc_closed s" by simp
  from sidecar_closed_capture_is_final [OF st(1) s_def this cw, of "[AcceptKeylog (sample_line @ [newline]), KeyLine 0 5 WriteOk, Sink]"]
  obtain cs cw' where "calls cw = cs @ [FileClose]"
      "a_capW (sc_app (serve sidecar_env [AcceptKeylog (sample_line @ [newline]), KeyLine 0 5 WriteOk, Sink] s)) = Some cw'"
      "calls cw' = calls cw" by blast
  then show ?thesis
    unfolding Let_def using st(1) cw
    by (intro exI [of _ a] exI [of _ w] exI [of _ cw] exI [of _ cw'] conjI) (simp_all del: serve.simps flip: s_def)
qed

text \<open>
  C29: the capture of a running sidecar is the append-only log of \<open>capture_refines_log\<close>. It starts
  empty, every run of the sidecar takes it through a run of that log, and every packet in it is
  one that the interface delivered, as the writer stamps it.
\<close>

theorem sidecar_capture_refines_log:
  assumes "Start env cfg w0 = (Inr a, w)" "a_capW a = Some cw0" "s = serve env evs (running env a w)"
  shows "log_packets (log_of cw0) = [] \<and> log_secrets (log_of cw0) = []
    \<and> (\<exists>cw wevs. a_capW (sc_app s) = Some cw \<and> run log_step (log_of cw0) wevs (log_of cw)
         \<and> (\<forall>p \<in> set (log_packets (log_of cw)). \<exists>now ci data. Packet now ci data \<in> set evs \<and> p = (stamp now data ci, data)))"
proof -
  have empty: "log_packets (log_of cw0) = []" "log_secrets (log_of cw0) = []"
    using Start_fresh [OF assms(1,2)] by (auto simp: fresh_def new_writer_def log_defs)
  obtain cw wevs where cw: "a_capW (sc_app s) = Some cw" "run (wstep (e_ng env)) cw0 wevs cw"
      "\<forall>now ci data. EvPacket now ci data \<in> fst ` set wevs \<longrightarrow> Packet now ci data \<in> set evs"
    using serve_capture [of "running env a w" cw0 env evs] assms(2,3) by (auto simp: running_def)
  note log = capture.run_simulates [OF cw(2)]
  have "\<exists>now ci data. Packet now ci data \<in> set evs \<and> p = (stamp now data ci, data)" if "p \<in> set (log_packets (log_of cw))" for p
    using run_log_packets [OF log that] empty(1) cw(3) by (metis empty_iff list.set(1))
  then show ?thesis using empty cw(1) log by blast
qed

lemma sidecar_capture_refines_log_witness:
  "\<exists>a w cw. Start sidecar_env sidecar_config sample_world = (Inr a, w)
     \<and> a_capW (sc_app (serve sidecar_env [Packet 5 sample_info ''ab'', DrainTick 9] (running sidecar_env a w))) = Some cw
     \<and> set (log_packets (log_of cw)) \<subseteq> {(stamp 5 ''ab'' sample_info, ''ab'')}"
proof -
  obtain a w where st: "Start sidecar_env sidecar_config sample_world = (Inr a, w)" "a_capW a = Some sidecar_writer"
    using sidecar_starts by blast
  from sidecar_capture_refines_log [OF st refl, of "[Packet 5 sample_info ''ab'', DrainTick 9]"] obtain cw where
    "a_capW (sc_app (serve sidecar_env [Packet 5 sample_info ''ab'', DrainTick 9] (running sidecar_env a w))) = Some cw"
    "\<forall>p \<in> set (log_packets (log_of cw)). \<exists>now ci data. Packet now ci data \<in> set [Packet 5 sample_info ''ab'', DrainTick 9]
       \<and> p = (stamp now data ci, data)" by blast
  then show ?thesis using st(1) by (intro exI [of _ a] exI [of _ w] exI [of _ cw] conjI) (simp_all del: serve.simps, auto)
qed

end
