(* ===== verification/Preload.thy ===== *)
theory Preload
  imports Keylog_Server
begin

text \<open>
  \<^verbatim>\<open>preload/keylog_preload.c\<close>: the library loaded into the application. Its keylog callback
  sends each line OpenSSL gives it over a Unix socket to the keylog server, reconnecting and
  retrying a bounded number of times. What the operating system answers is an argument;
  connections are the bytes written to them, so that the server's model reads them.
\<close>

section \<open>State\<close>

text \<open>
  The globals \<^verbatim>\<open>g_sock_fd\<close>, \<^verbatim>\<open>g_socket_path_loaded\<close> and \<^verbatim>\<open>g_socket_path\<close>; the bytes written to the
  open connection, the bytes of the connections closed before it, oldest first, and whether a
  write on a connection the peer had closed has killed the process (\<^verbatim>\<open>SIGPIPE\<close>).
\<close>

record preload =
  pl_conn :: "string option" \<comment> \<open>\<^verbatim>\<open>g_sock_fd >= 0\<close>, and what was written to it\<close>
  pl_loaded :: bool
  pl_path :: "string option"
  pl_closed :: "string list"
  pl_killed :: bool

definition preload_init :: preload where
  "preload_init = \<lparr>pl_conn = None, pl_loaded = False, pl_path = None, pl_closed = [], pl_killed = False\<rparr>"

text \<open>The answer of \<^verbatim>\<open>write\<close>: some bytes written, an error, or an error with the signal.\<close>

datatype write_answer = Wrote nat | WriteErrno nat | BrokenPipe

record attempt_env =
  at_socket :: bool \<comment> \<open>\<^verbatim>\<open>socket\<close> gives a descriptor\<close>
  at_connect :: "string \<Rightarrow> bool" \<comment> \<open>\<^verbatim>\<open>connect\<close> to the address succeeds\<close>
  at_write :: write_answer
  at_ignored :: bool \<comment> \<open>the process ignores or handles \<^verbatim>\<open>SIGPIPE\<close>\<close>

definition KEYLOG_MAX_SEND_ATTEMPTS :: nat where "KEYLOG_MAX_SEND_ATTEMPTS = 3"
definition KEYLOG_RETRY_DELAY_NS :: duration where "KEYLOG_RETRY_DELAY_NS = 20 * 1000 * 1000"

text \<open>The room of \<^verbatim>\<open>sun_path\<close> for a path, its terminating zero aside.\<close>

definition sun_path_max :: nat where "sun_path_max = 107"

section \<open>Operations\<close>

definition load_socket_path_once :: "string option \<Rightarrow> preload \<Rightarrow> preload" where
  "load_socket_path_once getenv p = (if pl_loaded p then p else p\<lparr>pl_path := getenv, pl_loaded := True\<rparr>)"

definition connect_locked :: "attempt_env \<Rightarrow> preload \<Rightarrow> bool \<times> preload" where
  "connect_locked at p =
     (case pl_conn p of
        Some _ \<Rightarrow> (True, p)
      | None \<Rightarrow>
          (case pl_path p of
             None \<Rightarrow> (False, p)
           | Some path \<Rightarrow>
               if path = [] then (False, p)
               else if \<not> at_socket at then (False, p)
               else if \<not> at_connect at (take sun_path_max path) then (False, p)
               else (True, p\<lparr>pl_conn := Some []\<rparr>)))"

text \<open>One \<^verbatim>\<open>write\<close> on the open connection: whether all of \<open>buf\<close> went out.\<close>

definition write_locked :: "attempt_env \<Rightarrow> string \<Rightarrow> preload \<Rightarrow> bool \<times> preload" where
  "write_locked at buf p =
     (case (pl_conn p, at_write at) of
        (Some sent, Wrote n) \<Rightarrow> (n \<ge> length buf, p\<lparr>pl_conn := Some (sent @ take n buf)\<rparr>)
      | (_, BrokenPipe) \<Rightarrow> (False, p\<lparr>pl_killed := \<not> at_ignored at\<rparr>)
      | _ \<Rightarrow> (False, p))"

definition close_conn :: "preload \<Rightarrow> preload" where
  "close_conn p = (case pl_conn p of None \<Rightarrow> p | Some sent \<Rightarrow> p\<lparr>pl_conn := None, pl_closed := pl_closed p @ [sent]\<rparr>)"

text \<open>
  The loop, on the attempts left: whether the line was sent, and how long it slept. A killed
  process does nothing more.
\<close>

fun send_attempts :: "nat \<Rightarrow> (nat \<Rightarrow> attempt_env) \<Rightarrow> nat \<Rightarrow> string \<Rightarrow> preload \<Rightarrow> bool \<times> duration list \<times> preload" where
  "send_attempts 0 at i buf p = (False, [], p)"
| "send_attempts (Suc n) at i buf p =
     (let (ok, p1) = connect_locked (at i) p in
      if \<not> ok then
        (let (sent, naps, p2) = send_attempts n at (Suc i) buf p1 in (sent, KEYLOG_RETRY_DELAY_NS # naps, p2))
      else let (all, p2) = write_locked (at i) buf p1 in
        if all then (True, [], p2)
        else if pl_killed p2 then (False, [], p2)
        else (let (sent, naps, p3) = send_attempts n at (Suc i) buf (close_conn p2)
              in (sent, KEYLOG_RETRY_DELAY_NS # naps, p3)))"

definition send_line_locked :: "(nat \<Rightarrow> attempt_env) \<Rightarrow> string \<Rightarrow> preload \<Rightarrow> bool \<times> duration list \<times> preload" where
  "send_line_locked at buf p = send_attempts KEYLOG_MAX_SEND_ATTEMPTS at 0 buf p"

text \<open>The callback; \<open>mem\<close> says whether \<^verbatim>\<open>malloc\<close> gives the buffer.\<close>

definition keylog_cb :: "string option \<Rightarrow> bool \<Rightarrow> (nat \<Rightarrow> attempt_env) \<Rightarrow> string \<Rightarrow> preload \<Rightarrow> bool \<times> duration list \<times> preload" where
  "keylog_cb getenv mem at line p =
     (let p1 = load_socket_path_once getenv p in
      if pl_path p1 = None \<or> pl_path p1 = Some [] then (False, [], p1)
      else if \<not> mem then (False, [], p1)
      else send_line_locked at (line @ [newline]) p1)"

text \<open>
  The interposed constructors: \<open>real\<close> is the library's function, if it is found, and the
  context it gives has the callback registered.
\<close>

definition SSL_CTX_new :: "('m \<Rightarrow> 'c option) option \<Rightarrow> 'm \<Rightarrow> 'c option \<times> 'c list" where
  "SSL_CTX_new real m =
     (let ctx = (case real of Some f \<Rightarrow> f m | None \<Rightarrow> None)
      in (ctx, case ctx of Some c \<Rightarrow> [c] | None \<Rightarrow> []))"

definition SSL_CTX_new_ex :: "('l \<Rightarrow> 'p \<Rightarrow> 'm \<Rightarrow> 'c option) option \<Rightarrow> 'l \<Rightarrow> 'p \<Rightarrow> 'm \<Rightarrow> 'c option \<times> 'c list" where
  "SSL_CTX_new_ex real l q m =
     (let ctx = (case real of Some f \<Rightarrow> f l q m | None \<Rightarrow> None)
      in (ctx, case ctx of Some c \<Rightarrow> [c] | None \<Rightarrow> []))"

section \<open>What is on the connections\<close>

text \<open>
  Of the lines in \<open>L\<close>, an open connection carries whole ones; a closed one may end in one cut
  short, its newline missing or more.
\<close>

definition whole :: "string set \<Rightarrow> string \<Rightarrow> bool" where
  "whole L s \<longleftrightarrow> (\<exists>ls. s = unlines ls \<and> set ls \<subseteq> L)"

definition cut :: "string set \<Rightarrow> string \<Rightarrow> bool" where
  "cut L s \<longleftrightarrow> (\<exists>ls part l. s = unlines ls @ part \<and> set ls \<subseteq> L \<and> l \<in> L \<and> prefix part l)"

definition framed :: "string set \<Rightarrow> preload \<Rightarrow> bool" where
  "framed L p \<longleftrightarrow> (\<forall>s. pl_conn p = Some s \<longrightarrow> whole L s) \<and> (\<forall>s \<in> set (pl_closed p). cut L s)"

lemma framed_connect:
  assumes "framed L p" "connect_locked at p = (ok, p')"
  shows "framed L p' \<and> pl_killed p' = pl_killed p \<and> (ok \<longrightarrow> pl_conn p' \<noteq> None)"
  using assms by (auto simp: framed_def connect_locked_def whole_def intro: exI [of _ "[]"] split: option.splits if_splits)

lemma whole_line: "whole L s \<Longrightarrow> l \<in> L \<Longrightarrow> whole L (s @ l @ [newline])"
  unfolding whole_def by (elim exE conjE, rule_tac x = "ls @ [l]" in exI) simp

lemma cut_line: "whole L s \<Longrightarrow> l \<in> L \<Longrightarrow> n < length (l @ [newline]) \<Longrightarrow> cut L (s @ take n (l @ [newline]))"
  unfolding whole_def cut_def by (force simp: take_is_prefix)

lemma whole_cut: "whole L s \<Longrightarrow> l \<in> L \<Longrightarrow> cut L s"
  using cut_line [of L s l 0] by simp

text \<open>A write that did not send everything left a connection that is closed at once.\<close>

lemma framed_write:
  assumes "framed L p" "pl_conn p \<noteq> None" "\<not> pl_killed p" "l \<in> L" "write_locked at (l @ [newline]) p = (all, p')"
  shows "if all then framed L p' \<and> \<not> pl_killed p' \<and> (\<exists>s. pl_conn p' = Some (s @ l @ [newline]))
    else if pl_killed p' then framed L p' else framed L (close_conn p') \<and> \<not> pl_killed (close_conn p')"
proof -
  obtain s where s: "pl_conn p = Some s" "whole L s" using assms(1,2) by (auto simp: framed_def)
  show ?thesis
    using assms(1,3,5) s whole_line [OF s(2) assms(4)] cut_line [OF s(2) assms(4)] whole_cut [OF s(2) assms(4)]
    by (cases "at_write at") (auto simp: write_locked_def close_conn_def framed_def)
qed

lemma send_attempts_framed:
  assumes "framed L p" "\<not> pl_killed p" "l \<in> L" "send_attempts n at i (l @ [newline]) p = (sent, naps, p')"
  shows "framed L p' \<and> (sent \<longrightarrow> (\<exists>s. pl_conn p' = Some (s @ l @ [newline])))"
  using assms
proof (induction n arbitrary: i p naps)
  case (Suc n)
  obtain ok p1 where c: "connect_locked (at i) p = (ok, p1)" by fastforce
  have p1: "framed L p1" "\<not> pl_killed p1" "ok \<Longrightarrow> pl_conn p1 \<noteq> None"
    using framed_connect [OF Suc.prems(1) c] Suc.prems(2) by auto
  show ?case
  proof (cases ok)
    case False
    then obtain naps' where "send_attempts n at (Suc i) (l @ [newline]) p1 = (sent, naps', p')"
      using Suc.prems(4) c by (auto split: prod.splits)
    then show ?thesis by (rule Suc.IH [OF p1(1,2) assms(3)])
  next
    case True
    obtain all p2 where w: "write_locked (at i) (l @ [newline]) p1 = (all, p2)" by fastforce
    note p2 = framed_write [OF p1(1) p1(3) [OF True] p1(2) assms(3) w]
    show ?thesis
    proof (cases "all \<or> pl_killed p2")
      case True': True
      then have "p' = p2 \<and> sent = all" using Suc.prems(4) c w True by (auto split: if_splits)
      then show ?thesis using p2 True' by (auto split: if_splits)
    next
      case False
      then obtain naps' where "send_attempts n at (Suc i) (l @ [newline]) (close_conn p2) = (sent, naps', p')"
        using Suc.prems(4) c w True by (auto split: prod.splits)
      then show ?thesis using Suc.IH [of "close_conn p2" "Suc i" naps'] p2 False assms(3) by auto
    qed
  qed
qed simp

lemma send_attempts_naps:
  "send_attempts n at i buf p = (sent, naps, p') \<Longrightarrow> naps = replicate (length naps) KEYLOG_RETRY_DELAY_NS \<and> length naps \<le> n"
  by (induction n arbitrary: i p naps) (fastforce simp: Let_def split: prod.splits if_splits)+

lemma keylog_cb_naps:
  assumes "keylog_cb getenv mem at line p = (sent, naps, p')"
  shows "sum_list naps \<le> 60000000"
proof -
  have "naps = replicate (length naps) KEYLOG_RETRY_DELAY_NS \<and> length naps \<le> KEYLOG_MAX_SEND_ATTEMPTS"
    using assms send_attempts_naps
    by (fastforce simp: keylog_cb_def Let_def send_line_locked_def split: if_splits)
  then obtain n where "naps = replicate n KEYLOG_RETRY_DELAY_NS" "n \<le> 3"
    by (auto simp: KEYLOG_MAX_SEND_ATTEMPTS_def)
  then show ?thesis by (simp add: sum_list_replicate KEYLOG_RETRY_DELAY_NS_def)
qed

text \<open>A process's callbacks, in the order their lock is taken, until it is killed.\<close>

record callback =
  cb_line :: string
  cb_mem :: bool
  cb_at :: "nat \<Rightarrow> attempt_env"

fun callbacks :: "string option \<Rightarrow> callback list \<Rightarrow> preload \<Rightarrow> preload" where
  "callbacks getenv [] p = p"
| "callbacks getenv (c # cs) p =
     (if pl_killed p then p
      else callbacks getenv cs (snd (snd (keylog_cb getenv (cb_mem c) (cb_at c) (cb_line c) p))))"

lemma keylog_cb_framed:
  assumes "framed L p" "\<not> pl_killed p" "line \<in> L" "keylog_cb getenv mem at line p = (sent, naps, p')"
  shows "framed L p' \<and> (sent \<longrightarrow> (\<exists>s. pl_conn p' = Some (s @ line @ [newline])))"
proof -
  define p1 where "p1 = load_socket_path_once getenv p"
  have p1: "framed L p1" "\<not> pl_killed p1"
    using assms(1,2) by (auto simp: p1_def load_socket_path_once_def framed_def)
  show ?thesis
    using assms(4) p1(1) send_attempts_framed [OF p1 assms(3)]
    by (auto simp: keylog_cb_def Let_def p1_def [symmetric] send_line_locked_def split: if_splits)
qed

lemma callbacks_framed:
  "framed L p \<Longrightarrow> cb_line ` set cs \<subseteq> L \<Longrightarrow> framed L (callbacks getenv cs p)"
proof (induction cs arbitrary: p)
  case (Cons c cs)
  obtain sent naps p' where cb: "keylog_cb getenv (cb_mem c) (cb_at c) (cb_line c) p = (sent, naps, p')"
    using prod_cases3 by blast
  then show ?case
    using keylog_cb_framed [OF Cons.prems(1) _ _ cb] Cons.IH [of p'] Cons.prems by auto
qed simp

lemma callbacks_no_path:
  assumes "getenv = None \<or> getenv = Some []" "\<not> pl_loaded p \<or> pl_path p = getenv"
  shows "pl_conn (callbacks getenv cs p) = pl_conn p \<and> pl_closed (callbacks getenv cs p) = pl_closed p"
  using assms(2)
proof (induction cs arbitrary: p)
  case (Cons c cs)
  let ?p = "load_socket_path_once getenv p"
  have "pl_path ?p = getenv" using Cons.prems by (auto simp: load_socket_path_once_def)
  moreover from this have "snd (snd (keylog_cb getenv (cb_mem c) (cb_at c) (cb_line c) p)) = ?p"
    using assms(1) by (auto simp: keylog_cb_def Let_def)
  moreover have "pl_conn ?p = pl_conn p" "pl_closed ?p = pl_closed p" by (simp_all add: load_socket_path_once_def)
  ultimately show ?case using Cons.IH [of ?p] by simp
qed simp

text \<open>
  Two ways in which the application can still be hurt. The socket is written with \<^verbatim>\<open>write\<close>, so
  a line sent after the sidecar has closed its end kills a process that leaves \<^verbatim>\<open>SIGPIPE\<close> as
  it is; and a path longer than \<^verbatim>\<open>sun_path\<close> is cut, so that another socket is connected to.
\<close>

lemma broken_pipe_kills:
  assumes "pl_loaded p" "pl_path p = Some path" "path \<noteq> []" "pl_conn p = Some sent" "mem"
    "at_write (at 0) = BrokenPipe" "\<not> at_ignored (at 0)"
  shows "pl_killed (snd (snd (keylog_cb getenv mem at line p)))"
  using assms
  by (simp add: keylog_cb_def load_socket_path_once_def send_line_locked_def KEYLOG_MAX_SEND_ATTEMPTS_def numeral_3_eq_3
      connect_locked_def write_locked_def)

lemma long_path_connects_elsewhere:
  assumes "pl_conn p = None" "pl_path p = Some path" "path \<noteq> []" "sun_path_max < length path"
    "at_socket at" "at_connect at = (\<lambda>addr. addr = take sun_path_max path)"
  shows "connect_locked at p = (True, p\<lparr>pl_conn := Some []\<rparr>) \<and> take sun_path_max path \<noteq> path"
  using assms by (simp add: connect_locked_def)

text \<open>Interposing changes nothing about the context, and registers the callback on it.\<close>

lemma SSL_CTX_new_transparent:
  "fst (SSL_CTX_new (Some f) m) = f m" "fst (SSL_CTX_new_ex (Some g) l q m) = g l q m"
  by (simp_all add: SSL_CTX_new_def SSL_CTX_new_ex_def Let_def)

lemma SSL_CTX_new_registers:
  "c \<in> set (snd (SSL_CTX_new real m)) \<longleftrightarrow> fst (SSL_CTX_new real m) = Some c"
  "c \<in> set (snd (SSL_CTX_new_ex real' l q m)) \<longleftrightarrow> fst (SSL_CTX_new_ex real' l q m) = Some c"
  by (auto simp: SSL_CTX_new_def SSL_CTX_new_ex_def Let_def split: option.splits)

section \<open>Into the keylog\<close>

text \<open>The connections of a process, closed ones first.\<close>

definition connections :: "preload \<Rightarrow> string list" where
  "connections p = pl_closed p @ (case pl_conn p of Some s \<Rightarrow> [s] | None \<Rightarrow> [])"

lemma connections_framed:
  assumes "framed L p" "s \<in> set (connections p)"
  obtains ls part where "s = unlines ls @ part" "set ls \<subseteq> L" "part = [] \<or> (\<exists>l \<in> L. prefix part l)"
proof (cases "s \<in> set (pl_closed p)")
  case True
  then have "cut L s" using assms(1) by (simp add: framed_def)
  then show thesis using that unfolding cut_def by blast
next
  case False
  then have "pl_conn p = Some s" using assms(2) by (auto simp: connections_def split: option.splits)
  then have "whole L s" using assms(1) by (simp add: framed_def)
  then show thesis using that [of _ "[]"] unfolding whole_def by auto
qed

lemma scan_lines_cut:
  assumes "\<forall>l \<in> set ls. newline \<notin> set l \<and> carriage_return \<notin> set l \<and> length l < mx"
    "newline \<notin> set part" "carriage_return \<notin> set part" "length part < mx"
  shows "set (fst (scan_lines mx (unlines ls @ part))) \<subseteq> set ls \<union> {part}"
  using assms(1)
proof (induction ls)
  case Nil
  have "drop_cr part = part" using assms(3) by (auto simp: drop_cr_def dest: last_in_set)
  then show ?case using scan_lines_last [OF assms(2,4)] by (cases "part = []") simp_all
next
  case (Cons l ls)
  then have "drop_cr l = l" by (auto simp: drop_cr_def dest: last_in_set)
  with Cons show ?case by (auto simp: scan_lines_line case_prod_beta)
qed

text \<open>What a cut line may become.\<close>

definition shortened :: "string \<Rightarrow> string \<Rightarrow> bool" where
  "shortened l line \<longleftrightarrow> (\<exists>lab cr sec. line = nss_line lab cr sec \<and> line_parts lab cr sec
     \<and> lab \<noteq> LabelClientRandom \<and> length sec = 96 \<and> l = nss_line lab cr (take 64 sec))"

lemma accepted_prefix:
  assumes "line_parts lab cr sec" "prefix l (nss_line lab cr sec)" "ValidateLine l = None"
  shows "l = nss_line lab cr sec \<or> shortened l (nss_line lab cr sec)"
proof (cases "length l < length (nss_line lab cr sec)")
  case True
  have l: "l = take (length l) (nss_line lab cr sec)" using assms(2) by (auto simp: prefix_def)
  have c: "lab \<noteq> LabelClientRandom" "length sec = 96" "length l + 32 = length (nss_line lab cr sec)"
    using cut_line_accepted_iff [OF assms(1) True] assms(3) l by auto
  have "take (length l) (nss_line lab cr sec) = nss_line lab cr (take 64 sec)"
    using c(2,3) by (simp add: nss_line_def take_unwords3) (simp add: unwords3_def)
  with l c assms(1) show ?thesis unfolding shortened_def by metis
next
  case False
  then show ?thesis using assms(2) by (auto simp: prefix_def)
qed

lemma openssl_prefix:
  assumes "openssl_line line" "prefix l line" "ValidateLine l = None"
  shows "l = line \<or> shortened l line"
proof -
  obtain name par sec where line: "line = unwords3 name par sec" "no_space name" "name \<noteq> []" "is_hex par" "par \<noteq> []" "is_hex sec"
      "\<And>lab. name = labelName lab \<Longrightarrow> line_parts lab par sec"
    using assms(1) by (auto simp: openssl_line_def)
  have "l = take (length l) line" using assms(2) by (auto simp: prefix_def)
  then obtain lab where "name = labelName lab"
    using cut_unknown_refused [OF line(2-6), of "length l"] assms(3) unfolding line(1) by force
  then show ?thesis using accepted_prefix [OF line(7)] assms(2,3) line(1) by (simp add: nss_line_def)
qed

lemma connection_line:
  assumes "framed L p" "\<forall>line \<in> L. openssl_line line" "s \<in> set (connections p)"
    "l \<in> set (fst (scan_lines max_scan_token_size s))" "ValidateLine l = None"
  shows "l \<in> L \<or> (\<exists>line \<in> L. shortened l line)"
proof -
  obtain ws part where s: "s = unlines ws @ part" "set ws \<subseteq> L" "part = [] \<or> (\<exists>l \<in> L. prefix part l)"
    using connections_framed [OF assms(1,3)] .
  have plain: "newline \<notin> set q \<and> carriage_return \<notin> set q \<and> length q < max_scan_token_size"
    if q: "q = [] \<or> (\<exists>l \<in> L. prefix q l)" for q
  proof (cases "q = []")
    case False
    then obtain line where l: "line \<in> L" "prefix q line" using q by blast
    then show ?thesis
      using openssl_line_plain [of line] assms(2) set_mono_prefix [OF l(2)] prefix_length_le [OF l(2)] by fastforce
  qed (simp add: max_scan_token_size_def)
  have "l \<in> set ws \<union> {part}"
    using scan_lines_cut [of ws max_scan_token_size part] plain [of part] plain s assms(4) by blast
  moreover have "l \<in> L \<or> (\<exists>line \<in> L. shortened l line)" if l: "l = part"
  proof -
    have "part \<noteq> []" using assms(5) l valid_not_Nil by blast
    then obtain line where "line \<in> L" "prefix l line" using s(3) l by auto
    then show ?thesis using openssl_prefix assms(2,5) by blast
  qed
  ultimately show ?thesis using s(2) by blast
qed

section \<open>Properties\<close>

text \<open>
  C15: the interposer sends whole lines and never holds the application up for long. However its
  connections and writes fail, everything it has sent on an open connection is whole lines,
  newline-terminated and as OpenSSL gave them, and a closed one ends at worst in a cut line;
  a callback that succeeds ended its connection in its line; it sleeps at most three times
  20 ms; and without a socket path it does nothing at all.
\<close>

theorem interposer_sends_whole_lines:
  "framed (cb_line ` set cs) (callbacks getenv cs preload_init)
   \<and> (keylog_cb getenv mem at line (callbacks getenv cs preload_init) = (sent, naps, p')
        \<and> \<not> pl_killed (callbacks getenv cs preload_init) \<longrightarrow>
      sum_list naps \<le> 60000000 \<and> (sent \<longrightarrow> (\<exists>s. pl_conn p' = Some (s @ line @ [newline]))))
   \<and> (getenv = None \<or> getenv = Some [] \<longrightarrow> connections (callbacks getenv cs preload_init) = [])"
proof (intro conjI impI)
  have init: "framed L preload_init" for L by (simp add: framed_def preload_init_def)
  show fr: "framed (cb_line ` set cs) (callbacks getenv cs preload_init)"
    by (rule callbacks_framed [OF init subset_refl])
  let ?p = "callbacks getenv cs preload_init"
  assume cb: "keylog_cb getenv mem at line ?p = (sent, naps, p') \<and> \<not> pl_killed ?p"
  show "sum_list naps \<le> 60000000"
    using cb keylog_cb_naps by blast
  have "framed (insert line (cb_line ` set cs)) ?p" by (rule callbacks_framed [OF init]) auto
  then show "\<exists>s. pl_conn p' = Some (s @ line @ [newline])" if sent
    using keylog_cb_framed [of "insert line (cb_line ` set cs)" ?p line getenv mem at sent naps p'] cb that by simp
next
  assume "getenv = None \<or> getenv = Some []"
  then show "connections (callbacks getenv cs preload_init) = []"
    using callbacks_no_path [of getenv preload_init cs] by (simp add: connections_def preload_init_def)
qed

definition good_attempt :: "nat \<Rightarrow> attempt_env" where
  "good_attempt = (\<lambda>_. \<lparr>at_socket = True, at_connect = (\<lambda>_. True), at_write = Wrote 1000, at_ignored = True\<rparr>)"

definition sample_callback :: callback where
  "sample_callback = \<lparr>cb_line = ''k'', cb_mem = True, cb_at = good_attempt\<rparr>"

lemma interposer_sends_whole_lines_witness:
  "framed {''k''} (callbacks (Some ''/s'') [sample_callback] preload_init)
   \<and> sum_list (fst (snd (keylog_cb (Some ''/s'') True good_attempt ''k'' preload_init))) \<le> 60000000"
proof
  show "framed {''k''} (callbacks (Some ''/s'') [sample_callback] preload_init)"
    using conjunct1 [OF interposer_sends_whole_lines [of "[sample_callback]" "Some ''/s''"]] by (simp add: sample_callback_def)
  obtain sent naps p' where cb: "keylog_cb (Some ''/s'') True good_attempt ''k'' (callbacks (Some ''/s'') [] preload_init) = (sent, naps, p')"
    using prod_cases3 by blast
  have "\<not> pl_killed (callbacks (Some ''/s'') [] preload_init)" by (simp add: preload_init_def)
  with cb have "sum_list naps \<le> 60000000"
    using conjunct1 [OF conjunct2 [OF interposer_sends_whole_lines [of "[]" "Some ''/s''" True good_attempt "''k''" sent naps p']]] by blast
  with cb show "sum_list (fst (snd (keylog_cb (Some ''/s'') True good_attempt ''k'' preload_init))) \<le> 60000000" by simp
qed

section \<open>A callback that works\<close>

definition nss_callback :: callback where
  "nss_callback = \<lparr>cb_line = nss_line LabelClientTrafficSecret0 (replicate 64 CHR ''0'') (replicate 96 CHR ''a''),
     cb_mem = True, cb_at = good_attempt\<rparr>"

lemma nss_callback_sends: "connections (callbacks (Some ''/s'') [nss_callback] preload_init) = [unlines [cb_line nss_callback]]"
proof -
  have "length (cb_line nss_callback) < 1000"
    by (simp add: nss_callback_def nss_line_def unwords3_def)
  then show ?thesis
    by (simp add: nss_callback_def [unfolded good_attempt_def] preload_init_def keylog_cb_def load_socket_path_once_def
        send_line_locked_def KEYLOG_MAX_SEND_ATTEMPTS_def numeral_3_eq_3 connect_locked_def write_locked_def connections_def)
qed

end
