(* ===== verification/End_To_End.thy ===== *)
theory End_To_End
  imports Sidecar_Properties Preload
begin

text \<open>
  From one end to the other: where the keys in the keylog and in the capture come from, through
  the interposer in the applications, the sockets, the server and the sidecar; and that a
  capture which has reached its limit is completed and closed while the sidecar runs on.
\<close>

section \<open>Where lines come from\<close>

text \<open>The lines an event brings in.\<close>

fun lines_in :: "event \<Rightarrow> string set" where
  "lines_in (AcceptKeylog bytes) = set (fst (scan_lines max_scan_token_size bytes))"
| "lines_in ev = {}"

lemma lines_in_iff: "l \<in> lines_in ev \<longleftrightarrow> (\<exists>bytes. ev = AcceptKeylog bytes \<and> l \<in> set (fst (scan_lines max_scan_token_size bytes)))"
  by (cases ev) auto

definition lines_from :: "string set \<Rightarrow> string \<Rightarrow> sidecar \<Rightarrow> bool" where
  "lines_from S old s \<longleftrightarrow> (\<forall>i. set (sc_conns s i) \<subseteq> S)
     \<and> (\<exists>srv ls. a_keylogSrv (sc_app s) = Some srv \<and> holds_lines old ls (sv_writer srv) \<and> set ls \<subseteq> S)"

lemma step_brings_lines:
  assumes "sidecar_step env ev s = Some s'" "\<And>i now wr. ev \<noteq> KeyLine i now wr"
  shows "a_keylogSrv (sc_app s') = a_keylogSrv (sc_app s)" "set (sc_conns s' i) \<subseteq> set (sc_conns s i) \<union> lines_in ev"
proof -
  have "a_keylogSrv (sc_app s') = a_keylogSrv (sc_app s) \<and> set (sc_conns s' i) \<subseteq> set (sc_conns s i) \<union> lines_in ev"
  proof (cases "ev = Sink")
    case True
    then show ?thesis using assms(1) by (auto simp: do_sink_def set_capture_def split: option.splits prod.splits)
  next
    case False
    have "sc_conns s' = sc_conns s \<or> (\<exists>bytes. ev = AcceptKeylog bytes
        \<and> sc_conns s' = (sc_conns s)(sc_accepted s := fst (scan_lines max_scan_token_size bytes)))"
      using assms by (cases ev) (auto simp: do_defs do_close_def set_capture_def split: step_splits)
    then show ?thesis using step_keylog_other(1) [OF assms(1) False assms(2)] by (auto split: if_splits)
  qed
  then show "a_keylogSrv (sc_app s') = a_keylogSrv (sc_app s)" "set (sc_conns s' i) \<subseteq> set (sc_conns s i) \<union> lines_in ev" by blast+
qed

lemma lines_from_step:
  assumes "sidecar_step env ev s = Some s'" "lines_from S old s" "whole_writes ev" "lines_in ev \<subseteq> S" "\<forall>l \<in> S. newline \<notin> set l"
  shows "lines_from S old s'"
proof (cases "\<exists>i now wr. ev = KeyLine i now wr")
  case False
  then show ?thesis
    using step_brings_lines [OF assms(1)] assms(2,4) unfolding lines_from_def by (metis (no_types, lifting) Un_subset_iff subset_trans)
next
  case True
  then obtain i now wr where ev: "ev = KeyLine i now wr" by blast
  then have "do_line i now wr s = Some s'" and wr: "case wr of WriteFail n _ \<Rightarrow> n = 0 | WriteOk \<Rightarrow> True"
    using assms(1,3) by (auto split: write_result.split)
  then show ?thesis
  proof (elim do_lineE)
    fix line cs srv acts srv'
    let ?le = "\<lparr>le_now = now, le_gate = captureActive (sc_app s), le_write = wr\<rparr>"
    assume conn: "sc_conns s i = line # cs" and srv: "a_keylogSrv (sc_app s) = Some srv" and h: "handle_line ?le line srv = (srv', acts)"
      and s': "s' = s\<lparr>sc_app := (sc_app s)\<lparr>a_keylogSrv := Some srv'\<rparr>, sc_conns := (sc_conns s)(i := cs),
        sc_sinking := (if SinkCall line \<in> set acts then Some line else sc_sinking s)\<rparr>"
    from assms(2) srv obtain ls where ls: "holds_lines old ls (sv_writer srv)" "set ls \<subseteq> S" by (auto simp: lines_from_def)
    have S: "\<forall>i. set (sc_conns s i) \<subseteq> S" using assms(2) by (simp add: lines_from_def)
    have line: "line \<in> S" "set cs \<subseteq> S" using S [rule_format, of i] conn by auto
    have writer: "sv_writer srv' = (if line = [] then sv_writer srv
        else fst (snd (Append (captureActive (sc_app s)) wr (sv_writer srv) line)))"
      using handle_line_fields(1) [of ?le line srv] h by simp
    have "\<exists>ls'. holds_lines old ls' (sv_writer srv') \<and> set ls' \<subseteq> S"
      using wr
    proof (cases rule: Append_whole [consumes 1, where gate = "captureActive (sc_app s)" and w = "sv_writer srv" and line = line])
      case same
      then show ?thesis using writer ls by auto
    next
      case added
      have "holds_lines old (ls @ [line]) (sv_writer srv')"
        using writer added(4) valid_not_Nil [OF added(1)] holds_lines_snoc [OF ls(1) added(1) _ added(3)] assms(5) line(1) by simp
      then show ?thesis using ls(2) line(1) by (intro exI [of _ "ls @ [line]"]) simp
    qed
    then show ?thesis using S line(2) by (auto simp: lines_from_def s')
  qed
qed

lemma Start_lines_from:
  assumes "Start env cfg w0 = (Inr a, w)"
  shows "lines_from S (keylog_content (e_server env)) (running env a w)"
proof -
  obtain a2 :: app and srv where srv: "fst (NewSocketServer (e_server env) (started_config cfg (a_capW a2 \<noteq> None)) (e_logger env)) = Inr srv"
      "a_keylogSrv a = Some srv"
    by (rule Start_success [OF assms])
  then show ?thesis using NewSocketServer_writer [OF srv(1)]
    by (auto simp: lines_from_def running_def holds_lines_def intro!: exI [of _ "[]"])
qed

text \<open>What the keylog gained, and so what the capture accepted, came in over a connection.\<close>

lemma keys_came_in:
  assumes "Start env cfg w0 = (Inr a, w)" "\<forall>ev \<in> set evs. whole_writes ev" "s = serve env evs (running env a w)"
    "S = (\<Union>ev \<in> set evs. lines_in ev)"
  obtains srv ls where "a_keylogSrv (sc_app s) = Some srv" "kfile (sv_writer srv) = keylog_content (e_server env) @ unlines ls"
    "set (kept_secrets (sc_app s)) \<subseteq> set ls" "set ls \<subseteq> S" "\<forall>l \<in> set ls. ValidateLine l = None"
proof -
  let ?old = "keylog_content (e_server env)"
  have nl: "\<forall>l \<in> S. newline \<notin> set l"
    using assms(4) by (auto simp: lines_in_iff dest: scan_lines_no_newline)
  have "lines_from S ?old s" unfolding assms(3)
  proof (rule serve_keeps)
    fix ev t t'
    assume "ev \<in> set evs" "sidecar_step env ev t = Some t'" "lines_from S ?old t"
    then show "lines_from S ?old t'" using lines_from_step [of env ev t t' S] assms(2,4) nl by blast
  qed (rule Start_lines_from [OF assms(1)])
  then obtain srv ls where srv: "a_keylogSrv (sc_app s) = Some srv" "holds_lines ?old ls (sv_writer srv)" "set ls \<subseteq> S"
    by (auto simp: lines_from_def)
  have "keys_ok ?old s" unfolding assms(3)
    by (rule serve_keeps) (use assms(2) Start_keys_ok [OF assms(1)] keys_ok_step in \<open>blast+\<close>)
  then obtain extra where kept: "holds_lines ?old (kept_secrets (sc_app s) @ extra) (sv_writer srv)"
    using srv(1) by (metis keys_okE option.sel)
  have "ls = kept_secrets (sc_app s) @ extra"
    by (rule split_unlines) (use srv(2) kept in \<open>auto simp: holds_lines_def\<close>)
  then have "set (kept_secrets (sc_app s)) \<subseteq> set ls" by simp
  then show thesis using that [of srv ls] srv by (simp add: holds_lines_def)
qed

text \<open>
  Whatever becomes of the writes: the keylog gained pieces of well-formed lines that came in, and the
  secrets the capture accepted, and the one on its way there, are such lines.
\<close>

definition pieces_from :: "string set \<Rightarrow> string \<Rightarrow> sidecar \<Rightarrow> bool" where
  "pieces_from S old s \<longleftrightarrow> (\<forall>i. set (sc_conns s i) \<subseteq> S)
     \<and> set_option (sc_sinking s) \<union> set (kept_secrets (sc_app s)) \<subseteq> {l \<in> S. ValidateLine l = None}
     \<and> (\<exists>srv ps. a_keylogSrv (sc_app s) = Some srv \<and> kfile (sv_writer srv) = old @ concat ps
          \<and> (\<forall>p \<in> set ps. \<exists>l \<in> S. ValidateLine l = None \<and> prefix p (l @ [newline])))"

lemma Append_piece:
  assumes "Append gate wr w line = (err, w', acts)"
  shows "\<exists>ps. kfile w' = kfile w @ concat ps \<and> (\<forall>p \<in> set ps. ValidateLine line = None \<and> prefix p (line @ [newline]))"
    "SinkCall line \<in> set acts \<Longrightarrow> ValidateLine line = None"
proof -
  have "kfile w' = kfile w \<or> (ValidateLine line = None \<and> (\<exists>n. kfile w' = kfile w @ take n (line @ [newline])))"
    using assms by (auto simp: Append_def Let_def split: option.splits if_splits write_result.splits intro: exI [of _ "Suc (length line)"])
  then show "\<exists>ps. kfile w' = kfile w @ concat ps \<and> (\<forall>p \<in> set ps. ValidateLine line = None \<and> prefix p (line @ [newline]))"
  proof (elim disjE conjE exE)
    assume "kfile w' = kfile w"
    then show ?thesis by (intro exI [of _ "[]"]) simp
  next
    fix n assume "ValidateLine line = None" "kfile w' = kfile w @ take n (line @ [newline])"
    then show ?thesis
      using take_is_prefix [of n "line @ [newline]"]
      by (intro exI [of _ "[take n (line @ [newline])]"]) (simp del: take_append prefix_snoc)
  qed
  show "SinkCall line \<in> set acts \<Longrightarrow> ValidateLine line = None"
    using assms by (auto simp: Append_def split: option.splits)
qed

lemma pieces_from_line:
  assumes "do_line i now wr s = Some s'" "pieces_from S old s"
  shows "pieces_from S old s'"
  using assms(1)
proof (elim do_lineE)
  fix line cs srv acts srv'
  let ?le = "\<lparr>le_now = now, le_gate = captureActive (sc_app s), le_write = wr\<rparr>"
  assume conn: "sc_conns s i = line # cs" and srv: "a_keylogSrv (sc_app s) = Some srv" and h: "handle_line ?le line srv = (srv', acts)"
    and s': "s' = s\<lparr>sc_app := (sc_app s)\<lparr>a_keylogSrv := Some srv'\<rparr>, sc_conns := (sc_conns s)(i := cs),
      sc_sinking := (if SinkCall line \<in> set acts then Some line else sc_sinking s)\<rparr>"
  obtain err w' acts' where app: "Append (captureActive (sc_app s)) wr (sv_writer srv) line = (err, w', acts')" using prod_cases3 by blast
  have fields: "sv_writer srv' = (if line = [] then sv_writer srv else w')" "acts = (if line = [] then [] else acts')"
    using handle_line_fields [of ?le line srv] h app by simp_all
  from assms(2) srv obtain ps where ps: "kfile (sv_writer srv) = old @ concat ps"
      "\<forall>p \<in> set ps. \<exists>l \<in> S. ValidateLine l = None \<and> prefix p (l @ [newline])"
    by (auto simp: pieces_from_def)
  have S: "\<forall>i. set (sc_conns s i) \<subseteq> S" using assms(2) by (simp add: pieces_from_def)
  have line: "line \<in> S" "set cs \<subseteq> S" using S [rule_format, of i] conn by auto
  obtain ps' where ps': "kfile w' = kfile (sv_writer srv) @ concat ps'" "\<forall>p \<in> set ps'. ValidateLine line = None \<and> prefix p (line @ [newline])"
    using Append_piece(1) [OF app] by blast
  have "\<exists>qs. kfile (sv_writer srv') = old @ concat qs \<and> (\<forall>p \<in> set qs. \<exists>l \<in> S. ValidateLine l = None \<and> prefix p (l @ [newline]))"
  proof (cases "line = []")
    case True
    then show ?thesis using ps fields(1) by auto
  next
    case False
    then show ?thesis using ps ps' line(1) fields(1) by (intro exI [of _ "ps @ ps'"]) (auto simp del: prefix_snoc)
  qed
  moreover have "set_option (sc_sinking s') \<union> set (kept_secrets (sc_app s')) \<subseteq> {l \<in> S. ValidateLine l = None}"
    using assms(2) Append_piece(2) [OF app] line(1) fields(2) by (auto simp: pieces_from_def s' kept_secrets_def split: if_splits)
  ultimately show ?thesis using S line(2) by (auto simp: pieces_from_def s')
qed

lemma do_sink_keeps:
  assumes "do_sink s = Some s'" "\<forall>l \<in> set_option (sc_sinking s). l \<noteq> []"
  shows "sc_sinking s' = None" "set (kept_secrets (sc_app s')) \<subseteq> set (kept_secrets (sc_app s)) \<union> set_option (sc_sinking s)"
proof -
  from assms(1) obtain line cw where line: "sc_sinking s = Some line" and cw: "a_capW (sc_app s) = Some cw"
    and s': "s' = (set_capture (fst (AddSecret line cw)) (snd (AddSecret line cw)) s)\<lparr>sc_sinking := None\<rparr>"
    by (auto simp: do_sink_def case_prod_beta split: option.splits)
  show "sc_sinking s' = None" by (simp add: s')
  have "line \<noteq> []" using assms(2) line by simp
  then have "set (accepted_secrets (capture_sink line cw)) \<subseteq> insert line (set (accepted_secrets cw))"
    using capture_keys.sink_taken [of line cw] capture_keys.sink_refused [of line cw]
    by (cases "capture_active (capture_sink line cw)") auto
  then show "set (kept_secrets (sc_app s')) \<subseteq> set (kept_secrets (sc_app s)) \<union> set_option (sc_sinking s)"
    using cw line by (simp add: s' kept_secrets_def set_capture_def capture_sink_def)
qed

lemma pieces_from_mono:
  assumes "pieces_from S old s" "\<And>i. set (sc_conns s' i) \<subseteq> set (sc_conns s i) \<union> S" "a_keylogSrv (sc_app s') = a_keylogSrv (sc_app s)"
    "set_option (sc_sinking s') \<union> set (kept_secrets (sc_app s')) \<subseteq> set_option (sc_sinking s) \<union> set (kept_secrets (sc_app s))"
  shows "pieces_from S old s'"
proof -
  note old = assms(1) [unfolded pieces_from_def]
  have "\<forall>i. set (sc_conns s' i) \<subseteq> S" using conjunct1 [OF old] assms(2) by blast
  moreover have "set_option (sc_sinking s') \<union> set (kept_secrets (sc_app s')) \<subseteq> {l \<in> S. ValidateLine l = None}"
    by (rule subset_trans [OF assms(4)]) (rule conjunct1 [OF conjunct2 [OF old]])
  ultimately show ?thesis using conjunct2 [OF conjunct2 [OF old]] unfolding pieces_from_def assms(3) by (intro conjI)
qed

lemma pieces_from_step:
  assumes "sidecar_step env ev s = Some s'" "pieces_from S old s" "lines_in ev \<subseteq> S"
  shows "pieces_from S old s'"
proof -
  consider "\<exists>i now wr. ev = KeyLine i now wr" | "ev = Sink" | "ev \<noteq> Sink" "\<And>i now wr. ev \<noteq> KeyLine i now wr" by blast
  then show ?thesis
  proof cases
    case 1
    then show ?thesis using pieces_from_line [OF _ assms(2)] assms(1) by auto
  next
    case 2
    then have other: "\<And>i now wr. ev \<noteq> KeyLine i now wr" and sink: "do_sink s = Some s'" using assms(1) by simp_all
    note brings = step_brings_lines [OF assms(1) other]
    have "\<forall>l \<in> set_option (sc_sinking s). ValidateLine l = None" using assms(2) unfolding pieces_from_def by blast
    then have "\<forall>l \<in> set_option (sc_sinking s). l \<noteq> []" using valid_not_Nil by blast
    note keeps = do_sink_keeps [OF sink this]
    show ?thesis
      by (rule pieces_from_mono [OF assms(2) _ brings(1)]) (use brings(2) assms(3) in blast, use keeps in auto)
  next
    case 3
    note brings = step_brings_lines [OF assms(1) 3(2)]
    show ?thesis
      by (rule pieces_from_mono [OF assms(2) _ brings(1)])
        (use brings(2) assms(3) in blast, simp add: step_keylog_other(2) [OF assms(1) 3] step_secrets(1) [OF assms(1) 3(1)])
  qed
qed

lemma Start_pieces_from:
  assumes "Start env cfg w0 = (Inr a, w)"
  shows "pieces_from S (keylog_content (e_server env)) (running env a w)"
proof -
  obtain a2 :: app and srv where srv: "fst (NewSocketServer (e_server env) (started_config cfg (a_capW a2 \<noteq> None)) (e_logger env)) = Inr srv"
      "a_keylogSrv a = Some srv"
    by (rule Start_success [OF assms])
  have "kept_secrets a = []"
    using fresh_secrets Start_fresh [OF assms] by (auto simp: kept_secrets_def split: option.split)
  then show ?thesis using NewSocketServer_writer [OF srv(1)] srv(2)
    by (auto simp: pieces_from_def running_def intro!: exI [of _ "[]"])
qed

section \<open>From the applications\<close>

text \<open>The lines the interposer was given in any of the processes, each with its environment and its
  callbacks; and what a connection that broke may have made of one.\<close>

definition given :: "(string option \<times> callback list) list \<Rightarrow> string \<Rightarrow> bool" where
  "given procs l \<longleftrightarrow> (\<exists>proc \<in> set procs. \<exists>c \<in> set (snd proc). l = cb_line c \<or> shortened l (cb_line c))"

lemma line_was_given:
  assumes "\<forall>proc \<in> set procs. \<forall>c \<in> set (snd proc). openssl_line (cb_line c)"
    "\<forall>bytes. AcceptKeylog bytes \<in> set evs \<longrightarrow>
       (\<exists>proc \<in> set procs. bytes \<in> set (connections (callbacks (fst proc) (snd proc) preload_init)))"
    "l \<in> (\<Union>ev \<in> set evs. lines_in ev)" "ValidateLine l = None"
  shows "given procs l"
proof -
  from assms(3) obtain bytes where b: "AcceptKeylog bytes \<in> set evs" "l \<in> set (fst (scan_lines max_scan_token_size bytes))"
    by (auto simp: lines_in_iff)
  then obtain proc where proc: "proc \<in> set procs" "bytes \<in> set (connections (callbacks (fst proc) (snd proc) preload_init))"
    using assms(2) by blast
  have "framed (cb_line ` set (snd proc)) (callbacks (fst proc) (snd proc) preload_init)"
    by (rule callbacks_framed) (simp_all add: framed_def preload_init_def)
  from connection_line [OF this _ proc(2) b(2) assms(4)] assms(1) proc(1) show ?thesis by (auto simp: given_def)
qed

section \<open>A capture at its limit\<close>

text \<open>What is held was offered, and nothing is held any more once capture has stopped.\<close>

lemma WritePacket_held:
  assumes "WritePacket io now ci data w = (err, w', stops)" "p \<in> set (held w')"
  shows "p \<in> set (held w) \<or> (\<not> stopped w \<and> hp_at p = now)"
  using assms by (cases "stopped w")
    (auto simp: WritePacket_state admit_def enqueue_def writeHeld_state Let_def split: if_splits option.splits dest!: in_set_dropD)

lemma wstep_held:
  assumes "wstep io w ev w'" "p \<in> set (held w')"
  shows "p \<in> set (held w) \<or> (\<not> stopped w \<and> (\<exists>ci data. fst ev = EvPacket (hp_at p) ci data))"
  using assms
proof (induction rule: wstep.induct)
  case (packet now ci data w err w' stops)
  then show ?case using WritePacket_held [OF packet(1,2)] by auto
next
  case (secret line w w' stops)
  then show ?case using AddSecret_queue by fastforce
next
  case (close w err w')
  then show ?case using Close_held [of io w] by (auto dest: in_set_dropD)
qed (auto simp: drain_tick_held SetRoom_def split: if_splits dest: in_set_dropD)

lemma run_held:
  assumes "run (wstep io) w evs w'" "p \<in> set (held w')"
  shows "p \<in> set (held w) \<or> (\<exists>ci data. EvPacket (hp_at p) ci data \<in> fst ` set evs)"
  using assms
proof (induction rule: run.induct)
  case (run_Cons w e w1 es w')
  then show ?case using wstep_held [OF run_Cons.hyps(1), of p] by (metis image_eqI image_insert insertCI list.simps(15))
qed simp

text \<open>Once stopped, the writer keeps what it has, and stays in order when it is closed too.\<close>

lemma Close_open_ok:
  assumes "open_ok w" "stopped w" "drained w"
  shows "open_ok (snd (Close io w))"
  using Close_complete [OF assms(1), of io] assms by (auto simp: open_ok_def Close_state split: if_splits)

definition winding_up :: "cwriter \<Rightarrow> cwriter \<Rightarrow> bool" where
  "winding_up w0 w \<longleftrightarrow> stopped w \<and> open_ok w \<and> set (held w) \<subseteq> set (held w0)
     \<and> accepted_packets w = accepted_packets w0 \<and> accepted_secrets w = accepted_secrets w0"

lemma winding_up_step:
  assumes "wstep io w ev w'" "winding_up w0 w"
  shows "winding_up w0 w'"
proof -
  have st: "stopped w" "open_ok w" using assms(2) by (simp_all add: winding_up_def)
  have "open_ok w'"
  proof (cases "fst ev = EvClose")
    case True
    show ?thesis using assms(1) True st by (cases rule: wstep.cases) (use Close_open_ok [of w io] in \<open>simp_all\<close>)
  next
    case False
    then show ?thesis using wstep_open_ok [OF assms(1)] st by blast
  qed
  moreover have "set (held w') \<subseteq> set (held w)" using wstep_held [OF assms(1)] st by blast
  moreover have "log_stopped (log_of w') \<and> log_content (log_of w') = log_content (log_of w)"
    using wstep_log [OF assms(1)] log_event_stopped [of "log_of w" "fst ev"] st(1) by (simp add: log_step_def)
  then have "stopped w' \<and> accepted_packets w' = accepted_packets w \<and> accepted_secrets w' = accepted_secrets w"
    by (simp add: log_content_def log_of_def)
  ultimately show ?thesis using assms(2) by (auto simp: winding_up_def)
qed

lemma winding_up_run: "run (wstep io) w evs w' \<Longrightarrow> winding_up w0 w \<Longrightarrow> winding_up w0 w'"
  by (induction rule: run.induct) (use winding_up_step in blast)+

text \<open>The drain of a running sidecar exits only with the file closed.\<close>

definition drain_runs :: "sidecar \<Rightarrow> bool" where
  "drain_runs s \<longleftrightarrow> (\<forall>cw. a_capW (sc_app s) = Some cw \<longrightarrow> drained cw \<longrightarrow> closed cw)"

lemma WritePacket_keeps:
  "WritePacket io now ci data w = (err, w', stops) \<Longrightarrow> drained w' = drained w \<and> closed w' = closed w"
  by (auto simp: WritePacket_state admit_def enqueue_def writeHeld_state Let_def split: if_splits option.splits)

lemma AddSecret_result:
  "AddSecret line w = (w', stops) \<Longrightarrow> drained w' = drained w \<and> closed w' = closed w"
  using AddSecret_keeps(3,4) [of line w] by simp

lemma run_drain_closes:
  assumes "run (wstep io) w evs w'" "\<And>e. e \<in> fst ` set evs \<Longrightarrow> e \<noteq> EvClose \<and> e \<noteq> EvDrainExit" "drained w \<longrightarrow> closed w"
  shows "drained w' \<longrightarrow> closed w'"
  using assms
proof (induction rule: run.induct)
  case (run_Cons w e w1 es w')
  have "drained w1 \<longrightarrow> closed w1"
    using run_Cons.hyps(1) run_Cons.prems(1) [of "fst e"] run_Cons.prems(2)
    by (cases rule: wstep.cases) (auto simp: SetRoom_def drain_tick_state drain_state Let_def dest!: WritePacket_keeps AddSecret_result)
  then show ?case using run_Cons.IH run_Cons.prems(1) by simp
qed simp

lemma drain_runs_step:
  assumes "sidecar_step env ev s = Some s'" "drain_runs s"
  shows "drain_runs s'"
proof (cases "a_capW (sc_app s)")
  case None
  then show ?thesis using step_no_capture [OF assms(1)] by (simp add: drain_runs_def)
next
  case (Some cw)
  have ok: "drained cw \<Longrightarrow> closed cw" using assms(2) Some by (simp add: drain_runs_def)
  show ?thesis
  proof (cases "ev = CloseStep \<and> sc_closed s = 2")
    case True
    then have "a_capW (sc_app s') = Some (closed_writer env cw)"
      using do_close_result(4) [of env s s'] assms(1) Some by (simp add: closings_nth closing_results)
    then show ?thesis by (simp add: drain_runs_def closed_writer_def Close_state)
  next
    case False
    from step_capture [OF assms(1) Some] obtain wevs cw' where
      cw': "a_capW (sc_app s') = Some cw'" "run (wstep (e_ng env)) cw wevs cw'" "fst ` set wevs \<subseteq> capture_events s ev" by blast
    have quiet: "e \<noteq> EvClose \<and> e \<noteq> EvDrainExit" if "e \<in> capture_events s ev" for e
      using that False by (cases ev) (auto split: if_splits)
    have "drained cw' \<longrightarrow> closed cw'"
      by (rule run_drain_closes [OF cw'(2)]) (use cw'(3) quiet ok in \<open>blast+\<close>)
    then show ?thesis using cw'(1) by (simp add: drain_runs_def)
  qed
qed

lemma Start_drain_runs:
  assumes "Start env cfg w0 = (Inr a, w)"
  shows "drain_runs (running env a w)"
  using Start_fresh [OF assms] by (auto simp: drain_runs_def running_def fresh_def new_writer_def)

lemma held_were_offered:
  assumes "Start env cfg w0 = (Inr a, w)" "s = serve env evs (running env a w)" "a_capW (sc_app s) = Some cw" "p \<in> set (held cw)"
  shows "\<exists>ci data. Packet (hp_at p) ci data \<in> set evs"
proof (cases "a_capW a")
  case None
  have "a_capW (sc_app s) = None"
    unfolding assms(2) by (rule serve_keeps) (use None step_no_capture in \<open>auto simp: running_def\<close>)
  then show ?thesis using assms(3) by simp
next
  case (Some cw0)
  then obtain wevs where wevs: "run (wstep (e_ng env)) cw0 wevs cw"
      "\<forall>now ci data. EvPacket now ci data \<in> fst ` set wevs \<longrightarrow> Packet now ci data \<in> set evs"
    using serve_capture [of "running env a w" cw0 env evs] assms(2,3) by (auto simp: running_def)
  have "held cw0 = []" using Start_fresh [OF assms(1) Some] by (auto simp: fresh_def new_writer_def)
  then show ?thesis using run_held [OF wevs(1) assms(4)] wevs(2) by (metis empty_iff list.set(1))
qed

text \<open>A tick with everything due ends with a closed and complete file.\<close>

lemma completing_tick:
  assumes "winding_up w0 w" "\<forall>p \<in> set (held w). hp_at p \<le> now - holdWindow" "drained w \<longrightarrow> closed w"
    "w' = (if drained w then w else drain_tick io now w)"
  shows "\<exists>cs. closed w' \<and> calls w' = cs @ [FileClose] \<and> FileClose \<notin> set cs
    \<and> packets_of cs = accepted_packets w0 \<and> secrets_of cs = accepted_secrets w0"
proof -
  have w: "stopped w" "open_ok w" using assms(1) by (simp_all add: winding_up_def)
  have "open_ok w' \<and> closed w'"
  proof (cases "drained w")
    case True
    then show ?thesis using assms(3,4) w by simp
  next
    case False
    then have "\<not> closed w" using w(2) by (auto simp: open_ok_def)
    then show ?thesis
      using drain_tick_closes [OF w(1) assms(2), of io] drain_tick_open_ok [OF w(2) False, of io now] assms(4) False by simp
  qed
  moreover have "accepted_packets w' = accepted_packets w0" "accepted_secrets w' = accepted_secrets w0"
    using log_of_drain_tick [of io now w] assms(1,4) by (auto simp: winding_up_def log_of_def)
  ultimately show ?thesis by (auto simp: open_ok_def sealed_def accepted_packets_def accepted_secrets_def)
qed

section \<open>Properties\<close>

text \<open>
  C14: only keys of the applications are kept. Any number of processes have the interposer
  loaded, each is given lines by OpenSSL, of known labels or not, and its connections break as they
  may; the sidecar accepts connections from these processes only. Then, however everything
  interleaves and whatever writes to the keylog fail: every secret the capture accepted is a line one of
  the processes was given, or one with a 96-digit TLS 1.3 secret of which exactly the first
  64 digits were sent before its connection broke; what the keylog gained is a sequence of beginnings of
  such lines, each with its newline when it is complete; and when no write stops half-way, the
  keylog gained such lines and nothing else, among them every secret of the capture.
\<close>

theorem only_application_keys_are_kept:
  assumes "Start env cfg w0 = (Inr a, w)" "s = serve env evs (running env a w)"
    "\<forall>proc \<in> set procs. \<forall>c \<in> set (snd proc). openssl_line (cb_line c)"
    "\<forall>bytes. AcceptKeylog bytes \<in> set evs \<longrightarrow>
       (\<exists>proc \<in> set procs. bytes \<in> set (connections (callbacks (fst proc) (snd proc) preload_init)))"
  shows "\<exists>srv ps. a_keylogSrv (sc_app s) = Some srv \<and> kfile (sv_writer srv) = keylog_content (e_server env) @ concat ps
    \<and> (\<forall>p \<in> set ps. \<exists>l. given procs l \<and> prefix p (l @ [newline]))
    \<and> (\<forall>l \<in> set (kept_secrets (sc_app s)). given procs l)
    \<and> ((\<forall>ev \<in> set evs. whole_writes ev) \<longrightarrow>
         (\<exists>ls. kfile (sv_writer srv) = keylog_content (e_server env) @ unlines ls
            \<and> set (kept_secrets (sc_app s)) \<subseteq> set ls \<and> (\<forall>l \<in> set ls. given procs l)))"
proof -
  let ?S = "\<Union>ev \<in> set evs. lines_in ev"
  have "pieces_from ?S (keylog_content (e_server env)) s" unfolding assms(2)
  proof (rule serve_keeps)
    fix ev t t'
    assume "ev \<in> set evs" "sidecar_step env ev t = Some t'" "pieces_from ?S (keylog_content (e_server env)) t"
    then show "pieces_from ?S (keylog_content (e_server env)) t'" using pieces_from_step by blast
  qed (rule Start_pieces_from [OF assms(1)])
  then obtain srv ps where srv: "a_keylogSrv (sc_app s) = Some srv" "kfile (sv_writer srv) = keylog_content (e_server env) @ concat ps"
      "\<forall>p \<in> set ps. \<exists>l \<in> ?S. ValidateLine l = None \<and> prefix p (l @ [newline])"
      "set (kept_secrets (sc_app s)) \<subseteq> {l \<in> ?S. ValidateLine l = None}"
    unfolding pieces_from_def by blast
  note given = line_was_given [OF assms(3,4)]
  have whole: "\<exists>ls. kfile (sv_writer srv) = keylog_content (e_server env) @ unlines ls
      \<and> set (kept_secrets (sc_app s)) \<subseteq> set ls \<and> (\<forall>l \<in> set ls. given procs l)" if wr: "\<forall>ev \<in> set evs. whole_writes ev"
  proof -
    obtain srv' ls where "a_keylogSrv (sc_app s) = Some srv'" "kfile (sv_writer srv') = keylog_content (e_server env) @ unlines ls"
        "set (kept_secrets (sc_app s)) \<subseteq> set ls" "set ls \<subseteq> ?S" "\<forall>l \<in> set ls. ValidateLine l = None"
      by (rule keys_came_in [OF assms(1) wr assms(2) refl])
    moreover from this have "\<forall>l \<in> set ls. given procs l" using given by blast
    ultimately show ?thesis using srv(1) by (intro exI [of _ ls]) auto
  qed
  have "\<forall>p \<in> set ps. \<exists>l. given procs l \<and> prefix p (l @ [newline])" using srv(3) given by blast
  moreover have "\<forall>l \<in> set (kept_secrets (sc_app s)). given procs l" using srv(4) given by blast
  ultimately show ?thesis using srv(1,2) whole by blast
qed

lemma only_application_keys_are_kept_witness:
  "\<exists>a w srv ls. Start sidecar_env sidecar_config sample_world = (Inr a, w)
     \<and> (let s = serve sidecar_env [AcceptKeylog (unlines [cb_line nss_callback]), KeyLine 0 5 WriteOk, Sink, DrainTick 9] (running sidecar_env a w)
        in a_keylogSrv (sc_app s) = Some srv \<and> kfile (sv_writer srv) = unlines ls \<and> set (kept_secrets (sc_app s)) \<subseteq> set ls)
     \<and> (\<forall>l \<in> set ls. l = cb_line nss_callback \<or> shortened l (cb_line nss_callback))"
proof -
  let ?evs = "[AcceptKeylog (unlines [cb_line nss_callback]), KeyLine 0 5 WriteOk, Sink, DrainTick 9]"
  let ?procs = "[(Some ''/s'', [nss_callback])]"
  obtain a w where st: "Start sidecar_env sidecar_config sample_world = (Inr a, w)" using sidecar_starts by blast
  let ?s = "serve sidecar_env ?evs (running sidecar_env a w)"
  have nss: "\<forall>proc \<in> set ?procs. \<forall>c \<in> set (snd proc). openssl_line (cb_line c)"
    using nss_line_openssl [OF sample_parts] by (simp add: nss_callback_def)
  have "\<forall>bytes. AcceptKeylog bytes \<in> set ?evs \<longrightarrow>
      (\<exists>proc \<in> set ?procs. bytes \<in> set (connections (callbacks (fst proc) (snd proc) preload_init)))"
    by (simp add: nss_callback_sends del: callbacks.simps)
  from only_application_keys_are_kept [OF st refl nss this] obtain srv where
    srv: "a_keylogSrv (sc_app ?s) = Some srv"
      "(\<forall>ev \<in> set ?evs. whole_writes ev) \<longrightarrow> (\<exists>ls. kfile (sv_writer srv) = keylog_content (e_server sidecar_env) @ unlines ls
         \<and> set (kept_secrets (sc_app ?s)) \<subseteq> set ls \<and> (\<forall>l \<in> set ls. given ?procs l))"
    by blast
  moreover have "\<forall>ev \<in> set ?evs. whole_writes ev" by simp
  ultimately obtain ls where ls: "kfile (sv_writer srv) = keylog_content (e_server sidecar_env) @ unlines ls"
      "set (kept_secrets (sc_app ?s)) \<subseteq> set ls" "\<forall>l \<in> set ls. given ?procs l"
    by blast
  have "keylog_content (e_server sidecar_env) = []" by (simp add: sidecar_env_simps sample_senv_def)
  then show ?thesis
    using st srv(1) ls unfolding Let_def given_def
    by (intro exI [of _ a] exI [of _ w] exI [of _ srv] exI [of _ ls] conjI) (simp_all del: serve.simps)
qed

text \<open>
  C26: a capture that reached its limit is completed while the sidecar runs on. Once capture has
  stopped, and \<^verbatim>\<open>Close\<close> has not come to it, whatever happens next: after the first drain tick that
  comes the hold window after the last packet, the file is closed, with every packet and every
  secret that was accepted before the stop written to it, once and in order.
\<close>

theorem stopped_capture_gets_completed:
  assumes "Start env cfg w0 = (Inr a, w)" "s = serve env evs (running env a w)" "a_capW (sc_app s) = Some cw" "stopped cw"
    "sc_closed s \<le> 2" "\<forall>at ci data. Packet at ci data \<in> set evs \<longrightarrow> at + holdWindow \<le> now"
  shows "\<exists>cw' cs. a_capW (sc_app (serve env (evs' @ [DrainTick now]) s)) = Some cw' \<and> closed cw'
    \<and> calls cw' = cs @ [FileClose] \<and> FileClose \<notin> set cs
    \<and> packets_of cs = accepted_packets cw \<and> secrets_of cs = accepted_secrets cw"
proof -
  have "capture_done s" "drain_runs s"
    unfolding assms(2)
    by (rule serve_keeps; use capture_done_step drain_runs_step Start_capture_done [OF assms(1)] Start_drain_runs [OF assms(1)] in blast)+
  have "winding_up cw cw" using \<open>capture_done s\<close> assms(3-5) by (simp add: winding_up_def capture_done_def)
  let ?P = "\<lambda>t. drain_runs t \<and> (\<exists>cw1. a_capW (sc_app t) = Some cw1 \<and> winding_up cw cw1)"
  have step: "?P t'" if st: "sidecar_step env ev t = Some t'" and t: "?P t" for ev t t'
  proof -
    obtain cw1 where "a_capW (sc_app t) = Some cw1" "winding_up cw cw1" using t by blast
    then show ?thesis
      using step_capture [OF st] winding_up_run drain_runs_step [OF st] t by metis
  qed
  have "?P (serve env evs' s)"
    by (rule serve_keeps [OF step]) (use \<open>drain_runs s\<close> \<open>winding_up cw cw\<close> assms(3) in auto)
  then obtain cw1 where cw1: "a_capW (sc_app (serve env evs' s)) = Some cw1" "winding_up cw cw1" "drained cw1 \<longrightarrow> closed cw1"
    by (auto simp: drain_runs_def)
  have due: "\<forall>p \<in> set (held cw1). hp_at p \<le> now - holdWindow"
    using cw1(2) held_were_offered [OF assms(1-3)] assms(6) by (fastforce simp: winding_up_def)
  have "a_capW (sc_app (serve env (evs' @ [DrainTick now]) s)) = Some (if drained cw1 then cw1 else drain_tick (e_ng env) now cw1)"
    using cw1(1) by (simp add: serve_append do_drain_def set_capture_def)
  then show ?thesis using completing_tick [OF cw1(2) due cw1(3) refl, of "e_ng env"] by blast
qed

lemma big_packet_stops:
  "WritePacket sample_io 5 sample_info (replicate 104857600 CHR ''x'') sidecar_writer =
     (Some ErrStopped, sidecar_writer\<lparr>stopped := True\<rparr>, [\<lparr>stop_path = w_path sidecar_writer, stop_bytes = 100, stop_room = 104857600\<rparr>])"
proof -
  have "epbSize 104857600 = 104857632" by (simp add: epbSize_small small_def epb_bytes_def pad4_bytes_def)
  then show ?thesis
    by (simp add: WritePacket_state admit_def notifyStop_def sidecar_writer_def new_writer_def HeaderSize_def i64_id)
qed

lemma stopped_capture_gets_completed_witness:
  "\<exists>a w cw' cs. Start sidecar_env sidecar_config sample_world = (Inr a, w)
     \<and> a_capW (sc_app (serve sidecar_env [Packet 5 sample_info (replicate 104857600 CHR ''x''), StatsTick, DrainTick 2000000000] (running sidecar_env a w))) = Some cw'
     \<and> closed cw' \<and> calls cw' = cs @ [FileClose]"
proof -
  let ?big = "Packet 5 sample_info (replicate 104857600 CHR ''x'')"
  obtain a w where st: "Start sidecar_env sidecar_config sample_world = (Inr a, w)" "a_capW a = Some sidecar_writer" "a_live a"
    using sidecar_starts by blast
  define s where "s = serve sidecar_env [?big] (running sidecar_env a w)"
  have s: "a_capW (sc_app s) = Some (sidecar_writer\<lparr>stopped := True\<rparr>)" "sc_closed s \<le> 2"
    using st(2,3) by (simp_all add: s_def running_def do_packet_def big_packet_stops sidecar_env_simps set_capture_def)
  have "\<forall>at ci data. Packet at ci data \<in> set [?big] \<longrightarrow> at + holdWindow \<le> 2000000000" by (simp add: holdWindow_def)
  from stopped_capture_gets_completed [OF st(1) s_def s(1) _ s(2) this, of "[StatsTick]"] obtain cw' cs where
    "a_capW (sc_app (serve sidecar_env ([StatsTick] @ [DrainTick 2000000000]) s)) = Some cw'" "closed cw'" "calls cw' = cs @ [FileClose]"
    by auto
  moreover have "serve sidecar_env [?big, StatsTick, DrainTick 2000000000] (running sidecar_env a w)
      = serve sidecar_env ([StatsTick] @ [DrainTick 2000000000]) s"
    unfolding s_def serve_append [symmetric] by simp
  ultimately show ?thesis using st(1) by metis
qed

end
