(* ===== verification/App_Log.thy ===== *)
theory App_Log
  imports End_To_End
begin

text \<open>
  What the application logs of its own (\<^verbatim>\<open>cmd/app/app.go\<close>): the four records, how the logger
  writes them, and that the capture's stop is logged once.
\<close>

section \<open>The records\<close>

definition emitNotStarted :: "time \<Rightarrow> string \<Rightarrow> int \<Rightarrow> int \<Rightarrow> logger \<Rightarrow> leaf list option \<times> logger" where
  "emitNotStarted now captureDir owns maxBytes lg =
     Error now ''capture not started: --max-bytes already reached''
       [(''dir'', VString captureDir), (''owned_bytes'', VInt owns), (''max_bytes'', VInt maxBytes)] lg"

definition emitStarted :: "time \<Rightarrow> string \<Rightarrow> logger \<Rightarrow> leaf list option \<times> logger" where
  "emitStarted now path lg = Info now ''capture started'' [(''path'', VString path)] lg"

definition emitStop :: "time \<Rightarrow> string \<Rightarrow> int \<Rightarrow> int \<Rightarrow> int \<Rightarrow> logger \<Rightarrow> leaf list option \<times> logger" where
  "emitStop now path bytes owns maxBytes lg =
     Warn now ''capture stopped: --max-bytes reached''
       [(''path'', VString path), (''capture_bytes'', VInt bytes), (''owned_bytes'', VInt owns), (''max_bytes'', VInt maxBytes)] lg"

definition emitStats :: "time \<Rightarrow> u64 \<Rightarrow> int \<Rightarrow> string \<Rightarrow> logger \<Rightarrow> leaf list option \<times> logger" where
  "emitStats now missed rejected st lg =
     Info now ''stats''
       [(''origdst_lookup_miss'', VUint (unat missed)), (''keylog_lines_rejected'', VInt rejected), (''capture_state'', VString st)] lg"

fun log_app :: "time \<Rightarrow> app_log \<Rightarrow> logger \<Rightarrow> leaf list option \<times> logger" where
  "log_app now (LogCaptureNotStarted dir owns maxBytes) lg = emitNotStarted now dir owns maxBytes lg"
| "log_app now (LogCaptureStarted path) lg = emitStarted now path lg"
| "log_app now (LogCaptureStop path bytes owns maxBytes) lg = emitStop now path bytes owns maxBytes lg"
| "log_app now (LogStats missed rejected st) lg = emitStats now missed rejected st lg"

text \<open>Attributes with plain values and harmless keys are written as they are.\<close>

fun plain :: "slog_value \<Rightarrow> bool" where
  "plain (VGroup _) = False"
| "plain (VAny _) = False"
| "plain _ = True"

lemma plain_attr:
  assumes "plain v" "\<not> isSensitive key" "\<forall>g \<in> set groups. \<not> isSensitive g" "groups \<noteq> []"
  shows "append_attr groups key v = [(groups, key, v)]"
  using assms by (cases v) (auto simp: replaceAttr_def nil_value_def)

lemma plain_attrs:
  assumes "\<forall>a \<in> set attrs. plain (snd a) \<and> \<not> isSensitive (fst a)"
  shows "log_attrs now level msg attrs =
    [([], ''timestamp'', VTime now), ([], ''level'', VInt level), ([], ''message'', VString msg)] @ map (Pair [''context'']) attrs"
proof -
  have "concat (map (\<lambda>a. append_attr [''context''] (fst a) (snd a)) attrs) = map (Pair [''context'']) attrs"
    using assms by (induction attrs) (auto simp: plain_attr isSensitive_builtin)
  then show ?thesis by (simp add: log_attrs_def replaceAttr_def nil_value_def)
qed

lemma app_keys_harmless:
  "list_all (\<lambda>key. \<not> isSensitive key) [''dir'', ''owned_bytes'', ''max_bytes'', ''path'', ''capture_bytes'',
     ''origdst_lookup_miss'', ''keylog_lines_rejected'', ''capture_state'']"
  by code_simp

lemma emitStop_record:
  assumes "lg_limit lg = None"
  shows "fst (emitStop now path bytes owns maxBytes lg) =
    (if LevelWarn < lg_level lg then None
     else Some [([], ''timestamp'', VTime now), ([], ''level'', VInt LevelWarn),
       ([], ''message'', VString ''capture stopped: --max-bytes reached''),
       ([''context''], ''path'', VString path), ([''context''], ''capture_bytes'', VInt bytes),
       ([''context''], ''owned_bytes'', VInt owns), ([''context''], ''max_bytes'', VInt maxBytes)])"
  using assms app_keys_harmless by (simp add: emitStop_def Warn_def logger_log_def plain_attrs)

lemma emitStats_record:
  assumes "lg_limit lg = None"
  shows "fst (emitStats now missed rejected st lg) =
    (if LevelInfo < lg_level lg then None
     else Some [([], ''timestamp'', VTime now), ([], ''level'', VInt LevelInfo), ([], ''message'', VString ''stats''),
       ([''context''], ''origdst_lookup_miss'', VUint (unat missed)),
       ([''context''], ''keylog_lines_rejected'', VInt rejected), ([''context''], ''capture_state'', VString st)])"
  using assms app_keys_harmless by (simp add: emitStats_def Info_def logger_log_def plain_attrs)

lemma emitStarted_record:
  assumes "lg_limit lg = None"
  shows "fst (emitStarted now path lg) =
    (if LevelInfo < lg_level lg then None
     else Some [([], ''timestamp'', VTime now), ([], ''level'', VInt LevelInfo), ([], ''message'', VString ''capture started''),
       ([''context''], ''path'', VString path)])"
  using assms app_keys_harmless by (simp add: emitStarted_def Info_def logger_log_def plain_attrs)

lemma emitNotStarted_record:
  assumes "lg_limit lg = None"
  shows "fst (emitNotStarted now captureDir owns maxBytes lg) =
    (if LevelError < lg_level lg then None
     else Some [([], ''timestamp'', VTime now), ([], ''level'', VInt LevelError),
       ([], ''message'', VString ''capture not started: --max-bytes already reached''), ([''context''], ''dir'', VString captureDir),
       ([''context''], ''owned_bytes'', VInt owns), ([''context''], ''max_bytes'', VInt maxBytes)])"
  using assms app_keys_harmless by (simp add: emitNotStarted_def Error_def logger_log_def plain_attrs)

section \<open>The stop is logged once\<close>

fun is_stop :: "app_log \<Rightarrow> bool" where
  "is_stop (LogCaptureStop _ _ _ _) = True"
| "is_stop _ = False"

definition stop_records :: "app_log list \<Rightarrow> app_log list" where
  "stop_records lg = filter is_stop lg"

lemma stop_records_append [simp]: "stop_records (xs @ ys) = stop_records xs @ stop_records ys"
  by (simp add: stop_records_def)

lemma stop_records_stats [simp]: "stop_records [logStats a] = []" "stop_records (final_stats a) = []"
  by (simp_all add: stop_records_def logStats_def final_stats_def)

lemma stop_records_stop [simp]: "stop_records (map (logCaptureStop a) stops) = map (logCaptureStop a) stops"
  by (simp add: stop_records_def logCaptureStop_def)

text \<open>The path of a writer never changes, nor what it has admitted once it has stopped.\<close>

lemma wstep_path: "wstep io w ev w' \<Longrightarrow> w_path w' = w_path w"
proof (induction rule: wstep.induct)
  case (packet now ci data w err w' stops)
  then show ?case by (auto simp: WritePacket_state admit_def enqueue_def writeHeld_state Let_def split: if_splits option.splits)
next
  case (secret line w w' stops)
  then show ?case by (auto simp: AddSecret_state admit_def split: if_splits)
next
  case (close w err w')
  then have "w' = snd (Close io w)" by simp
  then show ?case by (simp add: Close_state)
qed (auto simp: SetRoom_def drain_tick_state drain_state Let_def)

text \<open>
  The log of a run that started with the stop records \<open>old\<close>: one more when the capture has
  stopped, with the file and the size it stopped at.
\<close>

definition stop_logged :: "app_log list \<Rightarrow> int \<Rightarrow> cwriter \<Rightarrow> app_log list \<Rightarrow> bool" where
  "stop_logged old maxBytes cw lg \<longleftrightarrow>
     (\<exists>owns. stop_records lg = old @ (if stopped cw then [LogCaptureStop (w_path cw) (admitted cw) owns maxBytes] else []))"

lemma stop_logged_wstep:
  assumes "wstep io cw ev cw'" "stop_logged old (c_MaxBytes (a_cfg a)) cw lg" "onStop cw"
  shows "stop_logged old (c_MaxBytes (a_cfg a)) cw' (lg @ map (logCaptureStop a) (snd ev)) \<and> onStop cw'"
proof -
  note stop = wstep_stop [OF assms(1)] and path = wstep_path [OF assms(1)]
  have "log_content (log_of cw') = log_content (log_of cw)" if "stopped cw"
    using wstep_log [OF assms(1)] log_event_stopped [of "log_of cw" "fst ev"] that by (simp add: log_step_def)
  then have adm: "stopped cw \<Longrightarrow> admitted cw' = admitted cw" by (simp add: log_content_def log_of_def)
  show ?thesis
    using stop path adm assms(2,3)
    by (cases "stopped cw"; cases "stopped cw'") (auto simp: stop_logged_def stop_report_def logCaptureStop_def stop_records_def)
qed

definition stop_ok :: "app_log list \<Rightarrow> config \<Rightarrow> sidecar \<Rightarrow> bool" where
  "stop_ok old cfg s \<longleftrightarrow> a_cfg (sc_app s) = cfg
     \<and> (case a_capW (sc_app s) of
          None \<Rightarrow> stop_records (wd_log (sc_world s)) = old
        | Some cw \<Rightarrow> onStop cw \<and> stop_logged old (c_MaxBytes cfg) cw (wd_log (sc_world s)))"

lemma stop_logged_stats: "stop_logged old m cw (lg @ final_stats a) = stop_logged old m cw lg"
  by (simp add: stop_logged_def)

lemma closed_writer_stop_logged:
  "stop_logged old m (closed_writer env cw) lg = stop_logged old m cw lg" "onStop (closed_writer env cw) = onStop cw"
  by (simp_all add: stop_logged_def closed_writer_def Close_state)

lemma SetRoom_stop_logged:
  "stop_logged old m (SetRoom r cw) lg = stop_logged old m cw lg" "onStop (SetRoom r cw) = onStop cw"
  by (simp_all add: stop_logged_def SetRoom_def)

lemma stop_ok_close:
  assumes "do_close env s = Some s'" "stop_ok old cfg s"
  shows "stop_ok old cfg s'"
proof -
  note res = do_close_result [OF assms(1)]
  show ?thesis
    using less_8 [OF res(1)] res(4) assms(2) close_loader_result [of env "sc_app s" "sc_world s"]
    by (elim disjE)
      (auto simp: closings_nth closing_results stop_ok_def closed_writer_stop_logged stop_logged_stats split: option.splits)
qed

lemma stop_ok_step:
  assumes "sidecar_step env ev s = Some s'" "stop_ok old cfg s"
  shows "stop_ok old cfg s'"
proof -
  have set: "stop_ok old cfg (set_capture cw' (snd e) s)"
    if "a_capW (sc_app s) = Some cw" "wstep (e_ng env) cw e cw'" for cw e cw'
    using stop_logged_wstep [OF that(2), of old "sc_app s" "wd_log (sc_world s)"] assms(2) that(1)
    by (simp add: stop_ok_def set_capture_def)
  show ?thesis
  proof (cases ev)
    case (Packet now ci data)
    then obtain cw err cw' stops where cw: "a_capW (sc_app s) = Some cw" "WritePacket (e_ng env) now ci data cw = (err, cw', stops)"
        "s' = (set_capture cw' stops s)\<lparr>sc_reading := (err \<noteq> Some ErrStopped)\<rparr>"
      using assms(1) by (auto simp: do_packet_def split: step_splits)
    from set [OF cw(1) wstep.packet [OF cw(2)]] cw(3) show ?thesis by (simp add: stop_ok_def set_capture_def)
  next
    case (DrainTick now)
    then obtain cw where cw: "a_capW (sc_app s) = Some cw" "\<not> drained cw" "s' = set_capture (drain_tick (e_ng env) now cw) [] s"
      using assms(1) by (auto simp: do_drain_def split: step_splits)
    from set [OF cw(1) wstep.tick [OF cw(2), of _ now]] cw(3) show ?thesis by simp
  next
    case Sink
    then obtain line cw cw' stops where cw: "a_capW (sc_app s) = Some cw" "AddSecret line cw = (cw', stops)"
        "s' = (set_capture cw' stops s)\<lparr>sc_sinking := None\<rparr>"
      using assms(1) by (auto simp: do_sink_def split: step_splits)
    from set [OF cw(1) wstep.secret [OF cw(2)]] cw(3) show ?thesis by (simp add: stop_ok_def set_capture_def)
  next
    case (RetentionTick now)
    obtain a w where r: "enforceRetention env now (sc_app s, sc_world s) = (a, w)" by fastforce
    have s': "s' = s\<lparr>sc_app := a, sc_world := w\<rparr>"
      using assms(1) r by (auto simp: RetentionTick do_retention_def split: if_splits)
    note keeps = enforceRetention_keeps [OF r]
    have "a_cfg a = a_cfg (sc_app s)" using arg_cong [OF conjunct1 [OF keeps(1)], of a_cfg] by simp
    moreover have "wd_log w = wd_log (sc_world s)" using arg_cong [OF conjunct1 [OF keeps(2)], of wd_log] by simp
    ultimately show ?thesis using assms(2) s' conjunct2 [OF keeps(1)] by (auto simp: stop_ok_def SetRoom_stop_logged split: option.splits)
  next
    case CloseStep
    then show ?thesis using stop_ok_close [OF _ assms(2)] assms(1) by simp
  qed (use assms in \<open>auto simp: do_defs stop_ok_def stop_logged_def Let_def split: step_splits\<close>)
qed

lemma openCapture_onStop:
  assumes "openCapture env (a, w) = (None, a', w')" "a_capW a = None" "a_capW a' = Some cw"
  shows "onStop cw"
  using assms by (auto simp: openCapture_def CreateRunCapture_def Let_def new_writer_def
    split: prod.splits option.splits sum.splits if_splits dest!: try_names_fresh)

lemma Start_stop_ok:
  assumes "Start env cfg w0 = (Inr a, w)"
  shows "stop_ok (stop_records (wd_log w)) cfg (running env a w)"
proof -
  obtain a1 w1 a2 w2 where st: "openCapture env (a1, w1) = (None, a2, w2)" "a_capW a1 = None" "a_capW a = a_capW a2" "a_cfg a = cfg"
    by (rule Start_success [OF assms])
  show ?thesis
  proof (cases "a_capW a")
    case None
    then show ?thesis using st(4) by (simp add: stop_ok_def running_def)
  next
    case (Some cw)
    moreover have "\<not> stopped cw" using Start_fresh [OF assms Some] by (auto simp: fresh_def new_writer_def)
    moreover have "onStop cw" using openCapture_onStop [OF st(1,2)] st(3) Some by simp
    ultimately show ?thesis using st(4) by (simp add: stop_ok_def running_def stop_logged_def)
  qed
qed

section \<open>Properties\<close>

text \<open>
  C23: capture stops once and for good, and says so once. At every moment of a run, a stop and
  its record being one step, its log has
  exactly one record of the stop when the capture has stopped at its limit, with the file, the size
  it stopped at and the limit, and none otherwise; an unlimited logger writes that record in
  full, with no value masked, unless its level is above WARN; and after the stop no packet
  and no secret is ever accepted again, whatever happens.
\<close>

theorem stop_is_logged_once:
  assumes "Start env cfg w0 = (Inr a, w)" "s = serve env evs (running env a w)"
  shows "\<exists>stops. stop_records (wd_log (sc_world s)) = stop_records (wd_log w) @ stops
    \<and> (if captureState (sc_app s) = StateStoppedMaxBytes
       then \<exists>cw owns. a_capW (sc_app s) = Some cw \<and> stops = [LogCaptureStop (w_path cw) (admitted cw) owns (c_MaxBytes cfg)]
         \<and> (\<forall>now lg. lg_limit lg = None \<and> lg_level lg \<le> LevelWarn \<longrightarrow>
              fst (log_app now (hd stops) lg) = Some [([], ''timestamp'', VTime now), ([], ''level'', VInt LevelWarn),
                ([], ''message'', VString ''capture stopped: --max-bytes reached''),
                ([''context''], ''path'', VString (w_path cw)), ([''context''], ''capture_bytes'', VInt (admitted cw)),
                ([''context''], ''owned_bytes'', VInt owns), ([''context''], ''max_bytes'', VInt (c_MaxBytes cfg))])
         \<and> (\<exists>cw'. a_capW (sc_app (serve env evs' s)) = Some cw' \<and> stopped cw' \<and> admitted cw' = admitted cw
              \<and> accepted_packets cw' = accepted_packets cw \<and> accepted_secrets cw' = accepted_secrets cw)
       else stops = [])"
proof -
  have ok: "stop_ok (stop_records (wd_log w)) cfg s"
    unfolding assms(2) by (rule serve_keeps) (use stop_ok_step Start_stop_ok [OF assms(1)] in blast)+
  show ?thesis
  proof (cases "a_capW (sc_app s)")
    case None
    then show ?thesis using ok by (simp add: stop_ok_def captureState_def)
  next
    case (Some cw)
    have state: "captureState (sc_app s) = StateStoppedMaxBytes \<longleftrightarrow> stopped cw"
      using Some by (simp add: captureState_def State_def)
    have final: "\<exists>cw'. a_capW (sc_app (serve env evs' s)) = Some cw' \<and> stopped cw' \<and> admitted cw' = admitted cw
        \<and> accepted_packets cw' = accepted_packets cw \<and> accepted_secrets cw' = accepted_secrets cw" if "stopped cw"
    proof -
      obtain cw' wevs where cw': "a_capW (sc_app (serve env evs' s)) = Some cw'" "run (wstep (e_ng env)) cw wevs cw'"
        using serve_capture [OF Some] by blast
      have "log_stopped (log_of cw') \<and> log_content (log_of cw') = log_content (log_of cw)"
        by (rule run_log_stopped [OF capture.run_simulates [OF cw'(2)]]) (simp add: log_of_def that)
      then show ?thesis using cw'(1) by (simp add: log_content_def log_of_def)
    qed
    from ok Some obtain owns where
      rec: "stop_records (wd_log (sc_world s)) =
        stop_records (wd_log w) @ (if stopped cw then [LogCaptureStop (w_path cw) (admitted cw) owns (c_MaxBytes cfg)] else [])"
      by (auto simp: stop_ok_def stop_logged_def)
    show ?thesis unfolding rec state
      by (intro exI conjI, rule refl) (use Some final in \<open>simp add: emitStop_record not_less\<close>)
  qed
qed

lemma stop_is_logged_once_witness:
  "\<exists>a w owns. Start sidecar_env sidecar_config sample_world = (Inr a, w)
     \<and> stop_records (wd_log (sc_world (serve sidecar_env [Packet 5 sample_info (replicate 104857600 CHR ''x'')] (running sidecar_env a w))))
       = stop_records (wd_log w) @ [LogCaptureStop (w_path sidecar_writer) 100 owns 104857600]"
proof -
  let ?evs = "[Packet 5 sample_info (replicate 104857600 CHR ''x'')]"
  obtain a w where st: "Start sidecar_env sidecar_config sample_world = (Inr a, w)" "a_capW a = Some sidecar_writer" "a_live a"
    using sidecar_starts by blast
  let ?s = "serve sidecar_env ?evs (running sidecar_env a w)"
  have s: "a_capW (sc_app ?s) = Some (sidecar_writer\<lparr>stopped := True\<rparr>)"
    using st(2,3) by (simp add: running_def do_packet_def big_packet_stops sidecar_env_simps set_capture_def)
  then have "captureState (sc_app ?s) = StateStoppedMaxBytes" by (simp add: captureState_def State_def del: serve.simps)
  with stop_is_logged_once [OF st(1) refl, of ?evs "[]"] s obtain owns where
    "stop_records (wd_log (sc_world ?s)) = stop_records (wd_log w) @
       [LogCaptureStop (w_path sidecar_writer) (admitted sidecar_writer) owns (c_MaxBytes sidecar_config)]"
    by (auto simp del: serve.simps)
  moreover have "admitted sidecar_writer = 100" "c_MaxBytes sidecar_config = 104857600"
    by (simp_all add: sidecar_writer_def new_writer_def HeaderSize_def sidecar_config_simps)
  ultimately show ?thesis using st(1) by (intro exI [of _ a] exI [of _ w] exI [of _ owns] conjI) (simp_all only:)
qed

end
