(* ===== verification/Process.thy ===== *)
theory Process
  imports Config App_Log
begin

text \<open>
  \<^verbatim>\<open>cmd/app/main.go\<close>: the process. It loads its configuration, starts the sidecar, waits for a
  signal and closes it; whatever fails is logged once, and the exit status says so. What
  holds of every way \<^verbatim>\<open>main\<close> itself ends is stated in the root theory.
\<close>

section \<open>The process\<close>

text \<open>What the process meets besides the operating system: the clock, how errors read, and
  what happens to the running sidecar until the signal and while it closes.\<close>

record process_env =
  pe_now :: time
  pe_config_error :: "config_error \<Rightarrow> string"
  pe_start_error :: "app_error \<Rightarrow> string"
  pe_close_error :: "close_error list \<Rightarrow> string"
  pe_events :: "event list"

text \<open>The exit status and the record logged, if any.\<close>

definition fatal :: "time \<Rightarrow> logger \<Rightarrow> string \<Rightarrow> string option \<Rightarrow> nat \<times> leaf list option" where
  "fatal now lg msg err = (1, fst (Error now msg (case err of Some e \<Rightarrow> [(''error'', VString e)] | None \<Rightarrow> []) lg))"

text \<open>
  \<^verbatim>\<open>flag.CommandLine\<close> exits by itself: with status 0 when help is asked for and 2 on any other
  error. Until the configuration is loaded the level is INFO. After the signal \<^verbatim>\<open>Close\<close> runs to its
  end, while the goroutines go on: some of its steps are among the events, the others follow.
\<close>

definition main_go ::
  "'k koanf \<Rightarrow> flag_text \<Rightarrow> (string \<Rightarrow> string) \<Rightarrow> process_env \<Rightarrow> env \<Rightarrow> string list \<Rightarrow> string list \<Rightarrow> world
   \<Rightarrow> (nat \<times> leaf list option) \<times> world" where
  "main_go K ft uni pe env args environ w =
     (let lg = NewLogger (Some LevelInfo) in
      case loadConfig K ft uni args environ of
        Inl (FlagError ErrHelp) \<Rightarrow> ((0, None), w)
      | Inl (FlagError _) \<Rightarrow> ((2, None), w)
      | Inl e \<Rightarrow> (fatal (pe_now pe) lg ''app: config load failed'' (Some (pe_config_error pe e)), w)
      | Inr cfg \<Rightarrow>
          (let lg = lg\<lparr>lg_level := c_LogLevel cfg\<rparr> in
           if c_CgroupPath cfg = [] then (fatal (pe_now pe) lg ''app: --cgroup-path is required'' None, w)
           else case Start env cfg w of
             (Inl e, w1) \<Rightarrow> (fatal (pe_now pe) lg ''app: start failed'' (Some (pe_start_error pe e)), w1)
           | (Inr a, w1) \<Rightarrow>
               (let s = finish env (serve env (pe_events pe) (running env a w1)); errs = errors_join (sc_errs s)
                in if errs \<noteq> [] then (fatal (pe_now pe) lg ''app: shutdown failed'' (Some (pe_close_error pe errs)), sc_world s)
                   else ((0, None), sc_world s))))"

lemma fatal_status [simp]: "fst (fatal now lg msg err) = 1"
  by (simp add: fatal_def)

lemma fatal_logged: "lg_limit lg = None \<Longrightarrow> lg_level lg \<le> LevelError \<Longrightarrow> \<exists>r. snd (fatal now lg msg err) = Some r"
  by (simp add: fatal_def Error_def logger_log_def)

section \<open>How it ends\<close>

lemma main_go_released:
  assumes "pristine w" "main_go K ft uni pe env args environ w = ((status, rc), w')"
  shows "released env w'"
proof -
  from assms(2) consider "w' = w" | e cfg where "Start env cfg w = (Inl e, w')"
    | cfg a w1 where "Start env cfg w = (Inr a, w1)" "w' = sc_world (finish env (serve env (pe_events pe) (running env a w1)))"
    by (auto simp: main_go_def Let_def split: sum.splits config_error.splits flag_error.splits if_splits prod.splits)
  then show ?thesis
  proof cases
    case 1
    then show ?thesis using pristine_released [OF assms(1)] by simp
  next
    case 2
    then show ?thesis using Start_fails_released [OF _ assms(1)] by blast
  next
    case 3
    note ok = finish_closed [OF closing_ok_serve [OF Start_tracked [OF 3(1) assms(1)]], of env "pe_events pe"]
    show ?thesis unfolding 3(2) using closed_released ok by blast
  qed
qed

lemma errors_join_Nil: "errors_join es = [] \<longleftrightarrow> (\<forall>e \<in> set es. e = None)"
  by (induction es) (auto simp: errors_join_def List.map_filter_simps split: option.splits)

lemma main_go_success:
  assumes "main_go K ft uni pe env args environ w = ((status, rc), w')" "status = 0"
  shows "loadConfig K ft uni args environ = Inl (FlagError ErrHelp)
    \<or> (\<exists>cfg a w1. loadConfig K ft uni args environ = Inr cfg \<and> c_CgroupPath cfg \<noteq> [] \<and> Start env cfg w = (Inr a, w1)
         \<and> (\<forall>err \<in> set (sc_errs (finish env (serve env (pe_events pe) (running env a w1)))). err = None))"
  using assms
  by (auto simp: main_go_def Let_def errors_join_Nil fatal_def split: sum.splits config_error.splits flag_error.splits if_splits prod.splits)

lemma main_go_logged:
  assumes "main_go K ft uni pe env args environ w = ((status, rc), w')" "status = 1"
    "\<forall>cfg. loadConfig K ft uni args environ = Inr cfg \<longrightarrow> c_LogLevel cfg \<le> LevelError"
  shows "rc \<noteq> None"
proof (cases "loadConfig K ft uni args environ")
  case (Inl e)
  have "lg_level (NewLogger (Some LevelInfo)) \<le> LevelError" "lg_limit (NewLogger (Some LevelInfo)) = None"
    by (simp_all add: NewLogger_def LevelInfo_def LevelError_def)
  note logged = fatal_logged [OF this(2,1)]
  show ?thesis
    using assms(1,2) by (auto simp: logged main_go_def Inl Let_def prod_eq_iff split: config_error.splits flag_error.splits)
next
  case (Inr cfg)
  define lg where "lg = (NewLogger (Some LevelInfo))\<lparr>lg_level := c_LogLevel cfg\<rparr>"
  have logged: "\<exists>r. snd (fatal now lg msg err) = Some r" for now msg err
    by (rule fatal_logged) (use assms(3) Inr in \<open>simp_all add: lg_def NewLogger_def\<close>)
  show ?thesis
    using assms(1,2) by (auto simp: logged main_go_def Inr Let_def lg_def [symmetric] prod_eq_iff split: if_splits prod.splits sum.splits)
qed

section \<open>A sample process\<close>

definition sample_process :: process_env where
  "sample_process = \<lparr>pe_now = 5, pe_config_error = (\<lambda>_. ''e''), pe_start_error = (\<lambda>_. ''e''), pe_close_error = (\<lambda>_. ''e''), pe_events = [CloseStep, StatsTick]\<rparr>"

lemma map_of_pairs: "map_of (map (\<lambda>n. (n, c)) ns) x = (if x \<in> set ns then Some c else None)"
  by (induction ns) auto

lemma sample_loads: "loadConfig (list_koanf [] sample_config) sample_text id [] [] = Inr sample_config"
proof -
  have "merge_sources (list_koanf [] sample_config) sample_text id Map.empty [] =
      Inr (map (\<lambda>n. (n, Some (CString ''default''))) (filter (\<lambda>n. n \<noteq> configFlag) (map fst sidecar_flags)))"
    unfolding setting_names
    by (simp add: merge_sources_def load_file_def config_path_def list_koanf_def env_pairs_def visit_flags_def
        sidecar_flags_def Let_def skipConfigFlag_def configFlag_def sample_text_def)
  moreover have "find (\<lambda>key. k_get (list_koanf [] sample_config) (map (\<lambda>n. (n, Some (CString ''default''))) ns) key = None)
      (k_keys (list_koanf [] sample_config) (map (\<lambda>n. (n, Some (CString ''default''))) ns)) = None" for ns
    by (auto simp: find_None_iff list_koanf_def map_of_pairs)
  ultimately show ?thesis by (simp add: loadConfig_def) (simp add: list_koanf_def)
qed

end
