(* ===== verification/Pairing.thy ===== *)
theory Pairing
  imports Go_Strings
begin

text \<open>
  \<^verbatim>\<open>internal/capture/capturetest/pairing.go\<close>: decrypting a capture offline with \<^verbatim>\<open>tshark\<close>. The
  command and what the context answers are arguments; the definitions are what it is run with
  and which error its caller gets.
\<close>

section \<open>Arguments\<close>

definition AppDataFilter :: string where "AppDataFilter = ''http or http2''"

definition TsharkArgs :: "string \<Rightarrow> string \<Rightarrow> string list" where
  "TsharkArgs pcapPath keylogPath = [''-r'', pcapPath, ''-o'', ''tls.keylog_file:'' @ keylogPath]"

definition reassembleOutOfOrder :: string where
  "reassembleOutOfOrder = ''tcp.reassemble_out_of_order:TRUE''"

section \<open>Running\<close>

text \<open>A failed command: \<^verbatim>\<open>*exec.ExitError\<close> with what it wrote to its standard error, or anything
  else. The caller's error carries that output, if there is any, without the space around it.\<close>

datatype 'e exec_error = ExitError 'e string | OtherError 'e

datatype 'e tshark_error = ContextDone 'e | TsharkFailed "'e exec_error" "string option"

text \<open>\<^verbatim>\<open>bytes.TrimSpace\<close>: without the white space runes at either end.\<close>

definition trim_runes :: "(nat \<times> string) list \<Rightarrow> (nat \<times> string) list" where
  "trim_runes rs = rev (dropWhile (\<lambda>r. is_space (fst r)) (rev (dropWhile (\<lambda>r. is_space (fst r)) rs)))"

definition TrimSpace :: "string \<Rightarrow> string" where
  "TrimSpace s = concat (map snd (trim_runes (runes s)))"

text \<open>\<open>exec\<close> runs a program with arguments; \<open>ctx_cause\<close> is the cause of a context that is done.\<close>

definition DecryptedAppData ::
  "(string \<Rightarrow> string list \<Rightarrow> 'e exec_error + string) \<Rightarrow> 'e option \<Rightarrow> string \<Rightarrow> string \<Rightarrow> string \<Rightarrow> 'e tshark_error + string" where
  "DecryptedAppData exec ctx_cause pcapPath keylogPath flt =
     (case exec ''tshark'' (TsharkArgs pcapPath keylogPath @ [''-o'', reassembleOutOfOrder, ''-Y'', flt, ''-V'']) of
        Inr out \<Rightarrow> Inr out
      | Inl err \<Rightarrow>
          (case ctx_cause of
             Some cause \<Rightarrow> Inl (ContextDone cause)
           | None \<Rightarrow>
               (case err of
                  ExitError _ stderr \<Rightarrow> if stderr \<noteq> [] then Inl (TsharkFailed err (Some (TrimSpace stderr))) else Inl (TsharkFailed err None)
                | OtherError _ \<Rightarrow> Inl (TsharkFailed err None))))"

section \<open>What the caller gets\<close>

lemma trim_runes_split: "\<exists>before after. rs = before @ trim_runes rs @ after"
proof -
  define ts where "ts = dropWhile (\<lambda>r. is_space (fst r)) rs"
  have "rs = takeWhile (\<lambda>r. is_space (fst r)) rs @ ts" by (simp add: ts_def)
  moreover have "ts = trim_runes rs @ rev (takeWhile (\<lambda>r. is_space (fst r)) (rev ts))"
    unfolding trim_runes_def ts_def [symmetric] by (metis rev_append rev_rev_ident takeWhile_dropWhile_id)
  ultimately show ?thesis by metis
qed

text \<open>What is trimmed is at the ends only, and what stays has none there.\<close>

lemma TrimSpace_infix: "\<exists>before after. s = before @ TrimSpace s @ after"
proof -
  obtain before after where "runes s = before @ trim_runes (runes s) @ after" using trim_runes_split by blast
  then have "concat (map snd (runes s)) = concat (map snd before) @ TrimSpace s @ concat (map snd after)"
    unfolding TrimSpace_def by (metis concat_append map_append)
  then show ?thesis unfolding concat_runes by blast
qed

lemma trim_runes_ends: "trim_runes rs = [] \<or> (\<not> is_space (fst (last (trim_runes rs))))"
  by (metis trim_runes_def dropWhile_eq_Nil_conv hd_dropWhile last_rev rev_is_Nil_conv)

text \<open>
  The decoded output is exactly what a successful run printed; once the context is done a
  failure reports its cause; and otherwise it carries the output on the standard error.
\<close>

lemma DecryptedAppData_result:
  assumes "res = exec ''tshark'' [''-r'', pcap, ''-o'', ''tls.keylog_file:'' @ keylog, ''-o'', ''tcp.reassemble_out_of_order:TRUE'', ''-Y'', flt, ''-V'']"
  shows "DecryptedAppData exec cause pcap keylog flt = Inr out \<longleftrightarrow> res = Inr out"
    "res = Inl err \<Longrightarrow> DecryptedAppData exec (Some c) pcap keylog flt = Inl (ContextDone c)"
    "res = Inl (ExitError e stderr) \<Longrightarrow> stderr \<noteq> [] \<Longrightarrow>
      DecryptedAppData exec None pcap keylog flt = Inl (TsharkFailed (ExitError e stderr) (Some (TrimSpace stderr)))"
  by (auto simp: DecryptedAppData_def TsharkArgs_def reassembleOutOfOrder_def assms split: sum.splits option.splits exec_error.splits)

end
