(* ===== verification/Spec2Isabelle.thy ===== *)
theory Spec2Isabelle
  imports Process Pairing
begin

text \<open>
  A verification of the go-ebpf-proxy sidecar.

  The sidecar shares a pod with an application. Two eBPF programs (\<^verbatim>\<open>bpf/proxy.bpf.c\<close>) send
  every outgoing TCP connection to a local relay and record where it wanted to go; the relay
  (\<^verbatim>\<open>internal/proxy\<close>) looks that up in a kernel map (\<^verbatim>\<open>internal/ebpf\<close>) and passes the bytes
  through. A library loaded into the application (\<^verbatim>\<open>preload/\<close>) sends its TLS keys to a keylog
  server (\<^verbatim>\<open>internal/keylog\<close>), which appends them to a keylog file on tmpfs and hands them to
  the capture; and a capture writer (\<^verbatim>\<open>internal/capture\<close>) records the interface's packets and
  those keys in one self-decrypting file, within a size limit that retention keeps over all
  runs. \<^verbatim>\<open>cmd/app\<close> puts these together and takes them down; \<^verbatim>\<open>internal/shared/logger\<close> logs
  for all of them and must never log a key.

  How the model is written. Go structs are records, Go errors values of a sum or option type,
  and every definition has the name of its function. Effects outside the program (system
  calls, the kernel, third-party packages) are arguments; where their order matters, a
  definition also returns the actions it performed, in order. What runs concurrently is a
  step relation or a step function, and its theorems hold for every interleaving (\<open>run\<close> and
  \<open>reach\<close> of \<open>Prelude\<close>, \<open>serve\<close> of \<open>Running\<close>). Integers that can wrap are words, or integers through \<open>i64\<close>.

  The theories, by component.

  \<^item> \<open>Prelude\<close>: errors, 64-bit arithmetic, time, step relations; the locales
    \<open>invariant_system\<close> and \<open>simulation\<close>, interpreted by the components below.
  \<^item> \<open>Go_Strings\<close>, \<open>Go_Paths\<close>: what the sources use of \<^verbatim>\<open>strings\<close>, \<^verbatim>\<open>unicode/utf8\<close>, \<^verbatim>\<open>encoding/hex\<close>,
    \<^verbatim>\<open>strconv\<close>, \<^verbatim>\<open>bufio.Scanner\<close> and \<^verbatim>\<open>path/filepath\<close>.
  \<^item> \<open>Codec\<close> (\<^verbatim>\<open>internal/ebpf/codec.go\<close>): the byte order of map keys and values; a bijection on
    either byte order.
  \<^item> \<open>Redirect\<close> (\<^verbatim>\<open>bpf/proxy.bpf.c\<close>): both hooks over both maps, with an LRU map that may evict or
    refuse (locale \<open>kernel_map\<close>). Every branch of the connect hook, and that an entry by
    source tuple was recorded by a redirected connect of that socket.
  \<^item> \<open>Proxy\<close> (\<^verbatim>\<open>internal/proxy\<close>): resolver, relay, accept loop, splice; the locale \<open>lookuper\<close> is the
    Go interface, interpreted on the kernel's map. A redirected connection is resolved to
    where it wanted to go, the relay dials nothing else, fails closed, ends, reports each
    dial once, and passes bytes through unchanged.
  \<^item> \<open>Nss\<close>, \<open>Keylog_Writer\<close>, \<open>Keylog_Server\<close> (\<^verbatim>\<open>internal/keylog\<close>): the language of key lines and
    what becomes of a truncated one; appending with a gate, a sink (locale \<open>key_sink\<close>) and
    removal of duplicates; the socket server with its connections side by side, what it makes
    of one client's bytes, and of all of them when writes fail half-way.
  \<^item> \<open>Preload\<close> (\<^verbatim>\<open>preload/keylog_preload.c\<close>): the callback, its bounded retries and the bytes it
    leaves on its connections, and which lines can be read off them.
  \<^item> \<open>Capture_Writer\<close>, \<open>Capture_Invariants\<close>, \<open>Capture_Order\<close> (\<^verbatim>\<open>internal/capture/pcapng.go\<close>): the
    writer's operations and its periodic drain as steps. It refines an append-only log
    (locale \<open>simulation\<close>), keeps its queue and its file within bounds, writes secrets before
    the packets they decrypt, stops once, closes once with everything written, and agrees
    with the keylog.
  \<^item> \<open>Live\<close>, \<open>Run_Capture\<close>, \<open>Retention\<close> (\<^verbatim>\<open>internal/capture\<close>): the copying goroutine; the file of
    a run, under a name that never overwrites anything; which files are owned, which the age
    pass deletes, and what room they leave.
  \<^item> \<open>Logger\<close> (\<^verbatim>\<open>internal/shared/logger\<close>): redaction and the rate limiter.
  \<^item> \<open>Bindings\<close> (\<^verbatim>\<open>bpf/proxy_bpfel.go\<close>): the eBPF objects, loading them, and closing them one
    after the other up to the first that fails. \<open>Loader\<close> (\<^verbatim>\<open>internal/ebpf/loader.go\<close>): validating,
    loading, attaching and taking down. \<open>Keylog_Tmpfs\<close> (\<^verbatim>\<open>cmd/app/keylog_tmpfs.go\<close>).
  \<^item> \<open>App\<close> (\<^verbatim>\<open>cmd/app/app.go\<close>): every operation of the application over the record \<open>env\<close> of what the
    operating system answers and the record \<open>world\<close> of what the run holds of it. \<open>Lifecycle\<close>:
    starting and closing. \<open>released\<close> is what a close leaves: nothing attached, listening or
    capturing, an eBPF object only when closing one before it failed, a pin only when it could
    not be removed; \<open>pristine\<close> is nothing at all. \<open>Max_Bytes\<close>: the size limit over all runs.
  \<^item> \<open>Running\<close>: the sidecar at work. Its state \<open>sidecar\<close> has what the goroutines hold; an \<open>event\<close> is
    one thing one goroutine does (a packet, a tick, a keylog line, its way to the capture, a
    client, one step of \<^verbatim>\<open>Close\<close>), and \<open>serve\<close> runs any sequence of them, passing over those that
    cannot happen. \<open>close_steps_are_CloseApp\<close>: undisturbed, the steps are \<open>CloseApp\<close>.
    \<open>Sidecar\<close>, \<open>Sidecar_Properties\<close>: from \<^verbatim>\<open>Start\<close> through any events, the shutdown takes
    everything down, keylog and capture agree, the captures stay within their limit, a
    closed capture is complete and final, and the capture refines its log.
  \<^item> \<open>End_To_End\<close>: from the callbacks of any number of processes to the keylog and the capture, only
    keys those processes gave are kept, whatever writes fail; and a capture that stopped at its limit is completed
    while the sidecar runs on. \<open>App_Log\<close>: the records the application logs, and that the stop of
    its capture is logged once, in full.
  \<^item> \<open>Pairing\<close> (\<^verbatim>\<open>internal/capture/capturetest/pairing.go\<close>): the offline decryption the tests use.
  \<^item> \<open>Config\<close> (\<^verbatim>\<open>cmd/app/config.go\<close>): the command line, the precedence of sources, the strict
    decode hooks. \<open>Process\<close> (\<^verbatim>\<open>cmd/app/main.go\<close>): the process, and below what holds of every
    way \<^verbatim>\<open>main\<close> itself ends.

  Fuel and bounds. Only the walk of \<open>checkKeylogTmpfs\<close> to the root uses fuel, the length of the
  path plus one, and its property includes that this is enough. The retries of the resolver,
  of the interposer and of the choice of a file name end by their own counters. Sizes are
  assumed to be ones a machine can hold where the code adds them in 64 bits, and the
  theorems say so.

  What is relied on of code outside the repository: the block sizes and the flush of the
  pcapng encoder (\<open>pcapgo_sizes\<close>), that \<^verbatim>\<open>koanf\<close> merges its sources as documented (\<open>env_law\<close>,
  \<open>flag_law\<close>), and that a directory listing lists the directory (\<open>honest_listing\<close>). Each is a
  hypothesis of the theorems that need it.

  Not modelled: \<^verbatim>\<open>bpf/proxy_bpfeb.go\<close> by itself, which is \<^verbatim>\<open>bpf/proxy_bpfel.go\<close> with the object file
  of the other byte order; the structs of specifications before they are loaded, which only
  the library fills; tests, workflows and deployment scripts. Every reading of the clock is
  an argument, and \<open>Clock\<close> (\<^verbatim>\<open>internal/capture/clock.go\<close>) what is asked of the readings. The texts of
  errors are not modelled, only which error it is; file permissions only where the code
  decides by them. The bytes of the encoder are not modelled, only the blocks handed to it,
  in order. In a running sidecar the bytes a client and its destination exchange are those
  of \<open>Proxy\<close>'s splice, which touches nothing else; a connection the relay has accepted is not
  closed by \<^verbatim>\<open>Close\<close>, and ends with the process.

  Where the model is coarser than the code. A signal that comes while \<^verbatim>\<open>Start\<close> runs, before
  \<^verbatim>\<open>signal.Notify\<close>, kills the process and nothing is taken down: the theorems are about the ways
  \<^verbatim>\<open>main\<close> itself ends. A capture's stop and its record are one step; the code logs it just after
  it has released the writer's lock. That the goroutines \<^verbatim>\<open>Close\<close> waits for end is part of its
  steps, not a result. A connection to the keylog server is given with all its bytes; of one that the end
  of the process cuts off the rest is never served. The socket file and the directories \<^verbatim>\<open>MkdirAll\<close> makes
  are not in the file system of \<open>world\<close>. In the interposer only its sleeps take time, and a process
  that forks does not share its connection with the child. Templates are taken to be valid
  UTF-8, without which compiling the pattern of owned names panics.
\<close>

section \<open>Properties\<close>

text \<open>
  C10: however \<^verbatim>\<open>main\<close> ends, it leaves nothing running; a signal that kills the process before
  \<^verbatim>\<open>main\<close> asks for signals, while it starts, is not one of these ends. Whatever happens while it runs and
  while it closes, nothing is attached or listening afterwards, and nothing is open or pinned but
  what the kernel failed to release; it exits with status 0 only when help was asked for, or
  when it started, ran and closed without an error; and when it exits with status 1 it has
  logged why, unless the configured level is above ERROR.
\<close>

theorem process_ends_clean:
  assumes "pristine w" "main_go K ft uni pe env args environ w = ((status, rc), w')"
  shows "released env w' \<and> ((\<forall>act. e_closeLoader env act = None) \<longrightarrow> pristine w')
    \<and> (status = 0 \<longrightarrow> loadConfig K ft uni args environ = Inl (FlagError ErrHelp)
        \<or> (\<exists>cfg a w1. loadConfig K ft uni args environ = Inr cfg \<and> c_CgroupPath cfg \<noteq> [] \<and> Start env cfg w = (Inr a, w1)
             \<and> (\<forall>err \<in> set (sc_errs (finish env (serve env (pe_events pe) (running env a w1)))). err = None)))
    \<and> (status = 1 \<and> (\<forall>cfg. loadConfig K ft uni args environ = Inr cfg \<longrightarrow> c_LogLevel cfg \<le> LevelError) \<longrightarrow> rc \<noteq> None)"
proof -
  have "released env w'" by (rule main_go_released [OF assms])
  moreover have "status = 1 \<and> (\<forall>cfg. loadConfig K ft uni args environ = Inr cfg \<longrightarrow> c_LogLevel cfg \<le> LevelError) \<longrightarrow> rc \<noteq> None"
    using main_go_logged [OF assms(2)] by blast
  ultimately show ?thesis using released_pristine main_go_success [OF assms(2)] by blast
qed

lemma process_ends_clean_witness:
  "\<exists>rc w'. main_go (list_koanf [] sample_config) sample_text id sample_process sample_app_env [] [] sample_world = ((1, rc), w')
     \<and> pristine w' \<and> rc \<noteq> None"
proof -
  obtain w' where w': "Start sample_app_env sample_config sample_world = (Inl (RelayListenFailed (Errno 98)), w')"
    using sample_start_fails by blast
  have ns: "c_CgroupPath sample_config \<noteq> []" "c_LogLevel sample_config \<le> LevelError"
    by (simp_all add: sample_config_def DefaultConfig_def LevelInfo_def LevelError_def)
  obtain rc where m: "main_go (list_koanf [] sample_config) sample_text id sample_process sample_app_env [] [] sample_world = ((1, rc), w')"
    using w' ns(1) by (simp add: main_go_def sample_loads fatal_def)
  have "\<forall>act. e_closeLoader sample_app_env act = None" by (simp add: sample_app_env_def)
  with process_ends_clean [OF pristine_sample m] m ns(2) show ?thesis by (auto simp: sample_loads)
qed

end
